(* ===== verification/Prelude.thy ===== *)
theory Prelude
  imports Complex_Main "HOL-Library.Word"
begin

text \<open>
  Shared vocabulary of the development: the collections of rewrite rules the component
  proofs use, checked vector access, the two list idioms the sources write with iterators
  (\<open>std::find\<close> followed by an assignment), ordered maps with integer keys, and folds that
  thread a state through a loop.
\<close>

named_theorems context_simps \<open>rewrite rules for the error state and the runtime context\<close>
named_theorems tree_simps \<open>rewrite rules for process trees\<close>
named_theorems pin_simps \<open>rewrite rules for pinnings\<close>

subsection \<open>Checked vector access\<close>

text \<open>
  \<open>std::vector\<close> is a list. Reading or writing outside the vector is undefined behaviour in
  C++; here it is the value \<open>None\<close>, and every operation that indexes a vector passes it on.
\<close>

definition vec_at :: "'a list \<Rightarrow> int \<Rightarrow> 'a option" where
  "vec_at xs i = (if 0 \<le> i \<and> i < int (length xs) then Some (xs ! nat i) else None)"

definition vec_set :: "'a list \<Rightarrow> int \<Rightarrow> 'a \<Rightarrow> 'a list option" where
  "vec_set xs i v = (if 0 \<le> i \<and> i < int (length xs) then Some (xs[nat i := v]) else None)"

lemma vec_at_nat [simp]: "vec_at xs (int n) = (if n < length xs then Some (xs ! n) else None)"
  by (simp add: vec_at_def)

lemma vec_set_nat [simp]:
  "vec_set xs (int n) v = (if n < length xs then Some (xs[n := v]) else None)"
  by (simp add: vec_set_def)

lemma vec_at_neg [simp]: "i < 0 \<Longrightarrow> vec_at xs i = None"
  by (simp add: vec_at_def)

lemma vec_at_SomeD: "vec_at xs i = Some x \<Longrightarrow> x \<in> set xs"
  by (auto simp: vec_at_def split: if_splits)

lemma nth_update: "xs[i := x] ! j = (if i = j \<and> i < length xs then x else xs ! j)"
  by (cases "i < length xs") (simp_all add: nth_list_update list_update_beyond)

subsection \<open>Search and assignment through an iterator\<close>

text \<open>\<open>auto it = std::find(xs.begin(), xs.end(), x); if (it != xs.end()) *it = y;\<close>\<close>

fun find_assign :: "'a \<Rightarrow> 'a \<Rightarrow> 'a list \<Rightarrow> 'a list" where
  "find_assign x y [] = []"
| "find_assign x y (z # zs) = (if z = x then y # zs else z # find_assign x y zs)"

lemma length_find_assign [simp]: "length (find_assign x y xs) = length xs"
  by (induction xs) auto

lemma find_assign_absent: "x \<notin> set xs \<Longrightarrow> find_assign x y xs = xs"
  by (induction xs) auto

lemma find_assign_same [simp]: "find_assign x x xs = xs"
  by (induction xs) auto

lemma find_assign_nth:
  "i < length xs \<Longrightarrow> find_assign x y xs ! i = xs ! i \<or> xs ! i = x \<and> find_assign x y xs ! i = y"
proof (induction xs arbitrary: i)
  case Nil
  then show ?case by simp
next
  case (Cons z zs)
  then show ?case by (cases i) auto
qed

lemma find_assign_unique:
  assumes "i < length xs" and "xs ! i = x" and "\<And>j. j < length xs \<Longrightarrow> xs ! j = x \<Longrightarrow> j = i"
  shows "find_assign x y xs = xs[i := y]"
  using assms
proof (induction xs arbitrary: i)
  case Nil
  then show ?case by simp
next
  case (Cons z zs)
  show ?case
  proof (cases i)
    case 0
    with Cons.prems show ?thesis by simp
  next
    case (Suc k)
    have "z \<noteq> x"
      using Cons.prems(3)[of 0] Suc by auto
    moreover have "find_assign x y zs = zs[k := y]"
    proof (rule Cons.IH)
      show "k < length zs" "zs ! k = x" using Cons.prems Suc by auto
      show "\<And>j. j < length zs \<Longrightarrow> zs ! j = x \<Longrightarrow> j = k"
        using Cons.prems(3)[of "Suc j" for j] Suc by force
    qed
    ultimately show ?thesis using Suc by simp
  qed
qed

subsection \<open>Ordered maps with integer keys\<close>

text \<open>
  \<open>std::map<int, T>\<close> as its association list in key order; \<open>omap_put\<close> is
  \<open>m[k] = v\<close>.
\<close>

fun omap_put :: "int \<Rightarrow> 'v \<Rightarrow> (int \<times> 'v) list \<Rightarrow> (int \<times> 'v) list" where
  "omap_put k v [] = [(k, v)]"
| "omap_put k v ((l, w) # m) =
     (if k < l then (k, v) # (l, w) # m
      else if k = l then (k, v) # m
      else (l, w) # omap_put k v m)"

definition omap_wf :: "(int \<times> 'v) list \<Rightarrow> bool" where
  "omap_wf m \<longleftrightarrow> sorted_wrt (<) (map fst m)"

lemma omap_put_keys: "fst ` set (omap_put k v m) = insert k (fst ` set m)"
  by (induction k v m rule: omap_put.induct) auto

lemma omap_wf_put: "omap_wf m \<Longrightarrow> omap_wf (omap_put k v m)"
proof (induction k v m rule: omap_put.induct)
  case (1 k v)
  then show ?case by (simp add: omap_wf_def)
next
  case (2 k v l w m)
  have "omap_wf m" using "2.prems" by (simp add: omap_wf_def)
  moreover have "\<And>x. x \<in> fst ` set m \<Longrightarrow> l < x" using "2.prems" by (auto simp: omap_wf_def)
  ultimately show ?case
    using "2.IH" omap_put_keys[of k v m] by (fastforce simp: omap_wf_def)
qed

lemma omap_put_fresh:
  "k \<notin> fst ` set m \<Longrightarrow> set (omap_put k v m) = insert (k, v) (set m)"
  by (induction k v m rule: omap_put.induct) auto

lemma omap_put_in: "(k, v) \<in> set (omap_put k v m)"
  by (induction k v m rule: omap_put.induct) auto

subsection \<open>Sets iterated in order\<close>

lemma fold_preserves:
  "P s \<Longrightarrow> (\<And>x s. x \<in> set xs \<Longrightarrow> P s \<Longrightarrow> P (f x s)) \<Longrightarrow> P (fold f xs s)"
  by (induction xs arbitrary: s) auto

end
