(* ===== verification/Qt_Core.thy ===== *)
theory Qt_Core
  imports Prelude
begin

text \<open>
  The part of QtCore's value types the sources compute with. \<open>QString\<close> is a list of
  characters and \<open>QStringList\<close> a list of strings; the sequence operations the sources call on
  them (\<open>indexOf\<close>, \<open>mid\<close>, \<open>split\<close>, \<open>trimmed\<close>, \<open>join\<close>, \<open>removeDuplicates\<close>, line-wise
  reading) are list functions. Conversions between strings and numbers are not computed here:
  they are the fields of the parameter record \<open>qt_conv\<close>, handed to every definition that
  converts, with \<open>None\<close> where Qt reports \<open>ok = false\<close>.
\<close>

type_synonym QString = string
type_synonym QStringList = "string list"

text \<open>
  A \<open>double\<close>: the special values of IEEE 754 are explicit, a finite value is the real number it
  denotes. Operations that round take the rounding function as a parameter where they are used.
\<close>

datatype double = NaN | PInf | NInf | Fin real

record qt_conv =
  toInt10 :: "string \<Rightarrow> int option" \<comment> \<open>\<open>QString::toInt(&ok)\<close>\<close>
  toInt0 :: "string \<Rightarrow> int option" \<comment> \<open>\<open>QString::toInt(&ok, 0)\<close>\<close>
  toULong0 :: "string \<Rightarrow> 64 word option" \<comment> \<open>\<open>QString::toULong(&ok, 0)\<close>\<close>
  toDouble :: "string \<Rightarrow> double option" \<comment> \<open>\<open>QString::toDouble(&ok)\<close>\<close>

text \<open>Without the \<open>ok\<close> argument a failed conversion yields zero.\<close>

definition int_or_zero :: "int option \<Rightarrow> int" where
  "int_or_zero v = (case v of None \<Rightarrow> 0 | Some n \<Rightarrow> n)"

definition double_or_zero :: "double option \<Rightarrow> double" where
  "double_or_zero v = (case v of None \<Rightarrow> Fin 0 | Some d \<Rightarrow> d)"

subsection \<open>Decimal notation\<close>

fun digits :: "nat \<Rightarrow> string" where
  "digits n = (if n < 10 then [char_of (48 + n)] else digits (n div 10) @ [char_of (48 + n mod 10)])"

declare digits.simps [simp del]

definition number :: "int \<Rightarrow> QString" where
  "number i = (if i < 0 then CHR ''-'' # digits (nat (- i)) else digits (nat i))"

subsection \<open>Searching and cutting\<close>

fun find_sub :: "string \<Rightarrow> string \<Rightarrow> nat option" where
  "find_sub p [] = (if p = [] then Some 0 else None)"
| "find_sub p (c # s) =
     (if take (length p) (c # s) = p then Some 0 else map_option Suc (find_sub p s))"

definition indexOf :: "QString \<Rightarrow> string \<Rightarrow> int" where
  "indexOf s p = (case find_sub p s of None \<Rightarrow> -1 | Some n \<Rightarrow> int n)"

definition left_part :: "QString \<Rightarrow> int \<Rightarrow> QString" where \<comment> \<open>\<open>s.mid(0, n)\<close>\<close>
  "left_part s n = take (nat n) s"

definition mid :: "QString \<Rightarrow> int \<Rightarrow> QString" where
  "mid s n = drop (nat n) s"

definition isSpace :: "char \<Rightarrow> bool" where
  "isSpace c \<longleftrightarrow> c \<in> {CHR '' '', CHR 0x09, CHR 0x0A, CHR 0x0B, CHR 0x0C, CHR 0x0D}"

definition trimmed :: "QString \<Rightarrow> QString" where
  "trimmed s = rev (dropWhile isSpace (rev (dropWhile isSpace s)))"

fun split_char :: "char \<Rightarrow> QString \<Rightarrow> QStringList" where
  "split_char c [] = [[]]"
| "split_char c (x # xs) =
     (if x = c then [] # split_char c xs
      else (case split_char c xs of [] \<Rightarrow> [[x]] | y # ys \<Rightarrow> (x # y) # ys))"

definition split_skip_empty :: "char \<Rightarrow> QString \<Rightarrow> QStringList" where
  "split_skip_empty c s = filter (\<lambda>p. p \<noteq> []) (split_char c s)"

fun join :: "string \<Rightarrow> QStringList \<Rightarrow> QString" where
  "join sep [] = []"
| "join sep [x] = x"
| "join sep (x # y # ys) = x @ sep @ join sep (y # ys)"

definition removeDuplicates :: "QStringList \<Rightarrow> QStringList" where \<comment> \<open>keeps first occurrences\<close>
  "removeDuplicates xs = rev (remdups (rev xs))"

text \<open>
  \<open>while (!stream.atEnd()) line = stream.readLine();\<close> visits these lines: a line ends at a line
  feed, a carriage return before it is dropped, and a final line feed starts no further line.
\<close>

definition chomp_cr :: "string \<Rightarrow> string" where
  "chomp_cr l = (if l \<noteq> [] \<and> last l = CHR 0x0D then butlast l else l)"

definition text_lines :: "QString \<Rightarrow> QStringList" where
  "text_lines s =
     (let ls = split_char (CHR 0x0A) s
      in map chomp_cr (butlast ls) @ (if last ls = [] then [] else [last ls]))"

subsection \<open>Laws of the string operations\<close>

lemma split_char_not_Nil [simp]: "split_char c s \<noteq> []"
  by (induction s) (auto split: list.splits)

lemma split_char_append_sep: "split_char c (a @ c # b) = split_char c a @ split_char c b"
  by (induction a) (auto split: list.splits simp: Cons_eq_append_conv append_eq_Cons_conv)

lemma split_char_plain: "c \<notin> set s \<Longrightarrow> split_char c s = [s]"
  by (induction s) auto

lemma split_char_pieces: "p \<in> set (split_char c s) \<Longrightarrow> c \<notin> set p \<and> set p \<subseteq> set s"
  by (induction s arbitrary: p) (force split: if_splits list.splits)+

lemma split_skip_empty_append:
  "split_skip_empty c (a @ c # b) = split_skip_empty c a @ split_skip_empty c b"
  by (simp add: split_skip_empty_def split_char_append_sep)

lemma split_skip_empty_plain: "c \<notin> set s \<Longrightarrow> s \<noteq> [] \<Longrightarrow> split_skip_empty c s = [s]"
  by (simp add: split_skip_empty_def split_char_plain)

lemma split_skip_empty_Nil [simp]: "split_skip_empty c [] = []"
  by (simp add: split_skip_empty_def)

lemma split_skip_empty_sep [simp]: "split_skip_empty c (c # s) = split_skip_empty c s"
  by (simp add: split_skip_empty_def)

lemma split_join:
  assumes "\<And>v. v \<in> set vs \<Longrightarrow> v \<noteq> [] \<and> c \<notin> set v"
  shows "split_skip_empty c (join [c] vs) = vs"
  using assms
proof (induction "[c]" vs rule: join.induct)
  case 1
  then show ?case by simp
next
  case (2 x)
  then show ?case by (simp add: split_skip_empty_plain)
next
  case (3 x y ys)
  then have "split_skip_empty c (join [c] (y # ys)) = y # ys" by simp
  with 3 show ?case by (simp add: split_skip_empty_append split_skip_empty_plain)
qed

lemma find_sub_Some: "find_sub p s = Some n \<Longrightarrow> take (length p) (drop n s) = p \<and> n \<le> length s"
  by (induction s arbitrary: n) (auto split: if_splits)

lemma find_sub_Some_subset:
  assumes "find_sub p s = Some n"
  shows "set p \<subseteq> set s"
proof -
  from find_sub_Some[OF assms] have "set p = set (take (length p) (drop n s))" by simp
  then show ?thesis using set_take_subset set_drop_subset by fastforce
qed

lemma find_sub_char: "find_sub [c] s = None \<longleftrightarrow> c \<notin> set s"
  by (induction s) auto

lemma find_sub_char_append: "c \<notin> set a \<Longrightarrow> find_sub [c] (a @ c # b) = Some (length a)"
  by (induction a) auto

lemma find_sub_plain: "p = c # q \<Longrightarrow> c \<notin> set s \<Longrightarrow> find_sub p s = None"
  by (induction s) auto

lemma indexOf_char_append: "c \<notin> set a \<Longrightarrow> indexOf (a @ c # b) [c] = int (length a)"
  by (simp add: indexOf_def find_sub_char_append)

lemma indexOf_nonneg_iff: "0 \<le> indexOf s p \<longleftrightarrow> indexOf s p \<noteq> -1"
  by (simp add: indexOf_def split: option.splits)

lemma trimmed_append_space:
  assumes "trimmed k = k" and "isSpace c"
  shows "trimmed (k @ [c]) = k"
proof (cases "k = []")
  case True
  with assms show ?thesis by (simp add: trimmed_def)
next
  case False
  have ne: "dropWhile isSpace k \<noteq> []"
  proof
    assume "dropWhile isSpace k = []"
    then have "trimmed k = []" by (simp only: trimmed_def dropWhile.simps rev.simps)
    with assms(1) False show False by simp
  qed
  then have "dropWhile isSpace (k @ [c]) = dropWhile isSpace k @ [c]"
    by (metis dropWhile_append1 dropWhile_eq_Nil_conv)
  with assms show ?thesis by (simp add: trimmed_def)
qed

lemma set_removeDuplicates [simp]: "set (removeDuplicates xs) = set xs"
  by (simp add: removeDuplicates_def)

lemma distinct_removeDuplicates [simp]: "distinct (removeDuplicates xs)"
  by (simp add: removeDuplicates_def)

lemma removeDuplicates_id: "distinct xs \<Longrightarrow> removeDuplicates xs = xs"
  by (simp add: removeDuplicates_def distinct_remdups_id)

lemma remdups_drop: "y \<in> set zs \<Longrightarrow> remdups (us @ y # zs) = remdups (us @ zs)"
  by (induction us) auto

lemma removeDuplicates_append_set: "set ys \<subseteq> set xs \<Longrightarrow> removeDuplicates (xs @ ys) = removeDuplicates xs"
proof (induction ys)
  case Nil
  then show ?case by simp
next
  case (Cons y ys)
  then have "remdups (rev ys @ y # rev xs) = remdups (rev ys @ rev xs)"
    by (intro remdups_drop) simp
  with Cons show ?case by (simp add: removeDuplicates_def)
qed

subsection \<open>Decimal conversion, an instance of the parameter\<close>

text \<open>
  A decimal reader with the documented behaviour of \<open>QString::toInt\<close>: white space around the
  number is ignored and a value outside the range of \<open>int\<close> is an error. The theorems hold for
  any conversions; this instance shows that what they ask of them can hold.
\<close>

definition isDigit :: "char \<Rightarrow> bool" where
  "isDigit c \<longleftrightarrow> (48::nat) \<le> of_char c \<and> of_char c < (58::nat)"

definition dec_nat :: "string \<Rightarrow> nat" where
  "dec_nat s = foldl (\<lambda>a c. a * 10 + (of_char c - 48)) 0 s"

definition dec_int :: "string \<Rightarrow> int option" where
  "dec_int s =
     (let t = trimmed s;
          neg = (t \<noteq> [] \<and> hd t = CHR ''-'');
          ds = (if neg then tl t else t);
          v = (if neg then - int (dec_nat ds) else int (dec_nat ds))
      in if ds \<noteq> [] \<and> (\<forall>c\<in>set ds. isDigit c) \<and> - (2 ^ 31) \<le> v \<and> v < 2 ^ 31 then Some v else None)"

definition dec_conv :: qt_conv where
  "dec_conv = \<lparr>toInt10 = dec_int, toInt0 = dec_int, toULong0 = (\<lambda>s. map_option word_of_int (dec_int s)),
     toDouble = (\<lambda>s. map_option (\<lambda>i. Fin (real_of_int i)) (dec_int s))\<rparr>"

lemma digits_isDigit: "c \<in> set (digits n) \<Longrightarrow> isDigit c"
proof (induction n rule: digits.induct)
  case (1 n)
  have "48 + n mod 10 < 256" by (simp add: less_trans[of _ 10])
  moreover have "n mod 10 < 10" by simp
  ultimately show ?case using 1 by (auto simp: isDigit_def digits.simps[of n] split: if_splits)
qed

lemma digits_not_Nil [simp]: "digits n \<noteq> []"
  by (simp add: digits.simps[of n])

lemma dec_nat_digits [simp]: "dec_nat (digits n) = n"
proof (induction n rule: digits.induct)
  case (1 n)
  have "48 + n mod 10 < 256" by (simp add: less_trans[of _ 10])
  then show ?case using 1 by (auto simp: dec_nat_def digits.simps[of n])
qed

lemma isDigit_not_space: "isDigit c \<Longrightarrow> \<not> isSpace c \<and> c \<noteq> CHR ''-'' \<and> c \<noteq> CHR '',''"
  by (auto simp: isDigit_def isSpace_def)

lemma trimmed_solid: "\<forall>c\<in>set s. \<not> isSpace c \<Longrightarrow> trimmed s = s"
  by (simp add: trimmed_def dropWhile_eq_self_iff) (metis hd_in_set hd_rev last_in_set rev_rev_ident dropWhile_eq_self_iff set_rev)

lemma number_solid: "c \<in> set (number n) \<Longrightarrow> \<not> isSpace c"
  using digits_isDigit isDigit_not_space by (auto simp: number_def isSpace_def split: if_splits)

lemma dec_int_number:
  assumes "- (2 ^ 31) \<le> n" and "n < 2 ^ 31" and "w = [] \<or> w = [CHR 0x0A]"
  shows "dec_int (number n @ w) = Some n"
proof -
  have "trimmed (number n) = number n" using number_solid by (intro trimmed_solid) blast
  then have t: "trimmed (number n @ w) = number n"
    using assms(3) trimmed_append_space[of "number n" "CHR 0x0A"] by (auto simp: isSpace_def)
  have "hd (digits m) \<noteq> CHR ''-''" for m
    using digits_isDigit[of "hd (digits m)" m] isDigit_not_space by auto
  then show ?thesis
    unfolding dec_int_def t using assms(1,2) digits_isDigit
    by (cases "n < 0") (auto simp: Let_def number_def)
qed

end
