(* ===== verification/Error_Context.thy ===== *)
theory Error_Context
  imports Prelude
begin

text \<open>
  The error state (\<open>include/AutopinPlus/Error.h\<close>, \<open>src/AutopinPlus/Error.cpp\<close>) and the
  runtime context every component of a watchdog shares
  (\<open>src/AutopinPlus/AutopinContext.cpp\<close>). A report is appended to the history and, when the
  table in \<open>Error::report\<close> says so, sets the error state for good. The context emits
  \<open>sig_error\<close> whenever it is in the error state after a report. The text of a message only
  goes to the logger, which no component reads back, so it is not part of the model.
\<close>

subsection \<open>Error\<close>

datatype autopin_estate = AUTOPIN_ERROR | AUTOPIN_NOERROR

datatype autopin_errors =
    FILE_NOT_FOUND | BAD_CONFIG | PROCESS | SYSTEM | PROC_TRACE | COMM | MONITOR
  | STRATEGY | HISTORY | UNSUPPORTED | UNKNOWN | NONE

type_synonym error_pair = "autopin_errors \<times> string"

record error_state =
  errors :: "error_pair list"
  global_estate :: autopin_estate

definition Error_new :: error_state where
  "Error_new = \<lparr>errors = [], global_estate = AUTOPIN_NOERROR\<rparr>"

definition setError :: "error_state \<Rightarrow> error_state" where
  "setError s = s\<lparr>global_estate := AUTOPIN_ERROR\<rparr>"

text \<open>The switch statement of \<open>Error::report\<close>, case by case and in the order of its tests.\<close>

fun report_switch :: "autopin_errors \<Rightarrow> string \<Rightarrow> error_state \<Rightarrow> error_state" where
  "report_switch FILE_NOT_FOUND opt s = (if opt = ''config'' then setError s else s)"
| "report_switch BAD_CONFIG opt s =
     (if opt = ''option_format'' then setError s
      else if opt = ''option_missing'' then setError s
      else if opt = ''inconsistent'' then setError s
      else s)"
| "report_switch PROCESS opt s =
     (if opt = ''already_running'' then s
      else if opt = ''not_found'' then setError s
      else if opt = ''found_many'' then setError s
      else if opt = ''create'' then setError s
      else if opt = ''terminated'' then setError s
      else s)"
| "report_switch SYSTEM opt s =
     (if opt = ''create_socket'' then setError s
      else if opt = ''mqqt'' then setError s
      else if opt = ''sigset'' then setError s
      else if opt = ''get_threads'' then s
      else if opt = ''access_proc'' then setError s
      else if opt = ''get_children'' then s
      else if opt = ''file_open'' then setError s
      else s)"
| "report_switch COMM opt s =
     (let s = (if opt = ''default_addr'' then setError s else s) in
      if opt = ''already_initialized'' then s
      else
        let s = (if opt = ''not_initialized'' then setError s else s);
            s = (if opt = ''socket'' then setError s else s);
            s = (if opt = ''comm_target'' then setError s else s);
            s = (if opt = ''connect'' then setError s else s)
        in (if opt = ''send'' then setError s else s))"
| "report_switch PROC_TRACE opt s =
     (if opt = ''in_use'' then setError s
      else if opt = ''cannot_trace'' then s
      else if opt = ''observed_process'' then s
      else if opt = ''waitpid'' then s
      else if opt = ''ptrace_eventmsg'' then setError s
      else if opt = ''cont_failed'' then setError s
      else if opt = ''set_options'' then s
      else s)"
| "report_switch MONITOR opt s =
     (if opt = ''init'' then setError s
      else if opt = ''reset'' then s
      else if opt = ''start'' then setError s
      else if opt = ''value'' then setError s
      else if opt = ''stop'' then setError s
      else if opt = ''create'' then setError s
      else if opt = ''destroy'' then setError s
      else s)"
| "report_switch STRATEGY opt s =
     (let s = (if opt = ''no_task'' then setError s else s);
          s = (if opt = ''wrong_cpu'' then setError s else s)
      in (if opt = ''set_affinity'' then s else s))"
| "report_switch HISTORY opt s =
     (let s = (if opt = ''bad_syntax'' then setError s else s)
      in (if opt = ''bad_file'' then setError s else s))"
| "report_switch UNSUPPORTED opt s =
     (if opt = ''critical'' then setError s
      else if opt = ''uncritical'' then s
      else s)"
| "report_switch UNKNOWN opt s = setError s"
| "report_switch NONE opt s = s"

definition Error_report :: "autopin_errors \<Rightarrow> string \<Rightarrow> error_state \<Rightarrow> autopin_estate \<times> error_state" where
  "Error_report error opt s =
     (let s = s\<lparr>errors := errors s @ [(error, opt)]\<rparr>;
          s = report_switch error opt s
      in (global_estate s, s))"

definition autopinErrorState :: "error_state \<Rightarrow> autopin_estate" where
  "autopinErrorState s = global_estate s"

subsection \<open>AutopinContext\<close>

record apcontext =
  err :: error_state
  context_name :: string
  sig_error :: nat \<comment> \<open>how often \<open>sig_error()\<close> has been emitted\<close>

definition AutopinContext_new :: "string \<Rightarrow> apcontext" where
  "AutopinContext_new name = \<lparr>err = Error_new, context_name = name, sig_error = 0\<rparr>"

definition isError :: "apcontext \<Rightarrow> bool" where
  "isError c \<longleftrightarrow> autopinErrorState (err c) = AUTOPIN_ERROR"

definition AutopinContext_report ::
  "autopin_errors \<Rightarrow> string \<Rightarrow> apcontext \<Rightarrow> autopin_estate \<times> apcontext" where
  "AutopinContext_report error opt c =
     (let (result, e) = Error_report error opt (err c);
          c = c\<lparr>err := e\<rparr>
      in (result, if isError c then c\<lparr>sig_error := sig_error c + 1\<rparr> else c))"

text \<open>No caller looks at the returned state, so the components use the new context only.\<close>

definition report :: "autopin_errors \<Rightarrow> string \<Rightarrow> apcontext \<Rightarrow> apcontext" where
  "report error opt c = snd (AutopinContext_report error opt c)"

subsection \<open>What the table of \<open>Error::report\<close> decides\<close>

text \<open>The reports that put autopin+ into the error state, as a table.\<close>

definition fatal_reports :: "error_pair list" where
  "fatal_reports =
     [(FILE_NOT_FOUND, ''config''),
      (BAD_CONFIG, ''option_format''), (BAD_CONFIG, ''option_missing''), (BAD_CONFIG, ''inconsistent''),
      (PROCESS, ''not_found''), (PROCESS, ''found_many''), (PROCESS, ''create''), (PROCESS, ''terminated''),
      (SYSTEM, ''create_socket''), (SYSTEM, ''mqqt''), (SYSTEM, ''sigset''), (SYSTEM, ''access_proc''),
      (SYSTEM, ''file_open''),
      (COMM, ''default_addr''), (COMM, ''not_initialized''), (COMM, ''socket''), (COMM, ''comm_target''),
      (COMM, ''connect''), (COMM, ''send''),
      (PROC_TRACE, ''in_use''), (PROC_TRACE, ''ptrace_eventmsg''), (PROC_TRACE, ''cont_failed''),
      (MONITOR, ''init''), (MONITOR, ''start''), (MONITOR, ''value''), (MONITOR, ''stop''),
      (MONITOR, ''create''), (MONITOR, ''destroy''),
      (STRATEGY, ''no_task''), (STRATEGY, ''wrong_cpu''),
      (HISTORY, ''bad_syntax''), (HISTORY, ''bad_file''),
      (UNSUPPORTED, ''critical'')]"

definition fatal :: "autopin_errors \<Rightarrow> string \<Rightarrow> bool" where
  "fatal e opt \<longleftrightarrow> e = UNKNOWN \<or> (e, opt) \<in> set fatal_reports"

lemma setError_simps [context_simps, simp]:
  "global_estate (setError s) = AUTOPIN_ERROR" "errors (setError s) = errors s"
  by (simp_all add: setError_def)

lemma report_switch_eq: "report_switch e opt s = (if fatal e opt then setError s else s)"
  by (cases e) (auto simp: fatal_def fatal_reports_def setError_def)

lemma errors_report [context_simps, simp]: "errors (err (report e opt c)) = errors (err c) @ [(e, opt)]"
  by (simp add: report_def AutopinContext_report_def Error_report_def report_switch_eq Let_def)

lemma isError_report [context_simps, simp]: "isError (report e opt c) \<longleftrightarrow> isError c \<or> fatal e opt"
  by (simp add: report_def AutopinContext_report_def Error_report_def report_switch_eq Let_def
      isError_def autopinErrorState_def)

lemma context_name_report [context_simps, simp]: "context_name (report e opt c) = context_name c"
  by (simp add: report_def AutopinContext_report_def Error_report_def Let_def)

lemma sig_error_report [context_simps, simp]:
  "sig_error (report e opt c) = (if isError c \<or> fatal e opt then Suc (sig_error c) else sig_error c)"
  by (simp add: report_def AutopinContext_report_def Error_report_def report_switch_eq Let_def
      isError_def autopinErrorState_def)

lemma fresh_context [context_simps, simp]:
  "errors (err (AutopinContext_new n)) = []" "\<not> isError (AutopinContext_new n)"
  by (simp_all add: AutopinContext_new_def Error_new_def isError_def autopinErrorState_def)

subsection \<open>Contract of an error sink\<close>

text \<open>
  What every component relies on: a report never clears the error state, sets it exactly for
  the fatal ones, and nothing is forgotten.
\<close>

locale error_sink =
  fixes submit :: "'e \<Rightarrow> 'c \<Rightarrow> 'c"
    and failed :: "'c \<Rightarrow> bool"
    and history :: "'c \<Rightarrow> 'e list"
    and is_fatal :: "'e \<Rightarrow> bool"
  assumes failed_submit: "failed (submit e c) \<longleftrightarrow> failed c \<or> is_fatal e"
    and history_submit: "history (submit e c) = history c @ [e]"
begin

lemma history_fold: "history (fold submit es c) = history c @ es"
  by (induction es arbitrary: c) (simp_all add: history_submit)

lemma failed_fold: "failed (fold submit es c) \<longleftrightarrow> failed c \<or> (\<exists>e\<in>set es. is_fatal e)"
  by (induction es arbitrary: c) (auto simp: failed_submit)

lemma failed_sticky: "failed c \<Longrightarrow> failed (fold submit es c)"
  by (simp add: failed_fold)

end

interpretation ctx: error_sink "\<lambda>(e, opt). report e opt" isError "\<lambda>c. errors (err c)"
  "\<lambda>(e, opt). fatal e opt"
  by unfold_locales auto

text \<open>
  Running any sequence of reports on a fresh context leaves exactly that sequence as the
  history, and the context is in the error state if and only if one of the reports is in the
  table of fatal ones (or of kind UNKNOWN): the state is sticky and nothing else sets it.
\<close>

theorem reports_characterise_error_state:
  "errors (err (fold (\<lambda>(e, opt). report e opt) rs (AutopinContext_new n))) = rs \<and>
   (isError (fold (\<lambda>(e, opt). report e opt) rs (AutopinContext_new n)) \<longleftrightarrow>
     (\<exists>(e, opt) \<in> set rs. fatal e opt))"
  using ctx.history_fold[of rs "AutopinContext_new n"] ctx.failed_fold[of rs "AutopinContext_new n"]
  by simp

end
