(* ===== verification/Configuration.thy ===== *)
theory Configuration
  imports Qt_Core Error_Context
begin

text \<open>
  Reading configurations: \<open>src/AutopinPlus/Configuration.cpp\<close> (typed access to option values),
  \<open>src/AutopinPlus/StandardConfiguration.cpp\<close> (the \<open>option = value\<close> format with the operators
  \<open>=\<close>, \<open>+=\<close> and \<open>-=\<close>) and \<open>src/AutopinPlus/Tools.cpp\<close> (checked conversions). The option table
  \<open>std::map<QString, QStringList>\<close> is a map; its iteration order is never used. Parsing threads
  the table and the runtime context the errors are reported to. A function of \<open>Tools\<close> that
  throws an \<open>Exception\<close> returns \<open>None\<close>.
\<close>

type_synonym string_map = "QString \<rightharpoonup> QStringList"
type_synonym arg_pair = "QString \<times> QStringList"
type_synonym configopts = "(QString \<times> QStringList) list"

subsection \<open>StandardConfiguration\<close>

definition getConfigOptionList :: "string_map \<Rightarrow> QString \<Rightarrow> QStringList" where
  "getConfigOptionList options opt = (case options opt of Some l \<Rightarrow> l | None \<Rightarrow> [])"

definition setOption :: "arg_pair \<Rightarrow> string_map \<Rightarrow> string_map" where
  "setOption opt options =
     (if snd opt = [] then options else options(fst opt \<mapsto> snd opt))"

definition addOption :: "arg_pair \<Rightarrow> string_map \<Rightarrow> string_map" where
  "addOption opt options =
     (if snd opt = [] then options
      else let new_opts = getConfigOptionList options (fst opt); \<comment> \<open>\<open>options[opt.first]\<close>\<close>
               new_opts = new_opts @ snd opt;
               new_opts = removeDuplicates new_opts
           in options(fst opt \<mapsto> new_opts))"

definition delOption :: "arg_pair \<Rightarrow> string_map \<Rightarrow> string_map" where
  "delOption opt options =
     (if snd opt = [] then options
      else case options (fst opt) of
             None \<Rightarrow> options
           | Some new_opts \<Rightarrow> options(fst opt \<mapsto> fold removeAll (snd opt) new_opts))"

definition getArgs :: "QString \<Rightarrow> string_map \<times> apcontext \<Rightarrow> string_map \<times> apcontext" where
  "getArgs arg = (\<lambda>(options, context).
     (let sep_pos = indexOf arg ''+='' in
      if sep_pos \<noteq> -1 then
        let argl = trimmed (left_part arg sep_pos);
            optlist = split_skip_empty CHR '' '' (mid arg (sep_pos + 2))
        in (addOption (argl, optlist) options, context)
      else let sep_pos = indexOf arg ''-='' in
      if sep_pos \<noteq> -1 then
        let argl = trimmed (left_part arg sep_pos);
            optlist = split_skip_empty CHR '' '' (mid arg (sep_pos + 2))
        in (delOption (argl, optlist) options, context)
      else let sep_pos = indexOf arg ''='' in
      if sep_pos \<noteq> -1 then
        let argl = trimmed (left_part arg sep_pos);
            optlist = split_skip_empty CHR '' '' (mid arg (sep_pos + 1))
        in (setOption (argl, optlist) options, context)
      else (options, report BAD_CONFIG ''option_format'' context)))"

text \<open>
  On an empty line \<open>line[0]\<close> is the null character, which is not \<open>#\<close>: such a line reaches
  \<open>getArgs\<close>.
\<close>

definition parse_line :: "QString \<Rightarrow> string_map \<times> apcontext \<Rightarrow> string_map \<times> apcontext" where
  "parse_line line s = (if line \<noteq> [] \<and> hd line = CHR ''#'' then s else getArgs line s)"

definition parseConfigurationFile :: "QString \<Rightarrow> string_map \<times> apcontext \<Rightarrow> string_map \<times> apcontext" where
  "parseConfigurationFile configText s = fold parse_line (text_lines configText) s"

text \<open>The constructor followed by \<open>init()\<close>.\<close>

definition StandardConfiguration_init :: "QString \<Rightarrow> apcontext \<Rightarrow> string_map \<times> apcontext" where
  "StandardConfiguration_init configText context = parseConfigurationFile configText (Map.empty, context)"

subsection \<open>Configuration\<close>

definition getEnvVariable :: "(QString \<rightharpoonup> QString) \<Rightarrow> QString \<Rightarrow> QString" where
  "getEnvVariable env name = (case env name of Some v \<Rightarrow> v | None \<Rightarrow> [])"

definition getConfigOption :: "string_map \<Rightarrow> QString \<Rightarrow> int \<Rightarrow> QString" where
  "getConfigOption options opt count =
     (let opts = getConfigOptionList options opt
      in if 0 \<le> count \<and> count < int (length opts) then opts ! nat count else [])"

definition configOptionExists :: "string_map \<Rightarrow> QString \<Rightarrow> int" where
  "configOptionExists options opt = int (length (getConfigOptionList options opt))"

definition getConfigOptionInt :: "qt_conv \<Rightarrow> string_map \<Rightarrow> QString \<Rightarrow> int \<Rightarrow> int" where
  "getConfigOptionInt qt options opt count =
     int_or_zero (toInt10 qt (getConfigOption options opt count))"

definition getConfigOptionDouble :: "qt_conv \<Rightarrow> string_map \<Rightarrow> QString \<Rightarrow> int \<Rightarrow> double" where
  "getConfigOptionDouble qt options opt count =
     double_or_zero (toDouble qt (getConfigOption options opt count))"

definition getConfigOptionBool :: "qt_conv \<Rightarrow> string_map \<Rightarrow> QString \<Rightarrow> int \<Rightarrow> bool" where
  "getConfigOptionBool qt options opt count =
     (let val = getConfigOption options opt count in
      if val = ''true'' \<or> val = ''True'' \<or> val = ''TRUE'' then True
      else if val = ''false'' \<or> val = ''False'' \<or> val = ''FALSE'' then False
      else double_or_zero (toDouble qt val) \<noteq> Fin 0)"

definition configOptionBool :: "qt_conv \<Rightarrow> string_map \<Rightarrow> QString \<Rightarrow> int \<Rightarrow> bool" where
  "configOptionBool qt options opt count =
     (let val = getConfigOption options opt count;
          isdouble = (toDouble qt val \<noteq> None)
      in if isdouble then True
         else if val = ''true'' \<or> val = ''True'' \<or> val = ''TRUE'' then True
         else if val = ''false'' \<or> val = ''False'' \<or> val = ''FALSE'' then True
         else False)"

subsection \<open>Tools\<close>

definition readDouble :: "qt_conv \<Rightarrow> QString \<Rightarrow> double option" where
  "readDouble qt s = toDouble qt s"

definition readInt :: "qt_conv \<Rightarrow> QString \<Rightarrow> int option" where
  "readInt qt s = toInt0 qt s"

fun readInts :: "qt_conv \<Rightarrow> QStringList \<Rightarrow> int list option" where
  "readInts qt [] = Some []"
| "readInts qt (element # list) =
     (case readInt qt element of
        None \<Rightarrow> None
      | Some i \<Rightarrow> map_option ((#) i) (readInts qt list))"

text \<open>The files a function may read: path to contents, \<open>None\<close> when it cannot be opened.\<close>

type_synonym files = "QString \<Rightarrow> QString option"

definition readLine :: "files \<Rightarrow> QString \<Rightarrow> QString option" where
  "readLine fs path =
     (case fs path of
        None \<Rightarrow> None
      | Some content \<Rightarrow> Some (case text_lines content of [] \<Rightarrow> [] | l # _ \<Rightarrow> l))"

definition readPair :: "QString \<Rightarrow> char \<Rightarrow> (QString \<times> QString) option" where
  "readPair s separator =
     (case split_char separator s of
        [a, b] \<Rightarrow> Some (a, b)
      | _ \<Rightarrow> None)"

definition readULong :: "qt_conv \<Rightarrow> QString \<Rightarrow> 64 word option" where
  "readULong qt s = toULong0 qt s"

definition showInts :: "int list \<Rightarrow> QStringList" where
  "showInts list = map number list"

subsection \<open>Contract of the option table\<close>

text \<open>
  What the readers of a configuration rely on: the three update operations change the list of
  their own option as documented (\<open>=\<close> replaces, \<open>+=\<close> appends without duplicates, \<open>-=\<close>
  removes) and leave every other option alone.
\<close>

locale option_table =
  fixes lookup :: "'m \<Rightarrow> QString \<Rightarrow> QStringList"
    and assign :: "arg_pair \<Rightarrow> 'm \<Rightarrow> 'm"
    and append_vals :: "arg_pair \<Rightarrow> 'm \<Rightarrow> 'm"
    and remove_vals :: "arg_pair \<Rightarrow> 'm \<Rightarrow> 'm"
  assumes lookup_assign: "vs \<noteq> [] \<Longrightarrow> lookup (assign (k, vs) m) k = vs"
    and lookup_append: "vs \<noteq> [] \<Longrightarrow> lookup (append_vals (k, vs) m) k = removeDuplicates (lookup m k @ vs)"
    and lookup_remove: "lookup (remove_vals (k, vs) m) k = filter (\<lambda>v. v \<notin> set vs) (lookup m k)"
    and assign_frame: "l \<noteq> k \<Longrightarrow> lookup (assign (k, vs) m) l = lookup m l"
    and append_frame: "l \<noteq> k \<Longrightarrow> lookup (append_vals (k, vs) m) l = lookup m l"
    and remove_frame: "l \<noteq> k \<Longrightarrow> lookup (remove_vals (k, vs) m) l = lookup m l"
begin

text \<open>The example of the manual: assign, extend by a new value, remove one.\<close>

lemma assign_append_remove:
  assumes "vs \<noteq> []" and "distinct vs" and "v \<notin> set vs" and "w \<in> set vs"
  shows "lookup (remove_vals (k, [w]) (append_vals (k, [v]) (assign (k, vs) m))) k = remove1 w vs @ [v]"
proof -
  have "removeDuplicates (vs @ [v]) = vs @ [v]"
    using assms by (intro removeDuplicates_id) simp
  then have "lookup (append_vals (k, [v]) (assign (k, vs) m)) k = vs @ [v]"
    using assms by (simp add: lookup_append lookup_assign)
  moreover have "filter (\<lambda>u. u \<noteq> w) vs = remove1 w vs"
    using assms(2) by (auto simp: distinct_remove1_removeAll removeAll_filter_not_eq intro: filter_cong)
  ultimately show ?thesis
    using assms by (auto simp: lookup_remove)
qed

text \<open>Adding the same values twice changes nothing the second time.\<close>

lemma append_twice:
  "vs \<noteq> [] \<Longrightarrow> lookup (append_vals (k, vs) (append_vals (k, vs) m)) k = lookup (append_vals (k, vs) m) k"
  by (simp add: lookup_append removeDuplicates_append_set removeDuplicates_id)

end

lemma fold_removeAll: "fold removeAll vs xs = filter (\<lambda>x. x \<notin> set vs) xs"
  by (induction vs arbitrary: xs) (auto simp: removeAll_filter_not_eq intro: filter_cong)

interpretation opts: option_table getConfigOptionList setOption addOption delOption
proof unfold_locales
  fix m :: string_map and k :: QString and vs
  show "getConfigOptionList (delOption (k, vs) m) k = filter (\<lambda>v. v \<notin> set vs) (getConfigOptionList m k)"
    by (auto simp: getConfigOptionList_def delOption_def fold_removeAll split: option.splits)
qed (auto simp: getConfigOptionList_def setOption_def addOption_def delOption_def Let_def split: option.splits)

subsection \<open>Properties of the parser\<close>

lemma getConfigOptionList_empty [simp]: "getConfigOptionList Map.empty k = []"
  by (simp add: getConfigOptionList_def)

lemma getArgs_equals:
  assumes "indexOf arg ''+='' = -1" and "indexOf arg ''-='' = -1"
    and "arg = k @ CHR ''='' # v" and "CHR ''='' \<notin> set k"
  shows "getArgs arg (options, c) = (setOption (trimmed k, split_skip_empty CHR '' '' v) options, c)"
  using assms indexOf_char_append[of "CHR ''=''" k v]
  by (simp add: getArgs_def Let_def left_part_def mid_def nat_add_distrib)

definition is_comment :: "QString \<Rightarrow> bool" where
  "is_comment line \<longleftrightarrow> line \<noteq> [] \<and> hd line = CHR ''#''"

lemma parse_comments: "list_all is_comment ls \<Longrightarrow> fold parse_line ls s = s"
  by (induction ls) (auto simp: parse_line_def is_comment_def)

text \<open>
  C32. Writing an option back and reading it again: a line \<open>key = v1 v2 ...\<close> (a trimmed key
  without \<open>=\<close>, non-empty values without blanks, no \<open>+=\<close> or \<open>-=\<close> anywhere in the line) sets
  exactly that option to exactly those values, in order, and reports nothing.
\<close>

theorem getArgs_roundtrip:
  assumes "vs \<noteq> []" and "\<forall>v\<in>set vs. v \<noteq> [] \<and> CHR '' '' \<notin> set v"
    and "trimmed k = k" and "CHR ''='' \<notin> set k"
    and "indexOf (k @ '' = '' @ join '' '' vs) ''+='' = -1"
    and "indexOf (k @ '' = '' @ join '' '' vs) ''-='' = -1"
  shows "getArgs (k @ '' = '' @ join '' '' vs) (options, c) = (options(k \<mapsto> vs), c)"
proof -
  let ?v = "CHR '' '' # join '' '' vs"
  have "getArgs (k @ '' = '' @ join '' '' vs) (options, c)
      = (setOption (trimmed (k @ '' ''), split_skip_empty CHR '' '' ?v) options, c)"
    using assms by (intro getArgs_equals) auto
  moreover have "trimmed (k @ '' '') = k"
    using assms(3) by (intro trimmed_append_space) (simp_all add: isSpace_def)
  moreover have "split_skip_empty CHR '' '' ?v = vs"
    using assms(2) split_join[of vs "CHR '' ''"] by simp
  ultimately show ?thesis using assms(1) by (simp add: setOption_def)
qed

theorem getArgs_roundtrip_witness:
  "getArgs ''Exec = sleep 10'' (Map.empty, AutopinContext_new ''g'')
     = ([''Exec'' \<mapsto> [''sleep'', ''10'']], AutopinContext_new ''g'')"
  using getArgs_roundtrip[of "[''sleep'', ''10'']" "''Exec''" Map.empty "AutopinContext_new ''g''"]
  by (simp add: trimmed_def isSpace_def indexOf_def)

text \<open>
  The three operators of the manual: after \<open>opt = vs\<close>, \<open>opt += v\<close> and \<open>opt -= w\<close> the
  option holds the original values without \<open>w\<close>, in order, followed by \<open>v\<close>, and every other option
  holds what it held.
\<close>

theorem option_operators:
  assumes "vs \<noteq> []" and "distinct vs" and "v \<notin> set vs" and "w \<in> set vs"
  shows "getConfigOptionList (delOption (k, [w]) (addOption (k, [v]) (setOption (k, vs) m))) k'
    = (if k' = k then remove1 w vs @ [v] else getConfigOptionList m k')"
  using opts.assign_append_remove[OF assms, of k m]
  by (auto simp: opts.assign_frame opts.append_frame opts.remove_frame)

theorem option_operators_witness:
  "getConfigOptionList (delOption (''opt'', [''val1''])
     (addOption (''opt'', [''val4'']) (setOption (''opt'', [''val1'', ''val2'', ''val3'']) Map.empty))) ''opt''
   = [''val2'', ''val3'', ''val4'']"
  using option_operators[where vs = "[''val1'', ''val2'', ''val3'']" and v = "''val4''" and w = "''val1''"
      and k = "''opt''" and k' = "''opt''" and m = Map.empty]
  by simp

text \<open>
  Which lines are accepted: every line that contains \<open>=\<close> is, whatever its operator; any other
  line, an empty one included, is reported as a malformed option, which is a fatal report.
\<close>

lemma getArgs_context:
  "snd (getArgs arg (options, c)) = (if CHR ''='' \<in> set arg then c else report BAD_CONFIG ''option_format'' c)"
proof -
  have two: "find_sub [x, CHR ''=''] arg = None" if "CHR ''='' \<notin> set arg" for x
    using that find_sub_Some_subset[of "[x, CHR ''='']" arg] by (cases "find_sub [x, CHR ''=''] arg") auto
  show ?thesis
    using two[of "CHR ''+''"] two[of "CHR ''-''"] find_sub_char[of "CHR ''=''" arg]
    by (auto simp: getArgs_def Let_def indexOf_def split: option.splits)
qed

definition malformed :: "QString \<Rightarrow> bool" where
  "malformed line \<longleftrightarrow> \<not> is_comment line \<and> CHR ''='' \<notin> set line"

lemma parse_line_context:
  "snd (parse_line line s) = (if malformed line then report BAD_CONFIG ''option_format'' (snd s) else snd s)"
  by (cases s) (simp add: parse_line_def malformed_def is_comment_def getArgs_context)

text \<open>Each malformed line is reported once, in the order of the text.\<close>

lemma parse_lines_context:
  "snd (fold parse_line ls s) = fold (\<lambda>_. report BAD_CONFIG ''option_format'') (filter malformed ls) (snd s)"
  by (induction ls arbitrary: s) (simp_all add: parse_line_context)

lemma fold_report:
  "isError (fold (\<lambda>_. report e opt) ls c) \<longleftrightarrow> isError c \<or> ls \<noteq> [] \<and> fatal e opt"
  "errors (err (fold (\<lambda>_. report e opt) ls c)) = errors (err c) @ replicate (length ls) (e, opt)"
  by (induction ls arbitrary: c) auto

lemma configuration_reports:
  "errors (err (snd (StandardConfiguration_init text c))) =
     errors (err c) @ replicate (length (filter malformed (text_lines text))) (BAD_CONFIG, ''option_format'')"
  by (simp add: StandardConfiguration_init_def parseConfigurationFile_def parse_lines_context fold_report)

text \<open>
  Reading a configuration text puts a context into the error state exactly when some line
  that is not a comment has no \<open>=\<close>: in particular a blank line does, and nothing that has the
  form of an assignment ever does.
\<close>

theorem configuration_text_errors:
  "isError (snd (StandardConfiguration_init text context)) \<longleftrightarrow>
     isError context \<or>
     (\<exists>line\<in>set (text_lines text). \<not> is_comment line \<and> CHR ''='' \<notin> set line)"
  by (auto simp: StandardConfiguration_init_def parseConfigurationFile_def parse_lines_context fold_report
      filter_empty_conv malformed_def fatal_def fatal_reports_def)

text \<open>
  The operators are searched in the whole line and \<open>+=\<close> first: a value that contains \<open>+=\<close>
  turns an assignment into an addition to an option named after everything left of it.
\<close>

theorem plus_equals_in_a_value:
  "getArgs ''Exec = env X+=1 run'' (options, c) =
     (options(''Exec = env X'' \<mapsto>
        removeDuplicates (getConfigOptionList options ''Exec = env X'' @ [''1'', ''run''])), c)"
  by (simp add: getArgs_def indexOf_def Let_def left_part_def mid_def trimmed_def isSpace_def
      split_skip_empty_def addOption_def)

text \<open>
  Typed access agrees with the test that guards it: whenever \<open>configOptionBool\<close> accepts a
  value, \<open>getConfigOptionBool\<close> returns the boolean it denotes (a keyword, or a number compared
  with zero); a value it rejects is read as false.
\<close>

theorem bool_options:
  "(configOptionBool qt m k n \<longleftrightarrow>
     getConfigOption m k n \<in> {''true'', ''True'', ''TRUE'', ''false'', ''False'', ''FALSE''}
     \<or> (\<exists>d. toDouble qt (getConfigOption m k n) = Some d)) \<and>
   (getConfigOptionBool qt m k n \<longleftrightarrow>
     configOptionBool qt m k n \<and>
     (getConfigOption m k n \<in> {''true'', ''True'', ''TRUE''}
      \<or> getConfigOption m k n \<notin> {''false'', ''False'', ''FALSE''}
         \<and> toDouble qt (getConfigOption m k n) \<noteq> Some (Fin 0)))"
  by (auto simp: configOptionBool_def getConfigOptionBool_def double_or_zero_def Let_def split: option.splits)

lemma readInts_Some: "readInts qt l = Some is \<longleftrightarrow> map (readInt qt) l = map Some is"
  by (induction l arbitrary: "is") (auto split: option.splits)

lemma readInts_None: "readInts qt l = None \<longleftrightarrow> (\<exists>e\<in>set l. readInt qt e = None)"
  by (induction l) (auto split: option.splits)

lemma split_char_join:
  assumes "\<And>v. v \<in> set vs \<Longrightarrow> c \<notin> set v" and "vs \<noteq> []"
  shows "split_char c (join [c] vs) = vs"
  using assms
  by (induction "[c]" vs rule: join.induct) (auto simp: split_char_plain split_char_append_sep)

lemma join_split_char: "join [c] (split_char c s) = s"
proof (induction s)
  case Nil
  then show ?case by simp
next
  case (Cons x xs)
  obtain y ys where "split_char c xs = y # ys" by (cases "split_char c xs") auto
  with Cons show ?case by (cases ys) auto
qed

text \<open>
  \<open>Tools::readPair\<close> succeeds exactly on strings with one separator, and returns what is
  left and right of it.
\<close>

theorem readPair_iff:
  "readPair s sep = Some (a, b) \<longleftrightarrow> s = a @ sep # b \<and> sep \<notin> set a \<and> sep \<notin> set b"
proof
  assume "readPair s sep = Some (a, b)"
  then have split: "split_char sep s = [a, b]" by (auto simp: readPair_def split: list.splits)
  then have "s = a @ sep # b" using join_split_char[of sep s] by simp
  with split show "s = a @ sep # b \<and> sep \<notin> set a \<and> sep \<notin> set b"
    using split_char_pieces[of _ sep s] by auto
next
  assume "s = a @ sep # b \<and> sep \<notin> set a \<and> sep \<notin> set b"
  then show "readPair s sep = Some (a, b)"
    by (simp add: readPair_def split_char_append_sep split_char_plain)
qed

end
