(* ===== verification/Process_Tree.thy ===== *)
theory Process_Tree
  imports Prelude "HOL-Library.Multiset"
begin

text \<open>
  \<open>src/AutopinPlus/ProcessTree.cpp\<close>: the tree of the processes below the observed one. A node
  holds a process id, the set of its task ids (\<open>std::set<int>\<close>) and its children
  (\<open>std::map<int, ProcessTree>\<close>, an association list in key order). Trees are compared by the
  process id of their roots, and \<open>ProcessTree::empty\<close>, the tree of process 0, doubles as
  "not found".
\<close>

type_synonym autopin_tid_list = "int set"

datatype ProcessTree =
  Process (tree_pid: int) (tree_tasks: "int set") (child_procs: "(int \<times> ProcessTree) list")

definition ProcessTree_new :: "int \<Rightarrow> ProcessTree" where
  "ProcessTree_new p = Process p {p} []"

definition ProcessTree_tasks :: "int \<Rightarrow> autopin_tid_list \<Rightarrow> ProcessTree" where
  "ProcessTree_tasks p ts = Process p (insert p ts) []"

definition ProcessTree_empty :: ProcessTree where
  "ProcessTree_empty = ProcessTree_new 0"

definition tree_less :: "ProcessTree \<Rightarrow> ProcessTree \<Rightarrow> bool" where
  "tree_less t u \<longleftrightarrow> tree_pid t < tree_pid u"

definition tree_eq :: "ProcessTree \<Rightarrow> ProcessTree \<Rightarrow> bool" where
  "tree_eq t u \<longleftrightarrow> tree_pid t = tree_pid u"

definition tree_neq :: "ProcessTree \<Rightarrow> ProcessTree \<Rightarrow> bool" where
  "tree_neq t u \<longleftrightarrow> \<not> tree_eq t u"

fun addChildProcess :: "int \<Rightarrow> int \<Rightarrow> ProcessTree \<Rightarrow> ProcessTree" where
  "addChildProcess ppid cpid (Process p ts cs) =
     (if p = ppid then Process p ts (omap_put cpid (ProcessTree_new cpid) cs)
      else Process p ts (map (\<lambda>(k, t). (k, addChildProcess ppid cpid t)) cs))"

fun addProcessTask :: "int \<Rightarrow> int \<Rightarrow> ProcessTree \<Rightarrow> ProcessTree" where
  "addProcessTask q tid (Process p ts cs) =
     (if p = q then Process p (insert tid ts) cs
      else Process p ts (map (\<lambda>(k, t). (k, addProcessTask q tid t)) cs))"

fun addProcessTaskList :: "int \<Rightarrow> autopin_tid_list \<Rightarrow> ProcessTree \<Rightarrow> ProcessTree" where
  "addProcessTaskList q tids (Process p ts cs) =
     (if p = q then Process p (ts \<union> tids) cs
      else Process p ts (map (\<lambda>(k, t). (k, addProcessTaskList q tids t)) cs))"

fun getAllTasks :: "ProcessTree \<Rightarrow> autopin_tid_list" where
  "getAllTasks (Process p ts cs) = fold (\<lambda>(k, t) result. result \<union> getAllTasks t) cs ts"

text \<open>The loop over the children: the first result that is not the empty tree.\<close>

fun first_found :: "ProcessTree list \<Rightarrow> ProcessTree" where
  "first_found [] = ProcessTree_empty"
| "first_found (t # ts) = (if tree_neq t ProcessTree_empty then t else first_found ts)"

fun findTask :: "int \<Rightarrow> ProcessTree \<Rightarrow> ProcessTree" where
  "findTask tid (Process p ts cs) =
     (if tid \<in> ts then Process p ts cs
      else first_found (map (\<lambda>(k, t). findTask tid t) cs))"

fun findProcess :: "int \<Rightarrow> ProcessTree \<Rightarrow> ProcessTree" where
  "findProcess q (Process p ts cs) =
     (if p = q then Process p ts cs
      else first_found (map (\<lambda>(k, t). findProcess q t) cs))"

definition getTasks :: "int \<Rightarrow> ProcessTree \<Rightarrow> autopin_tid_list" where
  "getTasks q t =
     (let tasknode = findTask q t
      in if tree_neq tasknode ProcessTree_empty then tree_tasks tasknode else {})"

subsection \<open>Nodes of a tree\<close>

lemma tree_induct [case_names Process, induct type: ProcessTree]:
  assumes "\<And>p ts cs. (\<And>k t. (k, t) \<in> set cs \<Longrightarrow> P t) \<Longrightarrow> P (Process p ts cs)"
  shows "P t"
  by (induction t rule: ProcessTree.induct) (rule assms, force)

text \<open>The nodes in preorder: process id and tasks.\<close>

fun nodes :: "ProcessTree \<Rightarrow> (int \<times> int set) list" where
  "nodes (Process p ts cs) = (p, ts) # concat (map (\<lambda>(k, t). nodes t) cs)"

definition pids :: "ProcessTree \<Rightarrow> int list" where
  "pids t = map fst (nodes t)"

lemma pids_Process [simp]: "pids (Process p ts cs) = p # concat (map (\<lambda>(k, t). pids t) cs)"
  by (auto simp: pids_def map_concat o_def split_def intro!: arg_cong[where f = concat])

lemma set_pids_Process: "set (pids (Process p ts cs)) = insert p (\<Union>(k, t)\<in>set cs. set (pids t))"
  by auto

lemma tree_pid_in_pids [simp]: "tree_pid t \<in> set (pids t)"
  by (cases t) simp

text \<open>
  Well-formedness: the children are in key order, a child's key is its process id, and no
  process occurs twice.
\<close>

fun tree_keys :: "ProcessTree \<Rightarrow> bool" where
  "tree_keys (Process p ts cs) \<longleftrightarrow>
     omap_wf cs \<and> (\<forall>(k, t)\<in>set cs. k = tree_pid t \<and> tree_keys t)"

definition tree_wf :: "ProcessTree \<Rightarrow> bool" where
  "tree_wf t \<longleftrightarrow> tree_keys t \<and> distinct (pids t)"

text \<open>What a tree stands for: the tasks of each process in it.\<close>

definition task_map :: "ProcessTree \<Rightarrow> int \<rightharpoonup> int set" where
  "task_map t = map_of (nodes t)"

lemma dom_task_map: "dom (task_map t) = set (pids t)"
  by (simp add: task_map_def pids_def dom_map_of_conv_image_fst)

lemma fold_Un: "fold (\<lambda>(k, t) r. r \<union> f t) cs s = s \<union> (\<Union>(k, t)\<in>set cs. f t)"
  by (induction cs arbitrary: s) auto

lemma getAllTasks_nodes: "getAllTasks t = (\<Union>(p, ts)\<in>set (nodes t). ts)"
  by (induction t) (fastforce simp: fold_Un)

subsection \<open>Adding processes and tasks\<close>

lemma mset_concat_map: "mset (concat (map f xs)) = (\<Sum>x\<in>#mset xs. mset (f x))"
  by (induction xs) auto

lemma mset_omap_put: "k \<notin> fst ` set m \<Longrightarrow> mset (omap_put k v m) = add_mset (k, v) (mset m)"
  by (induction k v m rule: omap_put.induct) auto

lemma tree_pid_add [simp]:
  "tree_pid (addChildProcess ppid cpid t) = tree_pid t"
  "tree_pid (addProcessTask q tid t) = tree_pid t"
  "tree_pid (addProcessTaskList q tids t) = tree_pid t"
  by (cases t; simp)+

lemma addChildProcess_absent: "ppid \<notin> set (pids t) \<Longrightarrow> addChildProcess ppid cpid t = t"
proof (induction t)
  case (Process p ts cs)
  then have "map (\<lambda>(k, t). (k, addChildProcess ppid cpid t)) cs = cs"
    by (intro map_idI) fastforce
  with Process.prems show ?case by simp
qed

lemma addProcessTaskList_absent: "q \<notin> set (pids t) \<Longrightarrow> addProcessTaskList q tids t = t"
proof (induction t)
  case (Process p ts cs)
  then have "map (\<lambda>(k, t). (k, addProcessTaskList q tids t)) cs = cs"
    by (intro map_idI) fastforce
  with Process.prems show ?case by simp
qed

lemma addProcessTask_list: "addProcessTask q tid t = addProcessTaskList q {tid} t"
  by (induction t) auto

lemma tree_keys_addChildProcess: "tree_keys t \<Longrightarrow> tree_keys (addChildProcess ppid cpid t)"
proof (induction t)
  case (Process p ts cs)
  show ?case
  proof (cases "p = ppid")
    case True
    have "set (omap_put cpid v cs) \<subseteq> insert (cpid, v) (set cs)" for v :: ProcessTree
      by (induction cpid v cs rule: omap_put.induct) auto
    with True Process.prems show ?thesis
      by (fastforce simp: omap_wf_put ProcessTree_new_def omap_wf_def[of "[]"])
  next
    case False
    have "omap_wf (map (\<lambda>(k, t). (k, f t)) cs) = omap_wf cs" for f :: "ProcessTree \<Rightarrow> ProcessTree"
      by (simp add: omap_wf_def o_def split_def)
    with False Process show ?thesis by fastforce
  qed
qed

lemma tree_keys_addProcessTaskList: "tree_keys t \<Longrightarrow> tree_keys (addProcessTaskList q tids t)"
proof (induction t)
  case (Process p ts cs)
  have "omap_wf (map (\<lambda>(k, t). (k, f t)) cs) = omap_wf cs" for f :: "ProcessTree \<Rightarrow> ProcessTree"
    by (simp add: omap_wf_def o_def split_def)
  with Process show ?case by fastforce
qed

text \<open>A new child of a process in the tree adds exactly one node.\<close>

lemma nodes_addChildProcess:
  assumes "tree_wf t" and "ppid \<in> set (pids t)" and "cpid \<notin> set (pids t)"
  shows "mset (nodes (addChildProcess ppid cpid t)) = add_mset (cpid, {cpid}) (mset (nodes t))"
  using assms
proof (induction t)
  case (Process p ts cs)
  show ?case
  proof (cases "p = ppid")
    case True
    have "cpid \<notin> fst ` set cs"
      using Process.prems by (force simp: tree_wf_def)
    with True show ?thesis
      by (simp add: mset_concat_map mset_omap_put ProcessTree_new_def)
  next
    case False
    then obtain k t where t: "(k, t) \<in> set cs" "ppid \<in> set (pids t)"
      using Process.prems(2) by auto
    then obtain as bs where cs: "cs = as @ (k, t) # bs" by (meson split_list)
    have others: "map (\<lambda>(k, t). (k, addChildProcess ppid cpid t)) xs = xs"
      if "\<And>l u. (l, u) \<in> set xs \<Longrightarrow> ppid \<notin> set (pids u)" for xs
      using that by (intro map_idI) (auto simp: addChildProcess_absent)
    have dist: "distinct (concat (map (\<lambda>(k, t). pids t) cs))"
      using Process.prems(1) by (simp add: tree_wf_def)
    let ?A = "concat (map (\<lambda>(k, t). pids t) as)" and ?B = "concat (map (\<lambda>(k, t). pids t) bs)"
    have "concat (map (\<lambda>(k, t). pids t) cs) = ?A @ pids t @ ?B" by (simp add: cs)
    with dist have "distinct (?A @ pids t @ ?B)" by (simp only:)
    then have "ppid \<notin> set ?A \<union> set ?B"
      using t(2) unfolding distinct_append set_append by blast
    then have new: "ppid \<notin> set (pids u)" if "(l, u) \<in> set as \<union> set bs" for l u
      using that by auto
    have "map (\<lambda>(k, t). (k, addChildProcess ppid cpid t)) as = as"
      "map (\<lambda>(k, t). (k, addChildProcess ppid cpid t)) bs = bs"
      by (rule others; use new in blast)+
    then have same: "map (\<lambda>(k, t). (k, addChildProcess ppid cpid t)) cs
        = as @ (k, addChildProcess ppid cpid t) # bs"
      by (simp add: cs)
    have "mset (nodes (addChildProcess ppid cpid t)) = add_mset (cpid, {cpid}) (mset (nodes t))"
    proof (rule Process.IH)
      show "tree_wf t" using Process.prems(1) t(1) dist unfolding cs by (auto simp: tree_wf_def)
      show "cpid \<notin> set (pids t)" using Process.prems(3) t(1) by auto
    qed (use t in auto)
    with False same show ?thesis by (simp add: cs)
  qed
qed

lemma map_children: "map (\<lambda>(k, t). g t) (map (\<lambda>(k, t). (k, f t)) cs) = map (\<lambda>(k, t). g (f t)) cs"
  by (induction cs) auto

lemma nodes_addProcessTaskList:
  assumes "distinct (pids t)"
  shows "nodes (addProcessTaskList q tids t) = map (\<lambda>(p, ts). if p = q then (p, ts \<union> tids) else (p, ts)) (nodes t)"
  using assms
proof (induction t)
  case (Process p ts cs)
  let ?f = "\<lambda>(p, ts). if p = q then (p, ts \<union> tids) else (p, ts)"
  have sub: "distinct (pids t)" if "(k, t) \<in> set cs" for k t
    using Process.prems that by (auto simp: distinct_concat_iff)
  show ?case
  proof (cases "p = q")
    case True
    then have "q \<notin> fst ` set (concat (map (\<lambda>(k, t). nodes t) cs))"
      using Process.prems by (force simp: pids_def)
    then have "map ?f (concat (map (\<lambda>(k, t). nodes t) cs)) = concat (map (\<lambda>(k, t). nodes t) cs)"
      by (intro map_idI) force
    with True show ?thesis by simp
  next
    case False
    have "map (\<lambda>(k, t). nodes (addProcessTaskList q tids t)) cs = map (\<lambda>(k, t). map ?f (nodes t)) cs"
      using Process.IH sub by (intro map_cong) auto
    then have "concat (map (\<lambda>(k, t). nodes (addProcessTaskList q tids t)) cs)
        = concat (map (\<lambda>(k, t). map ?f (nodes t)) cs)" by (rule arg_cong)
    also have "\<dots> = map ?f (concat (map (\<lambda>(k, t). nodes t) cs))"
      by (auto simp: map_concat intro!: arg_cong[where f = concat])
    finally show ?thesis using False by (simp add: map_children del: map_map)
  qed
qed

lemma pids_addChildProcess:
  assumes "tree_wf t" and "ppid \<in> set (pids t)" and "cpid \<notin> set (pids t)"
  shows "mset (pids (addChildProcess ppid cpid t)) = add_mset cpid (mset (pids t))"
  using nodes_addChildProcess[OF assms] by (simp add: pids_def flip: mset_map) (simp add: mset_map)

lemma pids_addProcessTaskList [simp]: "pids (addProcessTaskList q tids t) = pids t"
  by (induction t) (auto simp: o_def split_def intro!: arg_cong[where f = concat] map_cong)

text \<open>Both operations keep a tree well-formed.\<close>

lemma tree_wf_new [simp]: "tree_wf (ProcessTree_new p)"
  by (simp add: tree_wf_def ProcessTree_new_def omap_wf_def)

lemma tree_wf_addChildProcess:
  assumes "tree_wf t" and "ppid \<in> set (pids t)" and "cpid \<notin> set (pids t)"
  shows "tree_wf (addChildProcess ppid cpid t)"
  using assms pids_addChildProcess[OF assms]
  by (simp add: tree_wf_def tree_keys_addChildProcess)
     (metis distinct.simps(2) mset.simps(2) mset_eq_imp_distinct_iff set_mset_mset)

lemma tree_wf_addProcessTaskList: "tree_wf t \<Longrightarrow> tree_wf (addProcessTaskList q tids t)"
  by (simp add: tree_wf_def tree_keys_addProcessTaskList)

subsection \<open>Searching\<close>

lemma first_found_cases:
  "first_found ts = ProcessTree_empty \<and> (\<forall>t\<in>set ts. tree_pid t = 0)
   \<or> first_found ts \<in> set ts \<and> tree_pid (first_found ts) \<noteq> 0"
  by (induction ts) (auto simp: tree_neq_def tree_eq_def ProcessTree_empty_def ProcessTree_new_def)

lemma tree_pid_empty [simp]: "tree_pid ProcessTree_empty = 0"
  by (simp add: ProcessTree_empty_def ProcessTree_new_def)

lemma root_in_nodes: "(tree_pid t, tree_tasks t) \<in> set (nodes t)"
  by (cases t) simp

lemma findProcess_absent: "q \<notin> set (pids t) \<Longrightarrow> findProcess q t = ProcessTree_empty"
proof (induction t)
  case (Process p ts cs)
  then have "\<forall>u\<in>set (map (\<lambda>(k, t). findProcess q t) cs). u = ProcessTree_empty" by fastforce
  then show ?case
    using Process.prems first_found_cases[of "map (\<lambda>(k, t). findProcess q t) cs"] by auto
qed

lemma findProcess_found:
  assumes "q \<in> set (pids t)" and "q \<noteq> 0"
  shows "tree_pid (findProcess q t) = q \<and> (q, tree_tasks (findProcess q t)) \<in> set (nodes t)"
  using assms
proof (induction t)
  case (Process p ts cs)
  show ?case
  proof (cases "p = q")
    case True
    then show ?thesis by simp
  next
    case False
    let ?us = "map (\<lambda>(k, t). findProcess q t) cs"
    from False Process.prems obtain k t where "(k, t) \<in> set cs" "q \<in> set (pids t)" by auto
    then have "\<exists>u\<in>set ?us. tree_pid u \<noteq> 0" using Process by force
    then have ff: "first_found ?us \<in> set ?us" "tree_pid (first_found ?us) \<noteq> 0"
      using first_found_cases[of ?us] by auto
    then obtain l u where u: "(l, u) \<in> set cs" "first_found ?us = findProcess q u" by auto
    with ff(2) have "q \<in> set (pids u)" by (metis findProcess_absent tree_pid_empty)
    with Process u have "tree_pid (findProcess q u) = q \<and> (q, tree_tasks (findProcess q u)) \<in> set (nodes u)"
      by blast
    with False u show ?thesis by fastforce
  qed
qed

lemma findTask_absent: "tid \<notin> getAllTasks t \<Longrightarrow> findTask tid t = ProcessTree_empty"
proof (induction t)
  case (Process p ts cs)
  then have "\<forall>u\<in>set (map (\<lambda>(k, t). findTask tid t) cs). u = ProcessTree_empty"
    by (fastforce simp: fold_Un)
  then show ?case
    using Process.prems first_found_cases[of "map (\<lambda>(k, t). findTask tid t) cs"] by (auto simp: fold_Un)
qed

lemma findTask_found:
  assumes "tid \<in> getAllTasks t" and "0 \<notin> set (pids t)"
  shows "tree_pid (findTask tid t) \<noteq> 0 \<and> tid \<in> tree_tasks (findTask tid t)
    \<and> (tree_pid (findTask tid t), tree_tasks (findTask tid t)) \<in> set (nodes t)"
  using assms
proof (induction t)
  case (Process p ts cs)
  show ?case
  proof (cases "tid \<in> ts")
    case True
    then show ?thesis using Process.prems by simp
  next
    case False
    let ?us = "map (\<lambda>(k, t). findTask tid t) cs"
    from False Process.prems obtain k t where "(k, t) \<in> set cs" "tid \<in> getAllTasks t"
      by (auto simp: fold_Un)
    then have "\<exists>u\<in>set ?us. tree_pid u \<noteq> 0" using Process by force
    then have ff: "first_found ?us \<in> set ?us" "tree_pid (first_found ?us) \<noteq> 0"
      using first_found_cases[of ?us] by auto
    then obtain l u where u: "(l, u) \<in> set cs" "first_found ?us = findTask tid u" by auto
    with ff(2) have "tid \<in> getAllTasks u" by (metis findTask_absent tree_pid_empty)
    moreover have "0 \<notin> set (pids u)" using Process.prems(2) u(1) by auto
    ultimately have "tree_pid (findTask tid u) \<noteq> 0 \<and> tid \<in> tree_tasks (findTask tid u)
      \<and> (tree_pid (findTask tid u), tree_tasks (findTask tid u)) \<in> set (nodes u)"
      using Process.IH u(1) by blast
    with False u show ?thesis by fastforce
  qed
qed

subsection \<open>Contract of the process tree\<close>

text \<open>
  The abstract view: a tree is the map from the processes in it to their tasks. The tree
  operations are the obvious operations on that map.
\<close>

locale task_registry =
  fixes registry :: "'t \<Rightarrow> int \<rightharpoonup> int set"
    and valid :: "'t \<Rightarrow> bool"
    and add_child :: "int \<Rightarrow> int \<Rightarrow> 't \<Rightarrow> 't"
    and add_tasks :: "int \<Rightarrow> int set \<Rightarrow> 't \<Rightarrow> 't"
    and all_tasks :: "'t \<Rightarrow> int set"
  assumes registry_add_child: "valid t \<Longrightarrow> p \<in> dom (registry t) \<Longrightarrow> c \<notin> dom (registry t) \<Longrightarrow>
      registry (add_child p c t) = (registry t)(c \<mapsto> {c})"
    and valid_add_child: "valid t \<Longrightarrow> p \<in> dom (registry t) \<Longrightarrow> c \<notin> dom (registry t) \<Longrightarrow>
      valid (add_child p c t)"
    and registry_add_tasks: "valid t \<Longrightarrow>
      registry (add_tasks p ts t) = (registry t)(p := map_option (\<lambda>s. s \<union> ts) (registry t p))"
    and valid_add_tasks: "valid t \<Longrightarrow> valid (add_tasks p ts t)"
    and all_tasks_registry: "valid t \<Longrightarrow> all_tasks t = \<Union> (ran (registry t))"
begin

text \<open>Adding a process and its threads, as the code that builds the tree does.\<close>

lemma all_tasks_add_process:
  assumes "valid t" and "p \<in> dom (registry t)" and "c \<notin> dom (registry t)"
  shows "all_tasks (add_tasks c ts (add_child p c t)) = all_tasks t \<union> insert c ts"
proof -
  have v: "valid (add_tasks c ts (add_child p c t))"
    using assms by (simp add: valid_add_child valid_add_tasks)
  have "registry (add_tasks c ts (add_child p c t)) = (registry t)(c \<mapsto> {c} \<union> ts)"
    using assms by (simp add: registry_add_tasks registry_add_child valid_add_child)
  moreover have "registry t c = None" using assms(3) by auto
  ultimately show ?thesis
    using v assms(1) by (auto simp: all_tasks_registry)
qed

lemma dom_add_process:
  assumes "valid t" and "p \<in> dom (registry t)" and "c \<notin> dom (registry t)"
  shows "dom (registry (add_tasks c ts (add_child p c t))) = insert c (dom (registry t))"
  using assms by (simp add: registry_add_tasks registry_add_child valid_add_child)

end

lemma task_map_addChildProcess:
  assumes "tree_wf t" and "ppid \<in> dom (task_map t)" and "cpid \<notin> dom (task_map t)"
  shows "task_map (addChildProcess ppid cpid t) = (task_map t)(cpid \<mapsto> {cpid})"
proof -
  have in_pids: "ppid \<in> set (pids t)" "cpid \<notin> set (pids t)" using assms by (simp_all add: dom_task_map)
  note ms = nodes_addChildProcess[OF assms(1) in_pids]
  have "distinct (map fst (nodes (addChildProcess ppid cpid t)))"
    using tree_wf_addChildProcess[OF assms(1) in_pids] by (simp add: tree_wf_def pids_def)
  moreover have "distinct (map fst ((cpid, {cpid}) # nodes t))"
    using assms(1) in_pids by (simp add: tree_wf_def pids_def)
  moreover have "set (nodes (addChildProcess ppid cpid t)) = set ((cpid, {cpid}) # nodes t)"
    using arg_cong[OF ms, of set_mset] by simp
  ultimately have "map_of (nodes (addChildProcess ppid cpid t)) = map_of ((cpid, {cpid}) # nodes t)"
    using map_of_inject_set by blast
  then show ?thesis by (simp add: task_map_def)
qed

lemma map_of_update_tasks:
  "map_of (map (\<lambda>(p, ts). if p = q then (p, ts \<union> s) else (p, ts)) xs)
     = (map_of xs)(q := map_option (\<lambda>ts. ts \<union> s) (map_of xs q))"
  by (induction xs) auto

interpretation tree: task_registry task_map tree_wf addChildProcess addProcessTaskList getAllTasks
proof unfold_locales
  fix t p c assume "tree_wf t" "p \<in> dom (task_map t)" "c \<notin> dom (task_map t)"
  then show "tree_wf (addChildProcess p c t)"
    by (intro tree_wf_addChildProcess) (simp_all add: dom_task_map)
next
  fix t p ts assume "tree_wf t"
  then show "task_map (addProcessTaskList p ts t) = (task_map t)(p := map_option (\<lambda>s. s \<union> ts) (task_map t p))"
    by (simp add: task_map_def nodes_addProcessTaskList tree_wf_def map_of_update_tasks)
next
  fix t assume "tree_wf t"
  then have "distinct (map fst (nodes t))" by (simp add: tree_wf_def pids_def)
  then have "ran (task_map t) = snd ` set (nodes t)" by (simp add: task_map_def ran_distinct)
  then show "getAllTasks t = \<Union> (ran (task_map t))" by (force simp: getAllTasks_nodes)
qed (auto intro: task_map_addChildProcess tree_wf_addProcessTaskList)

text \<open>
  Adding a process below a process of a well-formed tree and then its threads refines the
  update of the map from processes to tasks: the new process is registered with its own id and
  its threads, every other process keeps its tasks, and the tree stays well-formed.
\<close>

theorem tree_add_process_refines:
  assumes "tree_wf t" and "ppid \<in> dom (task_map t)" and "cpid \<notin> dom (task_map t)"
  shows "task_map (addProcessTaskList cpid tids (addChildProcess ppid cpid t))
      = (task_map t)(cpid \<mapsto> insert cpid tids)
    \<and> tree_wf (addProcessTaskList cpid tids (addChildProcess ppid cpid t))"
  using assms
  by (simp add: tree.registry_add_tasks tree.registry_add_child tree.valid_add_child tree.valid_add_tasks)

theorem tree_add_process_refines_witness:
  "task_map (addProcessTaskList 7 {7, 8} (addChildProcess 5 7 (ProcessTree_new 5))) = [5 \<mapsto> {5}, 7 \<mapsto> {7, 8}]"
  using tree_add_process_refines[of "ProcessTree_new 5" 5 7 "{7, 8}"]
  by (simp add: task_map_def ProcessTree_new_def tree_wf_def omap_wf_def)

text \<open>
  The trees that the operations build from a single process, when a child that is added is new to
  the tree; the parent may be unknown.
\<close>

inductive built :: "ProcessTree \<Rightarrow> bool" where
  built_new: "built (ProcessTree_new p)"
| built_child: "built t \<Longrightarrow> cpid \<notin> set (pids t) \<Longrightarrow> built (addChildProcess ppid cpid t)"
| built_task: "built t \<Longrightarrow> built (addProcessTask q tid t)"
| built_tasks: "built t \<Longrightarrow> built (addProcessTaskList q tids t)"

lemma built_wf: "built t \<Longrightarrow> tree_wf t"
proof (induction rule: built.induct)
  case (built_child t cpid ppid)
  then show ?case
    using tree_wf_addChildProcess[of t ppid cpid] addChildProcess_absent[of ppid t cpid] by (cases "ppid \<in> set (pids t)") simp_all
qed (simp_all add: addProcessTask_list tree_wf_addProcessTaskList)



text \<open>
  \<open>findProcess\<close> is lookup in that map: for a process id other than 0 it returns the node of
  that process if the tree has one, and the empty tree otherwise.
\<close>

theorem findProcess_lookup:
  assumes "tree_wf t" and "q \<noteq> 0"
  shows "(if tree_neq (findProcess q t) ProcessTree_empty then Some (tree_tasks (findProcess q t)) else None)
    = task_map t q"
proof (cases "q \<in> set (pids t)")
  case True
  have "distinct (map fst (nodes t))" using assms(1) by (simp add: tree_wf_def pids_def)
  with findProcess_found[OF True assms(2)] assms(2) show ?thesis
    by (simp add: task_map_def tree_neq_def tree_eq_def)
next
  case False
  then have "task_map t q = None" using dom_task_map[of t] by auto
  with findProcess_absent[OF False] show ?thesis by (simp add: tree_neq_def tree_eq_def)
qed

theorem findProcess_lookup_witness:
  "task_map (addChildProcess 5 7 (ProcessTree_new 5)) 7 = Some {7}"
  using findProcess_lookup[of "addChildProcess 5 7 (ProcessTree_new 5)" 7]
  by (simp add: ProcessTree_new_def tree_wf_def omap_wf_def tree_neq_def tree_eq_def ProcessTree_empty_def)

text \<open>
  \<open>getTasks\<close> looks for a task, not for a process: asked for any task of the tree it returns
  the tasks of some process that runs it, so the result is empty only for ids that are neither
  a process nor a thread.
\<close>

theorem getTasks_by_task:
  assumes "0 \<notin> set (pids t)"
  shows "(tid \<in> getAllTasks t \<longrightarrow> tid \<in> getTasks tid t \<and> (\<exists>p. (p, getTasks tid t) \<in> set (nodes t)))
    \<and> (tid \<notin> getAllTasks t \<longrightarrow> getTasks tid t = {})"
  using findTask_found[OF _ assms, of tid] findTask_absent[of tid t]
  by (auto simp: getTasks_def tree_neq_def tree_eq_def Let_def)

theorem getTasks_by_task_witness:
  "8 \<in> getTasks 8 (addProcessTask 5 8 (ProcessTree_new 5))"
  using getTasks_by_task[of "addProcessTask 5 8 (ProcessTree_new 5)" 8]
  by (simp add: ProcessTree_new_def)

text \<open>
  The tree used for "no process" is not free of tasks: it reports task 0.
\<close>

theorem empty_tree_has_task_zero: "getAllTasks ProcessTree_empty = {0}"
  by (simp add: ProcessTree_empty_def ProcessTree_new_def)

end
