(* ===== verification/OS_Services.thy ===== *)
theory OS_Services
  imports Configuration Process_Tree
begin

text \<open>
  \<open>src/AutopinPlus/OS/OSServices.cpp\<close>: what autopin+ reads from \<open>/proc\<close> and the command line it
  builds for a new process. The file system is a parameter, the record \<open>procfs\<close>: the
  sub-directories of a directory in name order and the contents of a file, \<open>None\<close> where Qt's
  \<open>cd\<close> or \<open>open\<close> fails. One call reads one such snapshot. Text is ASCII, so that positions in a
  \<open>QString\<close> and in its \<open>toStdString()\<close> coincide.
\<close>

record procfs =
  entryList :: "QString \<Rightarrow> QStringList option"
  fileText :: "QString \<Rightarrow> QString option"

definition convertQStringList :: "qt_conv \<Rightarrow> QStringList \<Rightarrow> autopin_tid_list" where
  "convertQStringList qt qlist = set (map (\<lambda>s. int_or_zero (toInt10 qt s)) qlist)"

definition exactMatch_integer :: "QString \<Rightarrow> bool" where \<comment> \<open>\<open>QRegExp("\\d+").exactMatch\<close>\<close>
  "exactMatch_integer s \<longleftrightarrow> s \<noteq> [] \<and> (\<forall>c\<in>set s. c \<in> set ''0123456789'')"

definition getProcessThreads :: "qt_conv \<Rightarrow> procfs \<Rightarrow> int \<Rightarrow> apcontext \<Rightarrow> autopin_tid_list \<times> apcontext" where
  "getProcessThreads qt fs p context =
     (case entryList fs (''/proc/'' @ number p @ ''/task'') of
        None \<Rightarrow> ({}, report SYSTEM ''get_threads'' context)
      | Some threads \<Rightarrow> (convertQStringList qt threads, context))"

text \<open>The default address of the communication channel; the argument is \<open>getenv("HOME")\<close>.\<close>

definition getCommDefaultAddr :: "QString option \<Rightarrow> apcontext \<Rightarrow> QString \<times> apcontext" where
  "getCommDefaultAddr homedir context =
     (case homedir of
        None \<Rightarrow> ([], report COMM ''default_addr'' context)
      | Some h \<Rightarrow> (h @ ''/.autopin_socket'', context))"

subsection \<open>Entries of a stat file\<close>

text \<open>\<open>QString::mid(pos, n)\<close>: to the end when \<open>n\<close> is negative, empty beyond the end.\<close>

definition mid_n :: "QString \<Rightarrow> nat \<Rightarrow> int \<Rightarrow> QString" where
  "mid_n s pos n = (if n < 0 then drop pos s else take (nat n) (drop pos s))"

text \<open>
  The scan over the file: \<open>Inr\<close> is the entry returned from inside the loop, \<open>Inl\<close> the state
  (\<open>start_pos\<close>, \<open>end_pos\<close>, \<open>current_index\<close>) at its end.
\<close>

function stat_scan ::
  "QString \<Rightarrow> int \<Rightarrow> nat \<Rightarrow> nat \<Rightarrow> int \<Rightarrow> bool \<Rightarrow> (nat \<times> nat \<times> int) + QString" where
  "stat_scan proc_stat index start_pos end_pos current_index proc_name =
     (if end_pos < length proc_stat then
        let c = proc_stat ! end_pos in
        if c = CHR '' '' then
          if proc_name then stat_scan proc_stat index start_pos (end_pos + 1) current_index proc_name
          else if current_index = index then Inr (mid_n proc_stat start_pos (int end_pos - int start_pos))
          else stat_scan proc_stat index (end_pos + 1) (end_pos + 1) (current_index + 1) proc_name
        else if c = CHR ''('' then
          stat_scan proc_stat index (end_pos + 1) (end_pos + 1) current_index True
        else if c = CHR '')'' then
          if current_index = index then Inr (mid_n proc_stat start_pos (int end_pos - int start_pos))
          else stat_scan proc_stat index (end_pos + 2) (end_pos + 2) (current_index + 1) False
        else stat_scan proc_stat index start_pos (end_pos + 1) current_index proc_name
      else Inl (start_pos, end_pos, current_index))"
  by pat_completeness auto
termination
  by (relation "measure (\<lambda>(s, _, _, e, _, _). length s - e)") auto

declare stat_scan.simps [simp del]

definition stat_entry :: "QString \<Rightarrow> int \<Rightarrow> QString option" where
  "stat_entry proc_stat index =
     (case stat_scan proc_stat index 0 0 0 False of
        Inr result \<Rightarrow> Some result
      | Inl (start_pos, end_pos, current_index) \<Rightarrow>
          if index = current_index
          then Some (mid_n proc_stat start_pos (int end_pos - int start_pos - 1))
          else None)"

definition getProcEntry :: "procfs \<Rightarrow> int \<Rightarrow> int \<Rightarrow> bool \<Rightarrow> apcontext \<Rightarrow> QString \<times> apcontext" where
  "getProcEntry fs tid index error context =
     (if index < 0 \<or> index > 43 then
        ([], if error then report SYSTEM ''access_proc'' context else context)
      else case fileText fs (''/proc/'' @ number tid @ ''/stat'') of
        None \<Rightarrow> ([], if error then report SYSTEM ''access_proc'' context else context)
      | Some proc_stat \<Rightarrow>
          (case stat_entry proc_stat index of
             Some result \<Rightarrow> (result, context)
           | None \<Rightarrow> ([], if error then report SYSTEM ''access_proc'' context else context)))"

subsection \<open>Children, names and command lines\<close>

text \<open>
  The loop of \<open>getChildProcesses\<close> over the entries of \<open>/proc\<close>, with \<open>result\<close> and the flag
  \<open>success\<close>; it stops at the first process whose stat file cannot be read.
\<close>

fun children_scan ::
  "qt_conv \<Rightarrow> procfs \<Rightarrow> int \<Rightarrow> QStringList \<Rightarrow> autopin_tid_list \<Rightarrow> apcontext \<Rightarrow>
    autopin_tid_list \<times> bool \<times> apcontext" where
  "children_scan qt fs p [] result context = (result, True, context)"
| "children_scan qt fs p (tmp_pid # procs) result context =
     (if \<not> exactMatch_integer tmp_pid then children_scan qt fs p procs result context
      else let tmp = int_or_zero (toInt10 qt tmp_pid);
               (ppid, context) = getProcEntry fs tmp 3 False context
           in if ppid = [] then (result, False, context)
              else if int_or_zero (toInt10 qt ppid) = p
                   then children_scan qt fs p procs (insert tmp result) context
                   else children_scan qt fs p procs result context)"

definition getChildProcesses :: "qt_conv \<Rightarrow> procfs \<Rightarrow> int \<Rightarrow> apcontext \<Rightarrow> autopin_tid_list \<times> apcontext" where
  "getChildProcesses qt fs p context =
     (case entryList fs ''/proc'' of
        None \<Rightarrow> ({}, report SYSTEM ''access_proc'' context)
      | Some procs \<Rightarrow>
          let (result, success, context) = children_scan qt fs p procs {} context
          in (result, if \<not> success then report SYSTEM ''get_children'' context else context))"

definition getTaskSortId :: "qt_conv \<Rightarrow> procfs \<Rightarrow> int \<Rightarrow> apcontext \<Rightarrow> int \<times> apcontext" where
  "getTaskSortId qt fs tid context =
     (let (str_result, context) = getProcEntry fs tid 21 True context
      in (if isError context then 0 else int_or_zero (toInt10 qt str_result), context))"

fun pid_scan ::
  "qt_conv \<Rightarrow> procfs \<Rightarrow> QString \<Rightarrow> QStringList \<Rightarrow> autopin_tid_list \<Rightarrow> apcontext \<Rightarrow>
    autopin_tid_list \<times> apcontext" where
  "pid_scan qt fs name [] result context = (result, context)"
| "pid_scan qt fs name (tmp_pid # procs) result context =
     (if \<not> exactMatch_integer tmp_pid then pid_scan qt fs name procs result context
      else let tmp = int_or_zero (toInt10 qt tmp_pid);
               (procname, context) = getProcEntry fs tmp 1 True context
           in if procname = [] then pid_scan qt fs name procs result context
              else if procname = name then pid_scan qt fs name procs (insert tmp result) context
              else pid_scan qt fs name procs result context)"

definition getPid :: "qt_conv \<Rightarrow> procfs \<Rightarrow> QString \<Rightarrow> apcontext \<Rightarrow> autopin_tid_list \<times> apcontext" where
  "getPid qt fs name context =
     (case entryList fs ''/proc'' of
        None \<Rightarrow> ({}, report SYSTEM ''access_proc'' context)
      | Some procs \<Rightarrow> pid_scan qt fs name procs {} context)"

text \<open>
  \<open>getCmd\<close> reads one character ahead: each character is appended only while the file has not
  been read to its end, so the last one is left out.
\<close>

fun cmd_loop :: "char \<Rightarrow> string \<Rightarrow> QString \<Rightarrow> QString" where
  "cmd_loop c [] result = result"
| "cmd_loop c (d # rest) result =
     cmd_loop d rest (result @ [if c \<noteq> CHR 0x00 then c else CHR '' ''])"

definition getCmd :: "procfs \<Rightarrow> int \<Rightarrow> QString" where
  "getCmd fs p =
     (case fileText fs (''/proc/'' @ number p @ ''/cmdline'') of
        None \<Rightarrow> []
      | Some [] \<Rightarrow> []
      | Some (c # rest) \<Rightarrow> cmd_loop c rest [])"

subsection \<open>The argument vector of a new process\<close>

definition isBlank :: "char \<Rightarrow> bool" where
  "isBlank c \<longleftrightarrow> c = CHR '' '' \<or> c = CHR 0x09 \<or> c = CHR 0x0A"

text \<open>
  In the child, \<open>createProcess\<close> cuts the command in place: skip blanks, store a pointer, go to
  the next blank. The list holds the strings the stored pointers end up denoting.
\<close>

function argv_scan :: "string \<Rightarrow> string list" where
  "argv_scan argc =
     (if argc = [] then []
      else let argc = dropWhile isBlank argc
           in takeWhile (\<lambda>c. \<not> isBlank c) argc # argv_scan (dropWhile (\<lambda>c. \<not> isBlank c) argc))"
  by pat_completeness auto
termination
proof (relation "measure length", simp)
  fix argc x :: string
  assume ne: "argc \<noteq> []" and x: "x = dropWhile isBlank argc"
  show "(dropWhile (\<lambda>c. \<not> isBlank c) x, argc) \<in> measure length"
  proof (cases "isBlank (hd argc)")
    case True
    then have "length x < length argc"
      using ne x by (cases argc) (auto simp: le_imp_less_Suc length_dropWhile_le)
    then show ?thesis using length_dropWhile_le[of "\<lambda>c. \<not> isBlank c" x] by simp
  next
    case False
    then show ?thesis
      using ne x by (cases argc) (auto simp: le_imp_less_Suc length_dropWhile_le)
  qed
qed

declare argv_scan.simps [simp del]

text \<open>
  The pointers are stored in an array of \<open>cmd.size() / 2\<close> elements, with a null pointer after
  the last one.
\<close>

definition argv_capacity :: "QString \<Rightarrow> nat" where
  "argv_capacity cmd = length cmd div 2"

definition argv_stores :: "QString \<Rightarrow> nat" where
  "argv_stores cmd = length (argv_scan cmd) + 1"

text \<open>
  The child waits until the handler of \<open>SIGUSR1\<close> has set the static flag \<open>autopin_attached\<close>, looking at it
  once a millisecond; the list says in which of these sleeps the signal arrives. The result is the number of sleeps
  before the program is executed, \<open>None\<close> when the child still waits.
\<close>

definition usrSignalHandler :: "bool \<Rightarrow> bool" where
  "usrSignalHandler autopin_attached = True"

fun child_wait :: "bool \<Rightarrow> bool list \<Rightarrow> nat option" where
  "child_wait True sigs = Some 0"
| "child_wait False [] = None"
| "child_wait False (arrives # sigs) = map_option Suc (child_wait (if arrives then usrSignalHandler False else False) sigs)"

text \<open>The program is executed after the first sleep in which the signal arrives, and never without it.\<close>

lemma child_wait_first:
  "child_wait False sigs = (if True \<in> set sigs then Some (Suc (length (takeWhile Not sigs))) else None)"
  by (induction sigs) (auto simp: usrSignalHandler_def)

text \<open>
  The name is read into a buffer of 30 bytes; one that does not fit, with its terminating null byte, leaves the
  buffer without terminator, and the conversion reads past its end.
\<close>

definition getHostname_static :: "string \<Rightarrow> QString option" where
  "getHostname_static nodename = (if length nodename < 30 then Some nodename else None)"

definition getHostname :: "string \<Rightarrow> QString option" where
  "getHostname nodename = getHostname_static nodename"

text \<open>
  The parent's side of \<open>createProcess\<close>, with the results of installing the handler, of
  \<open>fork()\<close> and of restoring the handler as arguments.
\<close>

definition createProcess :: "int \<Rightarrow> int \<Rightarrow> int \<Rightarrow> bool \<Rightarrow> apcontext \<Rightarrow> int \<times> apcontext" where
  "createProcess install fork_result restore wait context =
     (if wait \<and> install \<noteq> 0 then (-1, report SYSTEM ''sigset'' context)
      else if wait \<and> restore \<noteq> 0 then (-1, report SYSTEM ''sigset'' context)
      else (fork_result, context))"

subsection \<open>Reading a stat file\<close>

definition plain :: "string \<Rightarrow> bool" where
  "plain w \<longleftrightarrow> (\<forall>c\<in>set w. c \<notin> {CHR '' '', CHR ''('', CHR '')''})"

lemma drop_Cons_nth: "drop e s = c # r \<Longrightarrow> e < length s \<and> s ! e = c \<and> drop (Suc e) s = r"
  by (metis drop_all drop_eq_Nil2 hd_drop_conv_nth leI list.sel(1,3) list.simps(3) tl_drop drop_Suc)

lemma stat_scan_plain:
  assumes "drop e s = w @ r" and "\<forall>c\<in>set w. c \<notin> {CHR ''('', CHR '')''}" and "nm \<or> CHR '' '' \<notin> set w"
  shows "stat_scan s i st e cur nm = stat_scan s i st (e + length w) cur nm"
  using assms
proof (induction w arbitrary: e)
  case Nil
  then show ?case by simp
next
  case (Cons c w)
  from Cons.prems(1) have d: "e < length s" "s ! e = c" "drop (Suc e) s = w @ r"
    using drop_Cons_nth[of e s c "w @ r"] by simp_all
  moreover have "c \<noteq> CHR ''(''" "c \<noteq> CHR '')''" "nm \<or> c \<noteq> CHR '' ''"
    using Cons.prems(2,3) by auto
  ultimately have "stat_scan s i st e cur nm = stat_scan s i st (Suc e) cur nm"
    by (subst stat_scan.simps) auto
  with Cons.IH[of "Suc e"] d Cons.prems show ?case by auto
qed

lemma stat_scan_blank:
  assumes "drop e s = CHR '' '' # r"
  shows "stat_scan s i st e cur False =
    (if cur = i then Inr (mid_n s st (int e - int st)) else stat_scan s i (Suc e) (Suc e) (cur + 1) False)"
  using drop_Cons_nth[OF assms] by (simp add: stat_scan.simps[of s i st e])

lemma stat_scan_open:
  assumes "drop e s = CHR ''('' # r"
  shows "stat_scan s i st e cur nm = stat_scan s i (Suc e) (Suc e) cur True"
  using drop_Cons_nth[OF assms] by (simp add: stat_scan.simps[of s i st e])

lemma stat_scan_close:
  assumes "drop e s = CHR '')'' # r"
  shows "stat_scan s i st e cur nm =
    (if cur = i then Inr (mid_n s st (int e - int st)) else stat_scan s i (e + 2) (e + 2) (cur + 1) False)"
  using drop_Cons_nth[OF assms] by (simp add: stat_scan.simps[of s i st e])

lemma mid_n_drop: "drop st s = w @ r \<Longrightarrow> mid_n s st (int (length w)) = w"
  by (simp add: mid_n_def)

text \<open>What \<open>stat_entry\<close> makes of the outcome of the scan.\<close>

definition scan_result :: "QString \<Rightarrow> int \<Rightarrow> (nat \<times> nat \<times> int) + QString \<Rightarrow> QString option" where
  "scan_result s i r =
     (case r of Inr result \<Rightarrow> Some result
      | Inl (st, e, cur) \<Rightarrow> if i = cur then Some (mid_n s st (int e - int st - 1)) else None)"

lemma stat_entry_scan: "stat_entry s i = scan_result s i (stat_scan s i 0 0 0 False)"
  by (simp add: stat_entry_def scan_result_def)

lemma scan_fields:
  assumes "drop e s = join '' '' flds @ [nl]" and "\<forall>f\<in>set flds. plain f" and "plain [nl]"
    and "k < length flds" and "i = cur + int k"
  shows "scan_result s i (stat_scan s i e e cur False) = Some (flds ! k)"
  using assms
proof (induction "'' ''" flds arbitrary: e cur k rule: join.induct)
  case 1
  then show ?case by simp
next
  case (2 f)
  have "stat_scan s i e e cur False = stat_scan s i e (e + length (f @ [nl])) cur False"
    using 2 by (intro stat_scan_plain[where r = "[]"]) (auto simp: plain_def)
  also have "e + length (f @ [nl]) = length s"
    using arg_cong[OF "2.prems"(1), of length] by simp
  finally have "stat_scan s i e e cur False = Inl (e, length s, cur)"
    by (simp add: stat_scan.simps[of s i e "length s"])
  moreover have "int (length s) - int e - 1 = int (length f)"
    using \<open>e + length (f @ [nl]) = length s\<close> by simp
  ultimately show ?case
    using 2 by (simp add: scan_result_def mid_n_drop[of e s f "[nl]"])
next
  case (3 f g gs)
  let ?rest = "join '' '' (g # gs) @ [nl]"
  have d: "drop e s = f @ CHR '' '' # ?rest" using "3.prems"(1) by simp
  have "stat_scan s i e e cur False = stat_scan s i e (e + length f) cur False"
    using "3.prems"(2) by (intro stat_scan_plain[OF d]) (auto simp: plain_def)
  moreover have d': "drop (e + length f) s = CHR '' '' # ?rest"
    using d by (metis add.commute append_eq_conv_conj drop_drop)
  ultimately have step: "stat_scan s i e e cur False =
      (if cur = i then Inr f else stat_scan s i (Suc (e + length f)) (Suc (e + length f)) (cur + 1) False)"
    using stat_scan_blank[OF d', of i e cur] mid_n_drop[OF d] by simp
  show ?case
  proof (cases k)
    case 0
    with step "3.prems"(5) show ?thesis by (simp add: scan_result_def)
  next
    case (Suc m)
    have "scan_result s i (stat_scan s i (Suc (e + length f)) (Suc (e + length f)) (cur + 1) False)
        = Some ((g # gs) ! m)"
      using "3.prems" Suc drop_Cons_nth[OF d'] by (intro "3.hyps") auto
    with step Suc "3.prems"(5) show ?thesis by simp
  qed
qed

definition stat_text :: "QString \<Rightarrow> QString \<Rightarrow> QStringList \<Rightarrow> QString" where
  "stat_text p name flds = p @ '' ('' @ name @ '') '' @ join '' '' flds @ [CHR 0x0A]"

lemma stat_entry_cases:
  assumes "plain p" and "\<forall>c\<in>set name. c \<notin> {CHR ''('', CHR '')''}" and "\<forall>f\<in>set flds. plain f"
    and "0 \<le> i" and "i < 2 + int (length flds)"
  shows "stat_entry (stat_text p name flds) i
    = Some (if i = 0 then p else if i = 1 then name else flds ! nat (i - 2))"
proof -
  let ?s = "stat_text p name flds"
  let ?n = "length p + 2" and ?f = "length p + length name + 4"
  have d0: "drop 0 ?s = p @ CHR '' '' # CHR ''('' # name @ '') '' @ join '' '' flds @ [CHR 0x0A]"
    and d1: "drop (length p) ?s = CHR '' '' # CHR ''('' # name @ '') '' @ join '' '' flds @ [CHR 0x0A]"
    and d2: "drop (Suc (length p)) ?s = CHR ''('' # name @ '') '' @ join '' '' flds @ [CHR 0x0A]"
    and d3: "drop ?n ?s = name @ CHR '')'' # CHR '' '' # join '' '' flds @ [CHR 0x0A]"
    and d4: "drop (?n + length name) ?s = CHR '')'' # CHR '' '' # join '' '' flds @ [CHR 0x0A]"
    by (simp_all add: stat_text_def)
  have f: "?f = 2 + (?n + length name)" by simp
  have "drop ?f ?s = drop 2 (drop (?n + length name) ?s)" by (simp only: f drop_drop)
  with d4 have d5: "drop ?f ?s = join '' '' flds @ [CHR 0x0A]" by simp
  have "stat_scan ?s i 0 0 0 False = stat_scan ?s i 0 (length p) 0 False"
    using stat_scan_plain[OF d0, of False i 0 0] assms(1) by (auto simp: plain_def)
  also have "\<dots> = (if i = 0 then Inr p else stat_scan ?s i ?n ?n 1 True)"
    using stat_scan_blank[OF d1, of i 0 0] stat_scan_open[OF d2, of i "Suc (length p)" 1] mid_n_drop[OF d0]
    by auto
  also have "stat_scan ?s i ?n ?n 1 True = stat_scan ?s i ?n (?n + length name) 1 True"
    using stat_scan_plain[OF d3, of True i ?n 1] assms(2) by auto
  also have "\<dots> = (if i = 1 then Inr (mid_n ?s ?n (int (length name)))
      else stat_scan ?s i (?n + length name + 2) (?n + length name + 2) 2 False)"
    using stat_scan_close[OF d4, of i ?n 1 True] by auto
  also have "?n + length name + 2 = ?f" by simp
  also have "mid_n ?s ?n (int (length name)) = name" using mid_n_drop[OF d3] .
  finally have scan: "stat_scan ?s i 0 0 0 False =
      (if i = 0 then Inr p else if i = 1 then Inr name else stat_scan ?s i ?f ?f 2 False)" .
  have "scan_result ?s i (stat_scan ?s i ?f ?f 2 False) = Some (flds ! nat (i - 2))" if "2 \<le> i"
    using that assms d5 by (intro scan_fields[where nl = "CHR 0x0A"]) (auto simp: plain_def)
  with scan assms(4) show ?thesis
    by (auto simp: stat_entry_scan scan_result_def)
qed

text \<open>
  \<open>getProcEntry\<close> reads the right entry of a stat file: when the process name holds no
  parenthesis (blanks are fine) and the other entries hold neither blanks nor parentheses, entry
  0 is the process id, entry 1 the name without its parentheses and entry \<open>i\<close> the \<open>i\<close>-th
  entry, the last one without its line end; no error is reported.
\<close>

theorem getProcEntry_reads_entry:
  assumes "fileText fs (''/proc/'' @ number tid @ ''/stat'') = Some (stat_text p name flds)"
    and "plain p" and "\<forall>c\<in>set name. c \<notin> {CHR ''('', CHR '')''}" and "\<forall>f\<in>set flds. plain f"
    and "0 \<le> i" and "i \<le> 43" and "i < 2 + int (length flds)"
  shows "getProcEntry fs tid i error c
    = (if i = 0 then p else if i = 1 then name else flds ! nat (i - 2), c)"
  using assms stat_entry_cases[of p name flds i] by (simp add: getProcEntry_def)

theorem getProcEntry_reads_entry_witness:
  "getProcEntry \<lparr>entryList = (\<lambda>_. None),
       fileText = [''/proc/7/stat'' \<mapsto> stat_text ''7'' ''my prog'' [''S'', ''1'', ''7'']]\<rparr> 7 3 False
     (AutopinContext_new ''w'') = (''1'', AutopinContext_new ''w'')"
proof -
  have "number 7 = ''7''" by code_simp
  then show ?thesis
    using getProcEntry_reads_entry[of "\<lparr>entryList = (\<lambda>_. None),
        fileText = [''/proc/7/stat'' \<mapsto> stat_text ''7'' ''my prog'' [''S'', ''1'', ''7'']]\<rparr>" 7 "''7''"
        "''my prog''" "[''S'', ''1'', ''7'']" 3 False "AutopinContext_new ''w''"]
    by (simp add: plain_def)
qed

text \<open>
  A name that does hold parentheses shifts the entries: for the process \<open>(sd-pam)\<close> the
  state letter is returned in place of the parent's id.
\<close>

theorem stat_entry_parenthesis:
  "stat_entry (stat_text ''77'' ''(sd-pam)'' [''S'', ''76'', ''76'']) 3 = Some ''S''"
  by (simp add: stat_entry_def stat_text_def stat_scan.simps mid_n_def)

subsection \<open>The argument vector\<close>

lemma argv_scan_word:
  assumes "w \<noteq> []" and "\<forall>c\<in>set w. \<not> isBlank c" and "r = [] \<or> isBlank (hd r)"
  shows "argv_scan (w @ r) = w # argv_scan r"
proof -
  have "dropWhile isBlank (w @ r) = w @ r" using assms(1,2) by (cases w) auto
  moreover have "takeWhile (\<lambda>c. \<not> isBlank c) (w @ r) = w" "dropWhile (\<lambda>c. \<not> isBlank c) (w @ r) = r"
    using assms(2,3) by (cases r; auto simp: takeWhile_append dropWhile_append)+
  ultimately show ?thesis using assms(1) by (subst argv_scan.simps) simp
qed

lemma argv_scan_blank:
  assumes "r \<noteq> []" and "\<not> isBlank (hd r)" and "isBlank c"
  shows "argv_scan (c # r) = argv_scan r"
proof -
  have "dropWhile isBlank r = r" using assms by (cases r) auto
  with assms show ?thesis by (simp add: argv_scan.simps[of "c # r"] argv_scan.simps[of r])
qed

lemma argv_scan_join:
  assumes "\<forall>w\<in>set ws. w \<noteq> [] \<and> (\<forall>c\<in>set w. \<not> isBlank c)"
  shows "argv_scan (join '' '' ws) = ws"
  using assms
proof (induction "'' ''" ws rule: join.induct)
  case 1
  then show ?case by (simp add: argv_scan.simps)
next
  case (2 x)
  then show ?case using argv_scan_word[of x "[]"] by (simp add: argv_scan.simps[of "[]"])
next
  case (3 x y ys)
  then obtain d y' where y: "y = d # y'" "\<not> isBlank d" by (cases y) auto
  let ?r = "join '' '' (y # ys)"
  have r: "?r \<noteq> [] \<and> \<not> isBlank (hd ?r)" using y by (cases ys) auto
  have "argv_scan (x @ CHR '' '' # ?r) = x # argv_scan (CHR '' '' # ?r)"
    using "3.prems" by (intro argv_scan_word) (auto simp: isBlank_def)
  also have "argv_scan (CHR '' '' # ?r) = argv_scan ?r"
    using r by (intro argv_scan_blank) (simp_all add: isBlank_def)
  also have "argv_scan ?r = y # ys" using 3 by simp
  finally show ?case by simp
qed

lemma length_join:
  "ws \<noteq> [] \<Longrightarrow> length (join '' '' ws) + 1 = sum_list (map length ws) + length ws"
  by (induction "'' ''" ws rule: join.induct) auto

text \<open>
  The words of the configured command are the argument vector of the new process: cutting
  the joined command gives back exactly the words.
\<close>

theorem argv_of_joined_command:
  assumes "\<forall>w\<in>set ws. w \<noteq> [] \<and> (\<forall>c\<in>set w. \<not> isBlank c)"
  shows "argv_scan (join '' '' ws) = ws"
  using assms by (rule argv_scan_join)

theorem argv_of_joined_command_witness: "argv_scan ''sleep 10'' = [''sleep'', ''10'']"
  using argv_of_joined_command[of "[''sleep'', ''10'']"] by (simp add: isBlank_def)

text \<open>
  The array for the argument vector is too small exactly when the words of the command have
  fewer than \<open>n + 3\<close> characters together, \<open>n\<close> being their number: then the pointers and the
  final null pointer are written beyond its end.
\<close>

theorem argv_array_overflow:
  assumes "ws \<noteq> []" and "\<forall>w\<in>set ws. w \<noteq> [] \<and> (\<forall>c\<in>set w. \<not> isBlank c)"
  shows "argv_capacity (join '' '' ws) < argv_stores (join '' '' ws) \<longleftrightarrow>
    sum_list (map length ws) < length ws + 3"
  using length_join[OF assms(1)] argv_scan_join[OF assms(2)]
  by (simp add: argv_capacity_def argv_stores_def) presburger

theorem argv_array_overflow_witness: "argv_capacity ''ls'' < argv_stores ''ls''"
  using argv_array_overflow[of "[''ls'']"] by (simp add: isBlank_def)

lemma cmd_loop_eq:
  "cmd_loop c r res = res @ map (\<lambda>c. if c \<noteq> CHR 0x00 then c else CHR '' '') (butlast (c # r))"
  by (induction r arbitrary: c res) auto

text \<open>
  \<open>getCmd\<close> returns the command line with the separating null characters replaced by blanks
  and the last character of the file left out.
\<close>

theorem getCmd_text:
  "getCmd fs p = (case fileText fs (''/proc/'' @ number p @ ''/cmdline'') of
     None \<Rightarrow> [] | Some text \<Rightarrow> map (\<lambda>c. if c \<noteq> CHR 0x00 then c else CHR '' '') (butlast text))"
  by (auto simp: getCmd_def cmd_loop_eq split: option.splits list.splits)

subsection \<open>Children of a process\<close>

text \<open>The parent of a process as its stat file has it, and the readable part of \<open>/proc\<close>.\<close>

definition parent_entry :: "procfs \<Rightarrow> int \<Rightarrow> QString" where
  "parent_entry fs c = fst (getProcEntry fs c 3 False (AutopinContext_new []))"

definition listed_pids :: "qt_conv \<Rightarrow> procfs \<Rightarrow> int list" where
  "listed_pids qt fs = (case entryList fs ''/proc'' of None \<Rightarrow> []
     | Some es \<Rightarrow> map (\<lambda>e. int_or_zero (toInt10 qt e)) (filter exactMatch_integer es))"

definition threads_of :: "qt_conv \<Rightarrow> procfs \<Rightarrow> int \<Rightarrow> int set" where
  "threads_of qt fs p = fst (getProcessThreads qt fs p (AutopinContext_new []))"

definition children_of :: "qt_conv \<Rightarrow> procfs \<Rightarrow> int \<Rightarrow> int set" where
  "children_of qt fs p = fst (getChildProcesses qt fs p (AutopinContext_new []))"

lemma getProcEntry_quiet: "getProcEntry fs c i False ctx = (fst (getProcEntry fs c i False ctx'), ctx)"
  by (auto simp: getProcEntry_def split: option.splits)

lemma children_scan_pure:
  "children_scan qt fs p es r c = (fst (children_scan qt fs p es r c'), fst (snd (children_scan qt fs p es r c')), c)"
proof (induction es arbitrary: r c c')
  case Nil
  then show ?case by simp
next
  case (Cons e es)
  have q: "getProcEntry fs x 3 False k = (parent_entry fs x, k)" for x k
    unfolding parent_entry_def by (rule getProcEntry_quiet)
  show ?case using Cons by (simp add: q Let_def)
qed

lemma children_scan_subset:
  "x \<in> fst (children_scan qt fs p es r c) \<Longrightarrow>
     x \<in> r \<or> int_or_zero (toInt10 qt (parent_entry fs x)) = p
       \<and> x \<in> set (map (\<lambda>e. int_or_zero (toInt10 qt e)) (filter exactMatch_integer es))"
proof (induction es arbitrary: r)
  case Nil
  then show ?case by simp
next
  case (Cons e es)
  have q: "getProcEntry fs x 3 False c = (parent_entry fs x, c)" for x
    unfolding parent_entry_def by (rule getProcEntry_quiet)
  show ?case using Cons by (auto simp: q Let_def split: if_splits)
qed

lemma getProcessThreads_pure:
  "\<exists>c'. getProcessThreads qt fs p c = (threads_of qt fs p, c') \<and> (isError c' \<longleftrightarrow> isError c)"
  by (auto simp: getProcessThreads_def threads_of_def fatal_def fatal_reports_def split: option.splits)

lemma getChildProcesses_pure:
  assumes "entryList fs ''/proc'' = Some procs"
  shows "\<exists>c'. getChildProcesses qt fs p c = (children_of qt fs p, c') \<and> (isError c' \<longleftrightarrow> isError c)"
proof -
  let ?s = "children_scan qt fs p procs {} (AutopinContext_new [])"
  have "children_scan qt fs p procs {} c = (fst ?s, fst (snd ?s), c)"
    by (rule children_scan_pure)
  with assms show ?thesis
    by (auto simp: getChildProcesses_def children_of_def Let_def split_def fatal_def fatal_reports_def)
qed

lemma children_of_eq:
  "children_of qt fs p = (case entryList fs ''/proc'' of None \<Rightarrow> {}
     | Some procs \<Rightarrow> fst (children_scan qt fs p procs {} (AutopinContext_new [])))"
  by (simp add: children_of_def getChildProcesses_def Let_def split_def split: option.splits)

lemma children_of_D:
  assumes "c \<in> children_of qt fs p"
  shows "int_or_zero (toInt10 qt (parent_entry fs c)) = p \<and> c \<in> set (listed_pids qt fs)"
proof -
  from assms obtain procs where procs: "entryList fs ''/proc'' = Some procs"
    and c: "c \<in> fst (children_scan qt fs p procs {} (AutopinContext_new []))"
    by (auto simp: children_of_eq split: option.splits)
  from children_scan_subset[OF c] show ?thesis by (simp add: listed_pids_def procs)
qed

lemma children_of_listed: "children_of qt fs p \<subseteq> set (listed_pids qt fs)"
  using children_of_D by blast

lemma children_of_unique: "c \<in> children_of qt fs p \<Longrightarrow> c \<in> children_of qt fs q \<Longrightarrow> p = q"
  using children_of_D[of c qt fs p] children_of_D[of c qt fs q] by simp

lemma finite_children_of [simp]: "finite (children_of qt fs p)"
  by (rule finite_subset[OF children_of_listed]) simp

end
