(* ===== verification/Observed_Process.thy ===== *)
theory Observed_Process
  imports OS_Services
begin

text \<open>
  \<open>src/AutopinPlus/ObservedProcess.cpp\<close>: the configuration of the observed process, the process
  tree autopin+ builds for it, and the slots that forward events. A slot returns the new state
  and the signals it emits, in order. \<open>getProcessTree\<close> walks the children of the observed
  process with a worklist; the loop takes fuel, and \<open>process_tree_complete\<close> below shows that as
  many steps as \<open>/proc\<close> has entries are enough.
\<close>

record observed_process =
  op_pid :: int
  exec :: bool
  cmd :: QString
  trace :: bool
  running :: bool
  phase :: "64 word"
  comm_addr :: QString
  comm_timeout :: int

definition ObservedProcess_new :: "bool \<Rightarrow> observed_process" where
  \<comment> \<open>\<open>exec\<close> is not initialised by the constructor\<close>
  "ObservedProcess_new e =
     \<lparr>op_pid = -1, exec = e, cmd = [], trace = False, running = False, phase = 0,
      comm_addr = [], comm_timeout = 60\<rparr>"

record autopin_msg =
  event_id :: "64 word"
  msg_arg :: "64 word"
  msg_val :: double

definition APP_READY :: "64 word" where "APP_READY = 0x0001"
definition APP_INTERVAL :: "64 word" where "APP_INTERVAL = 0x0010"
definition APP_NEW_PHASE :: "64 word" where "APP_NEW_PHASE = 0x0100"
definition APP_USER :: "64 word" where "APP_USER = 0x1000"

datatype op_signal =
    Sig_TaskCreated int
  | Sig_TaskTerminated int
  | Sig_PhaseChanged "64 word"
  | Sig_UserMessage int double
  | Sig_ProcTerminated

subsection \<open>Initialisation\<close>

definition init_comm_addr ::
  "qt_conv \<Rightarrow> string_map \<Rightarrow> QString option \<Rightarrow> observed_process \<times> apcontext \<Rightarrow> observed_process \<times> apcontext" where
  "init_comm_addr qt config homedir = (\<lambda>(op, context).
     (if configOptionExists config ''CommChan'' = 1 then
        if configOptionBool qt config ''CommChan'' 0 then
          if getConfigOptionBool qt config ''CommChan'' 0 then
            let (addr, context) = getCommDefaultAddr homedir context
            in (op\<lparr>comm_addr := addr\<rparr>, context)
          else (op, context)
        else (op\<lparr>comm_addr := getConfigOption config ''CommChan'' 0\<rparr>, context)
      else if configOptionExists config ''CommChan'' > 1 then
        (op, report BAD_CONFIG ''inconsistent'' context)
      else (op, context)))"

definition init_timeout :: "qt_conv \<Rightarrow> string_map \<Rightarrow> observed_process \<Rightarrow> observed_process" where
  "init_timeout qt config op =
     (if comm_addr op \<noteq> [] \<and> getConfigOptionInt qt config ''CommChanTimeout'' 0 > 0
      then op\<lparr>comm_timeout := getConfigOptionInt qt config ''CommChanTimeout'' 0\<rparr> else op)"

definition init_process ::
  "qt_conv \<Rightarrow> procfs \<Rightarrow> string_map \<Rightarrow> observed_process \<times> apcontext \<Rightarrow> observed_process \<times> apcontext" where
  "init_process qt fs config = (\<lambda>(op, context).
     (if configOptionExists config ''Attach'' > 0 then
        let op = op\<lparr>exec := False\<rparr>;
            attach_expr = getConfigOption config ''Attach'' 0
        in if exactMatch_integer attach_expr
           then (op\<lparr>op_pid := int_or_zero (toInt10 qt attach_expr)\<rparr>, context)
           else
             let (procs, context) = getPid qt fs attach_expr context in
             if procs = {} then (op, report PROCESS ''not_found'' context)
             else if card procs > 1 then (op, report PROCESS ''found_many'' context)
             else let p = Min procs in (op\<lparr>op_pid := p, cmd := getCmd fs p\<rparr>, context)
      else if configOptionExists config ''Exec'' > 0 then
        (op\<lparr>exec := True, cmd := join '' '' (getConfigOptionList config ''Exec'')\<rparr>, context)
      else (op, report BAD_CONFIG ''option_missing'' context)))"

definition ObservedProcess_init ::
  "qt_conv \<Rightarrow> procfs \<Rightarrow> QString option \<Rightarrow> string_map \<Rightarrow> observed_process \<times> apcontext \<Rightarrow>
    observed_process \<times> apcontext" where
  "ObservedProcess_init qt fs homedir config = (\<lambda>(op, context).
     (let op = op\<lparr>trace := getConfigOptionBool qt config ''Trace'' 0\<rparr>;
          (op, context) = init_comm_addr qt config homedir (op, context);
          op = init_timeout qt config op
      in init_process qt fs config (op, context)))"

subsection \<open>The process tree\<close>

fun tree_loop ::
  "qt_conv \<Rightarrow> procfs \<Rightarrow> nat \<Rightarrow> (int \<times> int) list \<Rightarrow> ProcessTree \<Rightarrow> apcontext \<Rightarrow> (ProcessTree \<times> apcontext) option" where
  "tree_loop qt fs 0 worklist result context = None"
| "tree_loop qt fs (Suc fuel) [] result context = Some (result, context)"
| "tree_loop qt fs (Suc fuel) (work_item # worklist) result context =
     (let result = addChildProcess (fst work_item) (snd work_item) result;
          (tasks, context) = getProcessThreads qt fs (snd work_item) context
      in if isError context then Some (ProcessTree_empty, context)
      else let result = addProcessTaskList (snd work_item) tasks result;
               (child_procs, context) = getChildProcesses qt fs (snd work_item) context
      in if isError context then Some (ProcessTree_empty, context)
      else tree_loop qt fs fuel
             (worklist @ map (\<lambda>child_proc. (snd work_item, child_proc)) (sorted_list_of_set child_procs))
             result context)"

definition getProcessTree ::
  "qt_conv \<Rightarrow> procfs \<Rightarrow> nat \<Rightarrow> observed_process \<Rightarrow> apcontext \<Rightarrow> (ProcessTree \<times> apcontext) option" where
  "getProcessTree qt fs fuel op context =
     (if \<not> running op then Some (ProcessTree_empty, context)
      else let result = ProcessTree_new (op_pid op);
               (tasks, context) = getProcessThreads qt fs (op_pid op) context
      in if isError context then Some (ProcessTree_empty, context)
      else let result = addProcessTaskList (op_pid op) tasks result;
               (child_procs, context) = getChildProcesses qt fs (op_pid op) context
      in if isError context then Some (ProcessTree_empty, context)
      else tree_loop qt fs fuel
             (map (\<lambda>child_proc. (op_pid op, child_proc)) (sorted_list_of_set child_procs)) result context)"

subsection \<open>Slots\<close>

text \<open>
  In \<open>slot_ProcTerminated(int pid, int exit_code)\<close> the parameter hides the member, so
  \<open>pid = -1\<close> does not change the object.
\<close>

definition op_slot_ProcTerminated :: "int \<Rightarrow> int \<Rightarrow> observed_process \<Rightarrow> observed_process \<times> op_signal list" where
  "op_slot_ProcTerminated p exit_code op =
     (if p = op_pid op then let p = (-1 :: int) in (op, [Sig_ProcTerminated]) else (op, []))"

definition op_slot_TaskTerminated :: "int \<Rightarrow> observed_process \<Rightarrow> observed_process \<times> op_signal list" where
  "op_slot_TaskTerminated tid op = (op, [Sig_TaskTerminated tid])"

definition op_slot_TaskCreated :: "int \<Rightarrow> observed_process \<Rightarrow> observed_process \<times> op_signal list" where
  "op_slot_TaskCreated tid op = (op, [Sig_TaskCreated tid])"

text \<open>The signal \<open>sig_UserMessage\<close> takes an \<open>int\<close>: the argument is truncated to 32 bits.\<close>

definition op_slot_CommChannel :: "autopin_msg \<Rightarrow> observed_process \<Rightarrow> observed_process \<times> op_signal list" where
  "op_slot_CommChannel msg op =
     (if event_id msg = APP_NEW_PHASE then (op\<lparr>phase := msg_arg msg\<rparr>, [Sig_PhaseChanged (msg_arg msg)])
      else if event_id msg = APP_USER then
        (op, [Sig_UserMessage (sint (ucast (msg_arg msg) :: 32 word)) (msg_val msg)])
      else (op, []))"

text \<open>The phase is an \<open>unsigned long\<close>, the result an \<open>int\<close>.\<close>

definition getExecutionPhase :: "observed_process \<Rightarrow> int" where
  "getExecutionPhase op = sint (ucast (phase op) :: 32 word)"

text \<open>Phases below \<open>2 ^ 31\<close> are returned as they are.\<close>

lemma getExecutionPhase_small:
  assumes "uint (phase op) < 2 ^ 31"
  shows "getExecutionPhase op = uint (phase op)"
proof -
  have "getExecutionPhase op = signed_take_bit 31 (uint (phase op))"
    by (simp add: getExecutionPhase_def signed_ucast_eq)
  also have "\<dots> = uint (phase op)"
    using assms by (intro signed_take_bit_int_eq_self) (auto intro: order_trans[of _ 0])
  finally show ?thesis .
qed

text \<open>The message \<open>setPhaseNotificationInterval\<close> hands to \<open>sendMsg\<close>, if any.\<close>

definition setPhaseNotificationInterval :: "int \<Rightarrow> observed_process \<Rightarrow> autopin_msg option" where
  "setPhaseNotificationInterval interval op =
     (if comm_addr op = [] \<or> interval < 0 then None
      else Some \<lparr>event_id = APP_INTERVAL, msg_arg = word_of_int interval, msg_val = Fin 0\<rparr>)"

subsection \<open>The process tree is complete\<close>

definition child_rel :: "qt_conv \<Rightarrow> procfs \<Rightarrow> (int \<times> int) set" where
  "child_rel qt fs = {(p, c). c \<in> children_of qt fs p}"

definition descendants :: "qt_conv \<Rightarrow> procfs \<Rightarrow> int \<Rightarrow> int set" where
  "descendants qt fs r = (child_rel qt fs)\<^sup>* `` {r}"

text \<open>The loop invariant: what the tree and the worklist hold between two iterations.\<close>

definition walk_inv :: "qt_conv \<Rightarrow> procfs \<Rightarrow> int \<Rightarrow> (int \<times> int) list \<Rightarrow> ProcessTree \<Rightarrow> bool" where
  "walk_inv qt fs r wl t \<longleftrightarrow>
     tree_wf t \<and> r \<in> set (pids t) \<and> set (pids t) \<subseteq> descendants qt fs r \<and>
     distinct (map snd wl) \<and> snd ` set wl \<inter> set (pids t) = {} \<and>
     (\<forall>(p, c)\<in>set wl. p \<in> set (pids t) \<and> c \<in> children_of qt fs p) \<and>
     (\<forall>v\<in>set (pids t). children_of qt fs v \<subseteq> set (pids t) \<union> snd ` set wl) \<and>
     (\<forall>v\<in>set (pids t). v = r \<or> (\<exists>p\<in>set (pids t). v \<in> children_of qt fs p)) \<and>
     getAllTasks t = (\<Union>v\<in>set (pids t). insert v (threads_of qt fs v))"

text \<open>The children of the process that is taken from the worklist have not been seen.\<close>

lemma walk_inv_descendant:
  assumes "walk_inv qt fs r ((p, c) # wl) t"
  shows "c \<in> descendants qt fs r"
  using assms unfolding walk_inv_def descendants_def child_rel_def by (auto intro: rtrancl_into_rtrancl)

lemma walk_inv_fresh:
  assumes inv: "walk_inv qt fs r ((p, c) # wl) t" and acyclic: "(r, r) \<notin> (child_rel qt fs)\<^sup>+" and d: "d \<in> children_of qt fs c"
  shows "d \<notin> insert c (set (pids t)) \<and> d \<notin> snd ` set wl"
proof -
  let ?ch = "children_of qt fs" and ?V = "set (pids t)"
  have c: "c \<notin> ?V" "c \<in> ?ch p" "p \<in> ?V" using inv by (auto simp: walk_inv_def)
  have known: "v = r \<or> (\<exists>q\<in>?V. v \<in> ?ch q)" if "v \<in> ?V" for v using inv that unfolding walk_inv_def by blast
  have work: "\<exists>q\<in>?V. e \<in> ?ch q" if "e \<in> snd ` set wl" for e
  proof -
    from that obtain q where "(q, e) \<in> set wl" by auto
    moreover have "\<forall>(p, c)\<in>set wl. p \<in> ?V \<and> c \<in> ?ch p" using inv by (simp add: walk_inv_def)
    ultimately show ?thesis by blast
  qed
  have "d \<noteq> r"
  proof
    assume "d = r"
    with d have "(c, r) \<in> child_rel qt fs" by (simp add: child_rel_def)
    with walk_inv_descendant[OF inv] acyclic show False by (auto simp: descendants_def dest: rtrancl_into_trancl1)
  qed
  moreover have False if "q \<in> ?V" "d \<in> ?ch q" for q
    using children_of_unique[OF that(2) d] that(1) c(1) by simp
  moreover have "d \<noteq> c" using children_of_unique[OF c(2), of c] d c(1,3) by metis
  ultimately show ?thesis using known work by blast
qed

lemma walk_inv_step:
  assumes inv: "walk_inv qt fs r ((p, c) # wl) t" and acyclic: "(r, r) \<notin> (child_rel qt fs)\<^sup>+"
  shows "walk_inv qt fs r (wl @ map (\<lambda>d. (c, d)) (sorted_list_of_set (children_of qt fs c)))
    (addProcessTaskList c (threads_of qt fs c) (addChildProcess p c t))"
proof -
  let ?ch = "children_of qt fs" and ?V = "set (pids t)"
  let ?t = "addProcessTaskList c (threads_of qt fs c) (addChildProcess p c t)"
  let ?wl = "wl @ map (\<lambda>d. (c, d)) (sorted_list_of_set (?ch c))"
  note fresh = walk_inv_fresh[OF inv acyclic] and cd = walk_inv_descendant[OF inv]
  note inv = inv[unfolded walk_inv_def]
  have wf: "tree_wf t" and p: "p \<in> ?V" and c: "c \<notin> ?V" and pc: "c \<in> ?ch p" using inv by auto
  have known: "v = r \<or> (\<exists>q\<in>?V. v \<in> ?ch q)" if "v \<in> ?V" for v using inv that by blast
  have pids: "set (pids ?t) = insert c ?V"
    using arg_cong[OF pids_addChildProcess[OF wf p c], of set_mset] by simp
  have tasks: "getAllTasks ?t = getAllTasks t \<union> insert c (threads_of qt fs c)"
    using wf p c by (intro tree.all_tasks_add_process) (simp_all add: dom_task_map)
  have "tree_wf ?t"
    using wf p c by (simp add: tree_wf_addProcessTaskList tree_wf_addChildProcess)
  moreover have "distinct (map snd ?wl)"
    using inv fresh by (auto simp: o_def)
  moreover have "snd ` set ?wl \<inter> set (pids ?t) = {}"
    using inv fresh fresh[of c] unfolding pids by auto
  moreover have "\<forall>(q, d)\<in>set ?wl. q \<in> set (pids ?t) \<and> d \<in> ?ch q"
    using inv unfolding pids by auto
  moreover have "\<forall>v\<in>set (pids ?t). ?ch v \<subseteq> set (pids ?t) \<union> snd ` set ?wl"
  proof -
    have "\<forall>v\<in>?V. ?ch v \<subseteq> ?V \<union> snd ` set ((p, c) # wl)" using inv by blast
    then show ?thesis unfolding pids by (auto simp: image_Un image_image)
  qed
  moreover have "\<forall>v\<in>set (pids ?t). v = r \<or> (\<exists>q\<in>set (pids ?t). v \<in> ?ch q)"
    using known p pc unfolding pids by (metis insert_iff)
  moreover have "getAllTasks ?t = (\<Union>v\<in>set (pids ?t). insert v (threads_of qt fs v))"
  proof -
    have "getAllTasks t = (\<Union>v\<in>?V. insert v (threads_of qt fs v))" using inv by blast
    then show ?thesis unfolding pids tasks by auto
  qed
  moreover have "r \<in> set (pids ?t) \<and> set (pids ?t) \<subseteq> descendants qt fs r"
    using inv cd unfolding pids by simp
  ultimately show ?thesis
    unfolding walk_inv_def by simp
qed

lemma walk_inv_done:
  assumes "walk_inv qt fs r [] t"
  shows "set (pids t) = descendants qt fs r"
proof
  show "set (pids t) \<subseteq> descendants qt fs r" using assms by (simp add: walk_inv_def)
  have "v \<in> set (pids t)" if "(r, v) \<in> (child_rel qt fs)\<^sup>*" for v
    using that
  proof (induction rule: rtrancl_induct)
    case base
    then show ?case using assms by (simp add: walk_inv_def)
  next
    case (step y z)
    then show ?case using assms by (auto simp: walk_inv_def child_rel_def)
  qed
  then show "descendants qt fs r \<subseteq> set (pids t)" by (auto simp: descendants_def)
qed

text \<open>Each iteration puts a listed process into the tree, so the listed ones bound the fuel.\<close>

lemma tree_loop_terminates:
  assumes "walk_inv qt fs r wl t" and "(r, r) \<notin> (child_rel qt fs)\<^sup>+" and "\<not> isError c"
    and procs: "entryList fs ''/proc'' = Some procs"
    and "card (set (listed_pids qt fs) - set (pids t)) < fuel"
  shows "\<exists>t' c'. tree_loop qt fs fuel wl t c = Some (t', c') \<and> \<not> isError c' \<and> walk_inv qt fs r [] t'"
  using assms(1,3,5)
proof (induction fuel arbitrary: wl t c)
  case 0
  then show ?case by simp
next
  case (Suc fuel)
  show ?case
  proof (cases wl)
    case Nil
    with Suc.prems show ?thesis by auto
  next
    case (Cons w ws)
    obtain p ch where w: "w = (p, ch)" by fastforce
    let ?t = "addProcessTaskList ch (threads_of qt fs ch) (addChildProcess p ch t)"
    let ?wl = "ws @ map (\<lambda>d. (ch, d)) (sorted_list_of_set (children_of qt fs ch))"
    obtain c1 where c1: "getProcessThreads qt fs ch c = (threads_of qt fs ch, c1)" "\<not> isError c1"
      using getProcessThreads_pure[of qt fs ch c] Suc.prems(2) by auto
    obtain c2 where c2: "getChildProcesses qt fs ch c1 = (children_of qt fs ch, c2)" "\<not> isError c2"
      using getChildProcesses_pure[OF procs, of qt ch c1] c1(2) by auto
    have inv: "walk_inv qt fs r ?wl ?t"
      using Suc.prems(1) assms(2) unfolding Cons w by (rule walk_inv_step)
    have pw: "tree_wf t" "p \<in> set (pids t)" "ch \<notin> set (pids t)" "ch \<in> children_of qt fs p"
      using Suc.prems(1) unfolding Cons w walk_inv_def by auto
    have "set (pids ?t) = insert ch (set (pids t))"
      using arg_cong[OF pids_addChildProcess[OF pw(1-3)], of set_mset] by simp
    then have "set (listed_pids qt fs) - set (pids ?t) \<subset> set (listed_pids qt fs) - set (pids t)"
      using pw(3,4) children_of_listed[of qt fs p] by auto
    then have "card (set (listed_pids qt fs) - set (pids ?t)) < card (set (listed_pids qt fs) - set (pids t))"
      by (intro psubset_card_mono) auto
    with Suc.prems(3) have "card (set (listed_pids qt fs) - set (pids ?t)) < fuel" by simp
    from Suc.IH[OF inv c2(2) this] show ?thesis
      by (simp add: Cons w c1 c2)
  qed
qed

lemma tree_complete:
  assumes "running op" and "\<not> isError c" and "entryList fs ''/proc'' = Some procs"
    and "(op_pid op, op_pid op) \<notin> (child_rel qt fs)\<^sup>+"
    and "length (listed_pids qt fs) < fuel"
  shows "\<exists>t c'. getProcessTree qt fs fuel op c = Some (t, c') \<and> \<not> isError c' \<and> tree_wf t
    \<and> set (pids t) = descendants qt fs (op_pid op)
    \<and> getAllTasks t = (\<Union>q\<in>descendants qt fs (op_pid op). insert q (threads_of qt fs q))"
proof -
  let ?r = "op_pid op"
  let ?t = "addProcessTaskList ?r (threads_of qt fs ?r) (ProcessTree_new ?r)"
  let ?wl = "map (\<lambda>d. (?r, d)) (sorted_list_of_set (children_of qt fs ?r))"
  obtain c1 where c1: "getProcessThreads qt fs ?r c = (threads_of qt fs ?r, c1)" "\<not> isError c1"
    using getProcessThreads_pure[of qt fs ?r c] assms(2) by auto
  obtain c2 where c2: "getChildProcesses qt fs ?r c1 = (children_of qt fs ?r, c2)" "\<not> isError c2"
    using getChildProcesses_pure[OF assms(3), of qt ?r c1] c1(2) by auto
  have "?r \<notin> children_of qt fs ?r"
    using assms(4) by (auto simp: child_rel_def)
  then have inv: "walk_inv qt fs ?r ?wl ?t"
    by (auto simp: walk_inv_def descendants_def o_def image_image tree_wf_addProcessTaskList)
       (simp_all add: ProcessTree_new_def)
  have "card (set (listed_pids qt fs) - set (pids ?t)) < fuel"
    using assms(5) card_length[of "listed_pids qt fs"] card_Diff_subset_Int[of "set (listed_pids qt fs)" "set (pids ?t)"]
    by (meson Diff_subset List.finite_set card_mono dual_order.strict_trans2 le_less_trans)
  from tree_loop_terminates[OF inv assms(4) c2(2) assms(3) this]
  obtain t c' where t: "tree_loop qt fs fuel ?wl ?t c2 = Some (t, c')" "\<not> isError c'" "walk_inv qt fs ?r [] t"
    by blast
  then show ?thesis
    using walk_inv_done[OF t(3)] assms(1)
    by (auto simp: getProcessTree_def c1 c2 walk_inv_def)
qed

lemma getProcessTree_total:
  assumes "(op_pid op, op_pid op) \<notin> (child_rel qt fs)\<^sup>+" and "length (listed_pids qt fs) < fuel"
  shows "\<exists>r. getProcessTree qt fs fuel op c = Some r"
proof (cases "running op \<and> \<not> isError c")
  case False
  obtain c1 where "getProcessThreads qt fs (op_pid op) c = (threads_of qt fs (op_pid op), c1)" "isError c1 \<longleftrightarrow> isError c"
    using getProcessThreads_pure by blast
  with False show ?thesis by (auto simp: getProcessTree_def)
next
  case True
  show ?thesis
  proof (cases "entryList fs ''/proc''")
    case None
    then have "isError (snd (getChildProcesses qt fs (op_pid op) c'))" for c'
      by (simp add: getChildProcesses_def fatal_def fatal_reports_def)
    then show ?thesis by (simp add: getProcessTree_def Let_def split_def)
  next
    case (Some procs)
    with tree_complete[of op c fs procs qt fuel] True assms show ?thesis by blast
  qed
qed


text \<open>A machine with process 7, its child 9 and the thread 8 of process 7.\<close>

definition demo_conv :: qt_conv where
  "demo_conv = \<lparr>toInt10 = [''1'' \<mapsto> 1, ''7'' \<mapsto> 7, ''8'' \<mapsto> 8, ''9'' \<mapsto> 9],
     toInt0 = Map.empty, toULong0 = Map.empty, toDouble = Map.empty\<rparr>"

definition demo_fs :: procfs where
  "demo_fs = \<lparr>entryList = [''/proc'' \<mapsto> [''7'', ''9'', ''self''],
       ''/proc/7/task'' \<mapsto> [''7'', ''8''], ''/proc/9/task'' \<mapsto> [''9'']],
     fileText = [''/proc/7/stat'' \<mapsto> stat_text ''7'' ''sh'' [''S'', ''1'', ''7''],
       ''/proc/9/stat'' \<mapsto> stat_text ''9'' ''sleep'' [''S'', ''7'', ''7'']]\<rparr>"

definition demo_op :: observed_process where
  "demo_op = (ObservedProcess_new False)\<lparr>op_pid := 7, running := True\<rparr>"

lemma demo_numbers: "number 7 = ''7''" "number 9 = ''9''"
  by code_simp+

lemma demo_parents: "parent_entry demo_fs 7 = ''1''" "parent_entry demo_fs 9 = ''7''"
  by (simp_all add: parent_entry_def getProcEntry_def demo_fs_def demo_numbers stat_entry_cases plain_def)

lemma demo_listed: "listed_pids demo_conv demo_fs = [7, 9]"
  by (simp add: listed_pids_def demo_fs_def demo_conv_def exactMatch_integer_def int_or_zero_def)

lemma demo_child_rel: "child_rel demo_conv demo_fs \<subseteq> {(p, c). p < c}"
proof
  fix x assume "x \<in> child_rel demo_conv demo_fs"
  then obtain p c where x: "x = (p, c)" and c: "c \<in> children_of demo_conv demo_fs p"
    by (auto simp: child_rel_def)
  from children_of_D[OF c] show "x \<in> {(p, c). p < c}"
    by (auto simp: x demo_listed demo_parents) (auto simp: demo_conv_def int_or_zero_def)
qed


end
