(* ===== verification/Cpu_Info.thy ===== *)
theory Cpu_Info
  imports Configuration
begin

text \<open>
  \<open>src/AutopinPlus/OS/CpuInfo.cpp\<close>: the NUMA topology read from \<open>/sys/devices/system/node\<close>.
  The two static vectors are the record \<open>cpu_info\<close>; the contents of the files and the result of
  \<open>get_nprocs()\<close> are arguments. Indexing outside a vector is \<open>None\<close>.
\<close>

record cpu_info =
  distances :: "int list list"
  mapping :: "int list"

subsection \<open>Parsing\<close>

text \<open>
  \<open>for (int value = start; value <= stop; value++)\<close>: when \<open>stop\<close> is the largest \<open>int\<close> the
  counter overflows.
\<close>

definition push_range :: "int \<Rightarrow> int \<Rightarrow> int list option" where
  "push_range start stop = (if start \<le> stop \<and> stop = 2 ^ 31 - 1 then None else Some [start..stop])"

fun parse_ranges :: "qt_conv \<Rightarrow> QStringList \<Rightarrow> int list \<Rightarrow> int list option" where
  "parse_ranges qt [] result = Some result"
| "parse_ranges qt (rng # rngs) result =
     (let values = split_char (CHR ''-'') rng in
      if length values = 2 then
        let start = int_or_zero (toInt10 qt (values ! 0));
            stop = int_or_zero (toInt10 qt (values ! 1))
        in case push_range start stop of
             None \<Rightarrow> None
           | Some vs \<Rightarrow> parse_ranges qt rngs (result @ vs)
      else parse_ranges qt rngs (result @ [int_or_zero (toInt10 qt (values ! 0))]))"

definition parseSysRangeFile :: "qt_conv \<Rightarrow> files \<Rightarrow> QString \<Rightarrow> int list option" where
  "parseSysRangeFile qt fs path =
     (case fs path of
        None \<Rightarrow> Some []
      | Some text \<Rightarrow> parse_ranges qt (split_char (CHR '','') text) [])"

definition parseSysNodeDistance :: "qt_conv \<Rightarrow> files \<Rightarrow> QString \<Rightarrow> int list" where
  "parseSysNodeDistance qt fs path =
     (case fs path of
        None \<Rightarrow> []
      | Some text \<Rightarrow> map (\<lambda>v. int_or_zero (toInt10 qt v)) (split_char (CHR '' '') text))"

subsection \<open>Setup and queries\<close>

fun assign_cpus :: "int \<Rightarrow> int list \<Rightarrow> int list \<Rightarrow> int list option" where
  "assign_cpus node [] m = Some m"
| "assign_cpus node (cpu # cpus) m =
     (case vec_set m cpu node of None \<Rightarrow> None | Some m \<Rightarrow> assign_cpus node cpus m)"

definition node_path :: "int \<Rightarrow> QString \<Rightarrow> QString" where
  "node_path node file = ''/sys/devices/system/node/node'' @ number node @ file"

fun setup_nodes :: "qt_conv \<Rightarrow> files \<Rightarrow> int list \<Rightarrow> cpu_info \<Rightarrow> cpu_info option" where
  "setup_nodes qt fs [] ci = Some ci"
| "setup_nodes qt fs (node # nodes) ci =
     (case parseSysRangeFile qt fs (node_path node ''/cpulist'') of
        None \<Rightarrow> None
      | Some cpus \<Rightarrow>
          (case assign_cpus node cpus (mapping ci) of
             None \<Rightarrow> None
           | Some m \<Rightarrow>
               let distance = parseSysNodeDistance qt fs (node_path node ''/distance'')
               in setup_nodes qt fs nodes (ci\<lparr>mapping := m, distances := distances ci @ [distance]\<rparr>)))"

definition setupCpuInfo :: "qt_conv \<Rightarrow> files \<Rightarrow> nat \<Rightarrow> cpu_info \<Rightarrow> cpu_info option" where
  "setupCpuInfo qt fs get_nprocs ci =
     (let ci = ci\<lparr>mapping := mapping ci @ replicate get_nprocs 0\<rparr> in
      case parseSysRangeFile qt fs ''/sys/devices/system/node/online'' of
        None \<Rightarrow> None
      | Some nodes \<Rightarrow> setup_nodes qt fs nodes ci)"

definition getCpuDistance :: "cpu_info \<Rightarrow> int \<Rightarrow> int \<Rightarrow> int option" where
  "getCpuDistance ci cpu1 cpu2 =
     (case vec_at (mapping ci) cpu1 of None \<Rightarrow> None
      | Some node1 \<Rightarrow>
        (case vec_at (mapping ci) cpu2 of None \<Rightarrow> None
         | Some node2 \<Rightarrow>
           (case vec_at (distances ci) node1 of None \<Rightarrow> None
            | Some row \<Rightarrow> vec_at row node2)))"

definition getCpusByNode :: "cpu_info \<Rightarrow> int \<Rightarrow> int list" where
  "getCpusByNode ci node = map int (filter (\<lambda>i. mapping ci ! i = node) [0..<length (mapping ci)])"

definition getNodeCount :: "cpu_info \<Rightarrow> nat" where
  "getNodeCount ci = length (distances ci)"

definition getNodeByCpu :: "cpu_info \<Rightarrow> int \<Rightarrow> int option" where
  "getNodeByCpu ci cpu = vec_at (mapping ci) cpu"

subsection \<open>What is parsed\<close>

text \<open>A list of CPU ranges as the kernel prints it: \<open>0-3,8,10-11\<close> and a line feed.\<close>

definition range_text :: "int \<times> int \<Rightarrow> string" where
  "range_text r = (if fst r = snd r then number (fst r) else number (fst r) @ ''-'' @ number (snd r))"

definition ranges_text :: "(int \<times> int) list \<Rightarrow> string" where
  "ranges_text rs = join '','' (map range_text rs) @ [CHR 0x0A]"

text \<open>What the parser relies on: decimal numbers convert back, also before a line feed.\<close>

definition converts :: "qt_conv \<Rightarrow> int set \<Rightarrow> bool" where
  "converts qt N \<longleftrightarrow> (\<forall>n\<in>N. toInt10 qt (number n) = Some n \<and> toInt10 qt (number n @ [CHR 0x0A]) = Some n)"

lemma number_chars: "0 \<le> n \<Longrightarrow> CHR ''-'' \<notin> set (number n) \<and> CHR '','' \<notin> set (number n)"
  using digits_isDigit[of _ "nat n"] isDigit_not_space by (force simp: number_def)

lemma split_range_text:
  assumes "0 \<le> a" "0 \<le> b" "CHR ''-'' \<notin> set t"
  shows "split_char (CHR ''-'') (range_text (a, b) @ t) =
    (if a = b then [number a @ t] else [number a, number b @ t])"
  using assms number_chars[of a] number_chars[of b]
  by (simp add: range_text_def split_char_append_sep split_char_plain)

text \<open>What \<open>parse_ranges\<close> yields for one printed range, possibly followed by the line feed.\<close>

lemma parse_one_range:
  assumes "converts qt {a, b}" and "0 \<le> a" "a \<le> b" "b < 2 ^ 31 - 1" and "t = [] \<or> t = [CHR 0x0A]"
  shows "parse_ranges qt ((range_text (a, b) @ t) # rs) res = parse_ranges qt rs (res @ [a..b])"
proof -
  have t: "CHR ''-'' \<notin> set t" using assms(5) by auto
  show ?thesis
    using assms split_range_text[of a b t] t
    by (auto simp: converts_def int_or_zero_def push_range_def Let_def)
qed

lemma parse_ranges_text:
  assumes "\<forall>r\<in>set rs. converts qt {fst r, snd r} \<and> 0 \<le> fst r \<and> fst r \<le> snd r \<and> snd r < 2 ^ 31 - 1"
    and "rs \<noteq> []"
  shows "parse_ranges qt (split_char (CHR '','') (ranges_text rs)) res
    = Some (res @ concat (map (\<lambda>r. [fst r..snd r]) rs))"
  using assms
proof (induction rs arbitrary: res)
  case Nil
  then show ?case by simp
next
  case (Cons r rs)
  obtain a b where r: "r = (a, b)" by fastforce
  have plain: "CHR '','' \<notin> set (range_text (a, b))"
    using Cons.prems(1) number_chars[of a] number_chars[of b] by (auto simp: r range_text_def)
  show ?case
  proof (cases "rs = []")
    case True
    then show ?thesis
      using Cons.prems(1) plain parse_one_range[of qt a b "[CHR 0x0A]" "[]" res]
      by (simp add: r ranges_text_def split_char_plain)
  next
    case False
    then have "ranges_text (r # rs) = range_text (a, b) @ CHR '','' # ranges_text rs"
      by (cases rs) (simp_all add: r ranges_text_def)
    with plain have "split_char (CHR '','') (ranges_text (r # rs))
        = range_text (a, b) # split_char (CHR '','') (ranges_text rs)"
      by (simp add: split_char_append_sep split_char_plain)
    then show ?thesis
      using Cons False parse_one_range[of qt a b "[]" _ res] by (simp add: r)
  qed
qed

definition distance_text :: "int list \<Rightarrow> string" where
  "distance_text ds = join '' '' (map number ds) @ [CHR 0x0A]"

lemma join_append_last: "vs \<noteq> [] \<Longrightarrow> join sep vs @ t = join sep (butlast vs @ [last vs @ t])"
proof (induction sep vs rule: join.induct)
  case (3 sep x y ys)
  then show ?case by (cases "butlast (y # ys)") (auto split: if_splits)
qed auto

lemma number_no_blank: "CHR '' '' \<notin> set (number n)"
  using number_solid[of "CHR '' ''" n] by (auto simp: isSpace_def)

lemma parse_distance_text:
  assumes "ds \<noteq> []" and "\<forall>d\<in>set ds. 0 \<le> d" and "converts qt (set ds)"
  shows "map (\<lambda>v. int_or_zero (toInt10 qt v)) (split_char (CHR '' '') (distance_text ds)) = ds"
proof -
  obtain es e where ds: "ds = es @ [e]" using assms(1) by (cases ds rule: rev_cases) auto
  have "distance_text ds = join '' '' (map number es @ [number e @ [CHR 0x0A]])"
    using join_append_last[of "map number ds"] by (simp add: distance_text_def ds)
  moreover have "split_char (CHR '' '') (join '' '' (map number es @ [number e @ [CHR 0x0A]]))
      = map number es @ [number e @ [CHR 0x0A]]"
    using assms(2) number_no_blank by (intro split_char_join) (auto simp: ds)
  ultimately show ?thesis
    using assms(3) by (simp add: ds converts_def int_or_zero_def map_idI)
qed

subsection \<open>The topology\<close>

definition place :: "int \<Rightarrow> int list \<Rightarrow> int list \<Rightarrow> int list" where
  "place node cpus m = map (\<lambda>i. if int i \<in> set cpus then node else m ! i) [0..<length m]"

lemma length_place [simp]: "length (place node cpus m) = length m"
  by (simp add: place_def)

lemma place_nth: "i < length m \<Longrightarrow> place node cpus m ! i = (if int i \<in> set cpus then node else m ! i)"
  by (simp add: place_def)

text \<open>Writing the node of each listed CPU is defined exactly when all of them are in the vector.\<close>

lemma assign_cpus_eq:
  "assign_cpus node cpus m =
     (if \<forall>c\<in>set cpus. 0 \<le> c \<and> c < int (length m) then Some (place node cpus m) else None)"
proof (induction cpus arbitrary: m)
  case Nil
  then show ?case by (auto simp: place_def intro: nth_equalityI)
next
  case (Cons c cpus)
  have "place node cpus (m[nat c := node]) = place node (c # cpus) m" if "0 \<le> c"
    using that by (auto simp: place_def nth_list_update intro: nth_equalityI)
  then show ?case by (simp add: vec_set_def Cons)
qed

lemma setup_nodes_eq:
  assumes "\<And>v. v \<in> set vs \<Longrightarrow> parseSysRangeFile qt fs (node_path v ''/cpulist'') = Some (cpus v)"
    and "\<And>v c. v \<in> set vs \<Longrightarrow> c \<in> set (cpus v) \<Longrightarrow> 0 \<le> c \<and> c < int (length (mapping ci))"
  shows "setup_nodes qt fs vs ci =
    Some (ci\<lparr>mapping := fold (\<lambda>v. place v (cpus v)) vs (mapping ci),
      distances := distances ci @ map (\<lambda>v. parseSysNodeDistance qt fs (node_path v ''/distance'')) vs\<rparr>)"
  using assms
proof (induction vs arbitrary: ci)
  case Nil
  then show ?case by simp
next
  case (Cons v vs)
  let ?d = "parseSysNodeDistance qt fs (node_path v ''/distance'')"
  let ?ci = "ci\<lparr>mapping := place v (cpus v) (mapping ci), distances := distances ci @ [?d]\<rparr>"
  have "assign_cpus v (cpus v) (mapping ci) = Some (place v (cpus v) (mapping ci))"
    using Cons.prems(2)[of v] by (simp add: assign_cpus_eq)
  moreover have "setup_nodes qt fs vs ?ci =
      Some (?ci\<lparr>mapping := fold (\<lambda>v. place v (cpus v)) vs (mapping ?ci),
        distances := distances ?ci @ map (\<lambda>v. parseSysNodeDistance qt fs (node_path v ''/distance'')) vs\<rparr>)"
    using Cons.prems by (intro Cons.IH) auto
  ultimately show ?case using Cons.prems(1)[of v] by (simp add: Let_def)
qed

lemma length_fold_place [simp]: "length (fold (\<lambda>v. place v (cpus v)) vs m) = length m"
  by (induction vs arbitrary: m) auto

lemma fold_place_nth:
  assumes "i < length m" and "v \<in> set vs" and "int i \<in> set (cpus v)"
    and "\<And>w. w \<in> set vs \<Longrightarrow> int i \<in> set (cpus w) \<Longrightarrow> w = v"
  shows "fold (\<lambda>v. place v (cpus v)) vs m ! i = v"
  using assms
proof (induction vs rule: rev_induct)
  case Nil
  then show ?case by simp
next
  case (snoc x vs)
  show ?case
  proof (cases "int i \<in> set (cpus x)")
    case True
    then have "x = v" using snoc.prems(4)[of x] by simp
    with True snoc.prems(1) show ?thesis by (simp add: place_nth)
  next
    case False
    then have "v \<in> set vs" using snoc.prems(2,3) by auto
    moreover have "w = v" if "w \<in> set vs" "int i \<in> set (cpus w)" for w
      using snoc.prems(4)[of w] that by simp
    ultimately have "fold (\<lambda>v. place v (cpus v)) vs m ! i = v"
      using snoc.IH snoc.prems(1,3) by blast
    with False snoc.prems(1) show ?thesis by (simp add: place_nth)
  qed
qed

definition range_cpus :: "(int \<times> int) list \<Rightarrow> int list" where
  "range_cpus rs = concat (map (\<lambda>r. [fst r..snd r]) rs)"

text \<open>
  A machine with the nodes \<open>0\<close> to \<open>k - 1\<close> as the kernel describes it: \<open>ranges v\<close> are the CPU ranges of
  node \<open>v\<close> and \<open>dst v\<close> its distances. Each of the \<open>n\<close> CPUs belongs to exactly one node.
\<close>

definition describes ::
  "files \<Rightarrow> nat \<Rightarrow> nat \<Rightarrow> (int \<Rightarrow> (int \<times> int) list) \<Rightarrow> (int \<Rightarrow> int list) \<Rightarrow> bool" where
  "describes fs n k ranges dst \<longleftrightarrow>
     fs ''/sys/devices/system/node/online'' = Some (ranges_text [(0, int k - 1)]) \<and> 0 < k \<and> int k < 2 ^ 31 - 1 \<and>
     (\<forall>v\<in>{0..<int k}.
        fs (node_path v ''/cpulist'') = Some (ranges_text (ranges v)) \<and> ranges v \<noteq> [] \<and>
        (\<forall>r\<in>set (ranges v). 0 \<le> fst r \<and> fst r \<le> snd r \<and> snd r < int n) \<and> int n < 2 ^ 31 - 1 \<and>
        fs (node_path v ''/distance'') = Some (distance_text (dst v)) \<and>
        length (dst v) = k \<and> (\<forall>d\<in>set (dst v). 0 \<le> d)) \<and>
     (\<forall>c\<in>{0..<int n}. \<exists>!v. v \<in> {0..<int k} \<and> c \<in> set (range_cpus (ranges v)))"

text \<open>The conversions of numbers that occur in such files.\<close>

definition converts_all :: "qt_conv \<Rightarrow> nat \<Rightarrow> nat \<Rightarrow> (int \<Rightarrow> int list) \<Rightarrow> bool" where
  "converts_all qt n k dst \<longleftrightarrow>
     converts qt ({0..<int n} \<union> {0..<int k} \<union> (\<Union>v\<in>{0..<int k}. set (dst v)))"

lemma converts_mono: "converts qt N \<Longrightarrow> M \<subseteq> N \<Longrightarrow> converts qt M"
  by (auto simp: converts_def)

lemma describes_parse:
  assumes "describes fs n k ranges dst" and "converts_all qt n k dst" and "v \<in> {0..<int k}"
  shows "parseSysRangeFile qt fs (node_path v ''/cpulist'') = Some (range_cpus (ranges v))"
    and "parseSysNodeDistance qt fs (node_path v ''/distance'') = dst v"
    and "\<forall>c\<in>set (range_cpus (ranges v)). 0 \<le> c \<and> c < int n"
proof -
  have d: "fs (node_path v ''/cpulist'') = Some (ranges_text (ranges v))" "ranges v \<noteq> []"
    "\<forall>r\<in>set (ranges v). 0 \<le> fst r \<and> fst r \<le> snd r \<and> snd r < int n" "int n < 2 ^ 31 - 1"
    "fs (node_path v ''/distance'') = Some (distance_text (dst v))" "length (dst v) = k"
    "\<forall>d\<in>set (dst v). 0 \<le> d" "0 < k"
    using assms(1,3) unfolding describes_def by blast+
  have "converts qt {fst r, snd r}" if "r \<in> set (ranges v)" for r
    using d(3) that assms(2) unfolding converts_all_def by (auto intro!: converts_mono[where M = "{fst r, snd r}"])
  then show "parseSysRangeFile qt fs (node_path v ''/cpulist'') = Some (range_cpus (ranges v))"
    using d parse_ranges_text[of "ranges v" qt "[]"]
    by (force simp: parseSysRangeFile_def range_cpus_def)
  have "converts qt (set (dst v))"
    using assms(2,3) unfolding converts_all_def by (auto intro!: converts_mono[where M = "set (dst v)"])
  then show "parseSysNodeDistance qt fs (node_path v ''/distance'') = dst v"
    using d by (auto simp: parseSysNodeDistance_def parse_distance_text)
  show "\<forall>c\<in>set (range_cpus (ranges v)). 0 \<le> c \<and> c < int n"
    using d(3) by (fastforce simp: range_cpus_def)
qed

text \<open>The mapping that the nodes of such a machine yield.\<close>

definition node_map :: "nat \<Rightarrow> nat \<Rightarrow> (int \<Rightarrow> (int \<times> int) list) \<Rightarrow> int list" where
  "node_map n k ranges = fold (\<lambda>v. place v (range_cpus (ranges v))) [0..int k - 1] (replicate n 0)"

lemma length_node_map [simp]: "length (node_map n k ranges) = n"
  by (simp add: node_map_def)

lemma node_map_owner:
  assumes "describes fs n k ranges dst" and "converts_all qt n k dst" and "v \<in> {0..<int k}" and "c \<in> set (range_cpus (ranges v))"
  shows "0 \<le> c \<and> nat c < n \<and> node_map n k ranges ! nat c = v"
proof -
  have c: "0 \<le> c" "c < int n" using describes_parse(3)[OF assms(1-3)] assms(4) by auto
  moreover have "\<exists>!v. v \<in> {0..<int k} \<and> c \<in> set (range_cpus (ranges v))"
    using assms(1) c unfolding describes_def by auto
  ultimately have "fold (\<lambda>v. place v (range_cpus (ranges v))) [0..int k - 1] (replicate n 0) ! nat c = v"
    using assms(3,4) by (intro fold_place_nth) auto
  with c show ?thesis by (simp add: node_map_def)
qed

lemma node_map_cpus:
  assumes "describes fs n k ranges dst" and "converts_all qt n k dst" and "v \<in> {0..<int k}" and "mapping ci = node_map n k ranges"
  shows "getCpusByNode ci v = sorted_list_of_set (set (range_cpus (ranges v)))"
proof (rule sorted_distinct_set_unique)
  let ?cpus = "\<lambda>v. range_cpus (ranges v)"
  have listed: "\<exists>v\<in>{0..<int k}. c \<in> set (?cpus v)" if "0 \<le> c" "c < int n" for c
    using assms(1) that unfolding describes_def by (meson atLeastLessThan_iff)
  have "int i \<in> set (?cpus v) \<longleftrightarrow> node_map n k ranges ! i = v" if "i < n" for i
    using listed[of "int i"] node_map_owner[OF assms(1,2), of _ "int i"] that assms(3) by auto
  moreover have "0 \<le> c \<and> nat c < n" if "c \<in> set (?cpus v)" for c
    using node_map_owner[OF assms(1-3) that] by simp
  ultimately show "set (getCpusByNode ci v) = set (sorted_list_of_set (set (?cpus v)))"
    using assms(4) by (auto simp: getCpusByNode_def image_iff) (metis int_nat_eq)
qed (auto simp: getCpusByNode_def sorted_map distinct_map sorted_wrt_filter)

text \<open>
  C34. \<open>setupCpuInfo\<close> reads the topology of such a machine: the calls stay inside the vectors, the
  node count is right, a CPU maps to its node, \<open>getCpusByNode\<close> lists exactly the CPUs of a node in
  increasing order, and the distance of two CPUs is the distance of their nodes.
\<close>

theorem setupCpuInfo_topology:
  assumes "describes fs n k ranges dst" and "converts_all qt n k dst"
  shows "\<exists>ci. setupCpuInfo qt fs n \<lparr>distances = [], mapping = []\<rparr> = Some ci \<and>
    getNodeCount ci = k \<and> length (mapping ci) = n \<and>
    (\<forall>v\<in>{0..<int k}. getCpusByNode ci v = sorted_list_of_set (set (range_cpus (ranges v)))) \<and>
    (\<forall>v\<in>{0..<int k}. \<forall>c\<in>set (range_cpus (ranges v)). getNodeByCpu ci c = Some v) \<and>
    (\<forall>v\<in>{0..<int k}. \<forall>w\<in>{0..<int k}. \<forall>c\<in>set (range_cpus (ranges v)). \<forall>d\<in>set (range_cpus (ranges w)).
       getCpuDistance ci c d = Some (dst v ! nat w))"
proof -
  let ?V = "[0..int k - 1]"
  let ?ci = "\<lparr>distances = map dst ?V, mapping = node_map n k ranges\<rparr>"
  have k: "0 < k" "int k < 2 ^ 31 - 1"
    "fs ''/sys/devices/system/node/online'' = Some (ranges_text [(0, int k - 1)])"
    using assms(1) by (simp_all add: describes_def)
  have "converts qt {0, int k - 1}"
    using assms(2) k(1) unfolding converts_all_def by (auto intro!: converts_mono[where M = "{0, int k - 1}"])
  then have online: "parseSysRangeFile qt fs ''/sys/devices/system/node/online'' = Some ?V"
    using k parse_ranges_text[of "[(0, int k - 1)]" qt "[]"] by (simp add: parseSysRangeFile_def)
  have nodes: "setup_nodes qt fs ?V \<lparr>distances = [], mapping = replicate n 0\<rparr> = Some ?ci"
    using describes_parse[OF assms] by (subst setup_nodes_eq[where cpus = "\<lambda>v. range_cpus (ranges v)"]) (auto simp: node_map_def)
  note owner = node_map_owner[OF assms]
  have cpus: "getCpusByNode ?ci v = sorted_list_of_set (set (range_cpus (ranges v)))" if "v \<in> {0..<int k}" for v
    using node_map_cpus[OF assms that] by simp
  have "getNodeByCpu ?ci c = Some v" if "v \<in> {0..<int k}" "c \<in> set (range_cpus (ranges v))" for v c
    using owner[OF that] by (auto simp: getNodeByCpu_def vec_at_def)
  moreover have "getCpuDistance ?ci c d = Some (dst v ! nat w)"
    if "v \<in> {0..<int k}" "w \<in> {0..<int k}" "c \<in> set (range_cpus (ranges v))" "d \<in> set (range_cpus (ranges w))" for v w c d
  proof -
    have "length (dst v) = k" using assms(1) that(1) by (simp add: describes_def)
    then show ?thesis
      using owner[OF that(1,3)] owner[OF that(2,4)] that by (auto simp: getCpuDistance_def vec_at_def nth_upto)
  qed
  ultimately show ?thesis
    using cpus online nodes k(1)
    by (intro exI[of _ ?ci]) (simp add: setupCpuInfo_def getNodeCount_def)
qed

text \<open>A machine with two nodes of two CPUs each.\<close>

definition demo_ranges :: "int \<Rightarrow> (int \<times> int) list" where
  "demo_ranges v = (if v = 0 then [(0, 1)] else [(2, 3)])"

definition demo_dst :: "int \<Rightarrow> int list" where
  "demo_dst v = (if v = 0 then [10, 21] else [21, 10])"

definition demo_sys :: files where
  "demo_sys = [''/sys/devices/system/node/online'' \<mapsto> ranges_text [(0, 1)],
     node_path 0 ''/cpulist'' \<mapsto> ranges_text (demo_ranges 0), node_path 0 ''/distance'' \<mapsto> distance_text (demo_dst 0),
     node_path 1 ''/cpulist'' \<mapsto> ranges_text (demo_ranges 1), node_path 1 ''/distance'' \<mapsto> distance_text (demo_dst 1)]"

lemma demo_describes: "describes demo_sys 4 2 demo_ranges demo_dst"
proof -
  have n: "number 0 = ''0''" "number 1 = ''1''" by code_simp+
  have V: "{0..<int 2} = {0, 1}" by auto
  have C: "{0..<int 4} = {0, 1, 2, 3}" by auto
  have "\<exists>!v. v \<in> {0, 1} \<and> c \<in> set (range_cpus (demo_ranges v))" if "c \<in> {0, 1, 2, 3}" for c
    using that by (auto simp: demo_ranges_def range_cpus_def intro!: ex1I[of _ "if c < 2 then 0 else 1"] split: if_splits)
  then show ?thesis
    unfolding describes_def V C by (auto simp: demo_sys_def node_path_def n demo_ranges_def demo_dst_def)
qed

lemma converts_dec: "N \<subseteq> {0..<2 ^ 31} \<Longrightarrow> converts dec_conv N"
  using dec_int_number[of _ "[]"] dec_int_number[of _ "[CHR 0x0A]"] by (force simp: converts_def dec_conv_def)

theorem setupCpuInfo_topology_witness:
  "\<exists>ci. setupCpuInfo dec_conv demo_sys 4 \<lparr>distances = [], mapping = []\<rparr> = Some ci \<and>
     getNodeByCpu ci 3 = Some 1 \<and> getCpuDistance ci 0 2 = Some 21"
proof -
  have V: "{0..<int 2} = {0, 1}" by auto
  have "converts_all dec_conv 4 2 demo_dst"
    unfolding converts_all_def V by (intro converts_dec) (auto simp: demo_dst_def)
  from setupCpuInfo_topology[OF demo_describes this] show ?thesis
    unfolding V by (auto simp: demo_ranges_def demo_dst_def range_cpus_def)
qed

end
