(* ===== verification/Control_Strategy.thy ===== *)
theory Control_Strategy
  imports Observed_Process Cpu_Info
begin

text \<open>
  \<open>src/AutopinPlus/ControlStrategy.cpp\<close>: the base class of the strategies. The static vector
  \<open>pinning\<close> is shared by the strategies of all watchdogs; it is kept, together with the calls of
  \<open>sched_setaffinity\<close> and the runtime context, in the record \<open>world\<close>. A strategy is the record
  \<open>strategy\<close>, which the derived classes extend; the virtual function \<open>getPinning\<close> is an argument of
  the operations that call it and may change the members of the derived class. The result of
  \<open>sched_setaffinity\<close> is an argument too, a function of the calls made before, the thread and the
  CPU. \<open>None\<close> is undefined behaviour (an index outside a vector).
\<close>

record Task =
  t_pid :: int
  t_tid :: int

definition emptyTask :: Task where
  "emptyTask = \<lparr>t_pid = 0, t_tid = 0\<rparr>"

definition Task_eq :: "Task \<Rightarrow> Task \<Rightarrow> bool" where
  "Task_eq t rhs \<longleftrightarrow> t_tid t = t_tid rhs \<and> t_pid t = t_pid rhs"

definition Task_neq :: "Task \<Rightarrow> Task \<Rightarrow> bool" where
  "Task_neq t rhs \<longleftrightarrow> t_tid t \<noteq> t_tid rhs \<or> t_pid t \<noteq> t_pid rhs"

text \<open>The operators are equality, which the model uses for them.\<close>

lemma Task_operators: "Task_eq t rhs \<longleftrightarrow> t = rhs" "Task_neq t rhs \<longleftrightarrow> t \<noteq> rhs"
  by (auto simp: Task_eq_def Task_neq_def)

definition isCpuFree :: "Task \<Rightarrow> bool" where
  "isCpuFree t \<longleftrightarrow> t = emptyTask"

type_synonym Pinning = "Task list"
type_synonym affinity_calls = "(int \<times> int) list"
type_synonym affinity_oracle = "affinity_calls \<Rightarrow> int \<Rightarrow> int \<Rightarrow> int"

record world =
  pinning :: Pinning
  affinity_calls :: affinity_calls
  runtime :: apcontext

record strategy =
  tasks :: "int list"
  interval :: int
  timer_interval :: "int option" \<comment> \<open>the running timer, if any\<close>

definition ControlStrategy_new :: strategy where
  "ControlStrategy_new = \<lparr>tasks = [], interval = 100, timer_interval = None\<rparr>"

type_synonym 'a get_pinning =
  "Pinning \<Rightarrow> 'a strategy_scheme \<Rightarrow> (Pinning \<times> 'a strategy_scheme) option"

definition wreport :: "autopin_errors \<Rightarrow> string \<Rightarrow> world \<Rightarrow> world" where
  "wreport e opt w = w\<lparr>runtime := report e opt (runtime w)\<rparr>"

subsection \<open>Operations\<close>

definition ControlStrategy_init :: "nat \<Rightarrow> world \<Rightarrow> world" where
  "ControlStrategy_init cpuCount w =
     (if pinning w = [] then w\<lparr>pinning := replicate cpuCount emptyTask\<rparr> else w)"

definition slot_watchdogReady :: "observed_process \<Rightarrow> 'a strategy_scheme \<Rightarrow> 'a strategy_scheme" where
  "slot_watchdogReady proc s =
     (if \<not> trace proc \<and> interval s \<ge> 1 then s\<lparr>timer_interval := Some (interval s)\<rparr> else s)"

definition base_getPinning :: "'a get_pinning" where
  "base_getPinning p s = Some (p, s)"

definition setAffinity :: "affinity_oracle \<Rightarrow> int \<Rightarrow> int \<Rightarrow> world \<Rightarrow> int \<times> world" where
  "setAffinity aff tid cpu w =
     (aff (affinity_calls w) tid cpu, w\<lparr>affinity_calls := affinity_calls w @ [(tid, cpu)]\<rparr>)"

text \<open>One iteration of the loop in \<open>changePinning\<close>.\<close>

definition change_step :: "affinity_oracle \<Rightarrow> int \<Rightarrow> Pinning \<Rightarrow> nat \<Rightarrow> world \<Rightarrow> world option" where
  "change_step aff p new_pinning i w =
     (case vec_at new_pinning (int i) of None \<Rightarrow> None
      | Some new_task \<Rightarrow>
        (case vec_at (pinning w) (int i) of None \<Rightarrow> None
         | Some old_task \<Rightarrow>
             if new_task \<noteq> old_task then
               if \<not> isCpuFree old_task \<and> t_pid old_task \<noteq> p
               then Some (wreport STRATEGY ''wrong_cpu'' w)
               else let (ret, w) = setAffinity aff (t_tid new_task) (int i) w in
                    if ret \<noteq> 0 then Some (wreport STRATEGY ''set_affinity'' w)
                    else Some (w\<lparr>pinning := (pinning w)[i := new_task]\<rparr>)
             else Some w))"

fun change_loop :: "affinity_oracle \<Rightarrow> int \<Rightarrow> Pinning \<Rightarrow> nat list \<Rightarrow> world \<Rightarrow> world option" where
  "change_loop aff p new_pinning [] w = Some w"
| "change_loop aff p new_pinning (i # is) w =
     (case change_step aff p new_pinning i w of None \<Rightarrow> None
      | Some w \<Rightarrow> change_loop aff p new_pinning is w)"

definition changePinning ::
  "'a get_pinning \<Rightarrow> affinity_oracle \<Rightarrow> observed_process \<Rightarrow> 'a strategy_scheme \<times> world \<Rightarrow>
    ('a strategy_scheme \<times> world) option" where
  "changePinning getPinning aff proc = (\<lambda>(s, w).
     (case getPinning (pinning w) s of None \<Rightarrow> None
      | Some (new_pinning, s) \<Rightarrow>
          map_option (Pair s) (change_loop aff (op_pid proc) new_pinning [0..<length (pinning w)] w)))"

definition slot_TaskCreated ::
  "'a get_pinning \<Rightarrow> affinity_oracle \<Rightarrow> observed_process \<Rightarrow> int \<Rightarrow> 'a strategy_scheme \<times> world \<Rightarrow>
    ('a strategy_scheme \<times> world) option" where
  "slot_TaskCreated getPinning aff proc tid = (\<lambda>(s, w).
     changePinning getPinning aff proc (s\<lparr>tasks := tasks s @ [tid]\<rparr>, w))"

definition slot_TaskTerminated ::
  "'a get_pinning \<Rightarrow> affinity_oracle \<Rightarrow> observed_process \<Rightarrow> int \<Rightarrow> 'a strategy_scheme \<times> world \<Rightarrow>
    ('a strategy_scheme \<times> world) option" where
  "slot_TaskTerminated getPinning aff proc tid = (\<lambda>(s, w).
     (let s = s\<lparr>tasks := remove1 tid (tasks s)\<rparr>;
          t = \<lparr>t_pid = op_pid proc, t_tid = tid\<rparr>;
          w = w\<lparr>pinning := find_assign t emptyTask (pinning w)\<rparr>
      in changePinning getPinning aff proc (s, w)))"

definition refreshTasks ::
  "qt_conv \<Rightarrow> procfs \<Rightarrow> nat \<Rightarrow> observed_process \<Rightarrow> 'a strategy_scheme \<times> world \<Rightarrow>
    ('a strategy_scheme \<times> world) option" where
  "refreshTasks qt fs fuel proc = (\<lambda>(s, w).
     (case getProcessTree qt fs fuel proc (runtime w) of None \<Rightarrow> None
      | Some (ptree, c) \<Rightarrow>
          Some (s\<lparr>tasks := sorted_list_of_set (getAllTasks ptree)\<rparr>, w\<lparr>runtime := c\<rparr>)))"

fun slot_loop :: "(int \<Rightarrow> 'a strategy_scheme \<times> world \<Rightarrow> ('a strategy_scheme \<times> world) option) \<Rightarrow>
    int list \<Rightarrow> 'a strategy_scheme \<times> world \<Rightarrow> ('a strategy_scheme \<times> world) option" where
  "slot_loop slot [] sw = Some sw"
| "slot_loop slot (tid # tids) sw =
     (case slot tid sw of None \<Rightarrow> None | Some sw \<Rightarrow> slot_loop slot tids sw)"

text \<open>
  The timer's slot compares the tasks before and after the refresh. The two virtual slots are
  arguments, and so is the order in which a \<open>QSet\<close> is iterated.
\<close>

definition slot_timer ::
  "(int set \<Rightarrow> int list) \<Rightarrow> qt_conv \<Rightarrow> procfs \<Rightarrow> nat \<Rightarrow> observed_process \<Rightarrow>
    (int \<Rightarrow> 'a strategy_scheme \<times> world \<Rightarrow> ('a strategy_scheme \<times> world) option) \<Rightarrow>
    (int \<Rightarrow> 'a strategy_scheme \<times> world \<Rightarrow> ('a strategy_scheme \<times> world) option) \<Rightarrow>
    'a strategy_scheme \<times> world \<Rightarrow> ('a strategy_scheme \<times> world) option" where
  "slot_timer order qt fs fuel proc created terminated = (\<lambda>(s, w).
     (let old_tasks = set (tasks s) in
      case refreshTasks qt fs fuel proc (s, w) of None \<Rightarrow> None
      | Some (s, w) \<Rightarrow>
          let new_tasks = set (tasks s) in
          case slot_loop terminated (order (old_tasks - new_tasks)) (s, w) of None \<Rightarrow> None
          | Some sw \<Rightarrow> slot_loop created (order (new_tasks - old_tasks)) sw))"

fun cpu_scan :: "Task \<Rightarrow> Pinning \<Rightarrow> int \<Rightarrow> int" where
  "cpu_scan t [] cpu = -1"
| "cpu_scan t (x # xs) cpu = (if t = x then cpu else cpu_scan t xs (cpu + 1))"

definition getCpuByTask :: "observed_process \<Rightarrow> int \<Rightarrow> world \<Rightarrow> int" where
  "getCpuByTask proc tid w = cpu_scan \<lparr>t_pid = op_pid proc, t_tid = tid\<rparr> (pinning w) 0"

text \<open>The interval option, read in the same way by the strategies noop, compact and scatter.\<close>

definition init_interval ::
  "qt_conv \<Rightarrow> string_map \<Rightarrow> QString \<Rightarrow> 'a strategy_scheme \<times> world \<Rightarrow> bool \<times> 'a strategy_scheme \<times> world" where
  "init_interval qt config name = (\<lambda>(s, w).
     (if configOptionExists config (name @ ''.interval'') > 0 then
        case readInt qt (getConfigOption config (name @ ''.interval'') 0) of
          Some v \<Rightarrow> (True, s\<lparr>interval := v\<rparr>, w)
        | None \<Rightarrow> (False, s, wreport BAD_CONFIG ''option_format'' w)
      else (True, s, w)))"

definition strategy_getConfigOpts :: "'a strategy_scheme \<Rightarrow> configopts" where
  "strategy_getConfigOpts s = [(''interval'', [number (interval s)])]"

subsection \<open>The effect of \<open>changePinning\<close>\<close>

text \<open>A CPU occupied by another process, the CPUs a strategy repins, and the calls it makes for them.\<close>

definition foreign :: "int \<Rightarrow> Task \<Rightarrow> bool" where
  "foreign p t \<longleftrightarrow> t \<noteq> emptyTask \<and> t_pid t \<noteq> p"

definition repins :: "int \<Rightarrow> Pinning \<Rightarrow> Pinning \<Rightarrow> nat \<Rightarrow> bool" where
  "repins p new old i \<longleftrightarrow> new ! i \<noteq> old ! i \<and> \<not> foreign p (old ! i)"

definition repin_calls :: "int \<Rightarrow> Pinning \<Rightarrow> Pinning \<Rightarrow> nat \<Rightarrow> affinity_calls" where
  "repin_calls p new old n = map (\<lambda>i. (t_tid (new ! i), int i)) (filter (repins p new old) [0..<n])"

text \<open>Whether the call for CPU \<open>i\<close> succeeds, after the calls \<open>cs\<close> and those for the CPUs before it.\<close>

definition repin_ok :: "affinity_oracle \<Rightarrow> affinity_calls \<Rightarrow> int \<Rightarrow> Pinning \<Rightarrow> Pinning \<Rightarrow> nat \<Rightarrow> bool" where
  "repin_ok aff cs p new old i \<longleftrightarrow> aff (cs @ repin_calls p new old i) (t_tid (new ! i)) (int i) = 0"

definition slot_reports ::
  "affinity_oracle \<Rightarrow> affinity_calls \<Rightarrow> int \<Rightarrow> Pinning \<Rightarrow> Pinning \<Rightarrow> nat \<Rightarrow> error_pair list" where
  "slot_reports aff cs p new old i =
     (if new ! i \<noteq> old ! i \<and> foreign p (old ! i) then [(STRATEGY, ''wrong_cpu'')]
      else if repins p new old i \<and> \<not> repin_ok aff cs p new old i then [(STRATEGY, ''set_affinity'')]
      else [])"

definition repinned :: "affinity_oracle \<Rightarrow> affinity_calls \<Rightarrow> int \<Rightarrow> Pinning \<Rightarrow> Pinning \<Rightarrow> nat \<Rightarrow> Task" where
  "repinned aff cs p new old i =
     (if repins p new old i \<and> repin_ok aff cs p new old i then new ! i else old ! i)"

lemma change_loop_append:
  "change_loop aff p new (is @ js) w =
     (case change_loop aff p new is w of None \<Rightarrow> None | Some w \<Rightarrow> change_loop aff p new js w)"
  by (induction "is" arbitrary: w) (auto split: option.splits)

lemma isError_STRATEGY:
  "fatal STRATEGY ''wrong_cpu''" "\<not> fatal STRATEGY ''set_affinity''"
  by (simp_all add: fatal_def fatal_reports_def)

text \<open>The world after the iterations for the CPUs below \<open>n\<close>.\<close>

definition changed_upto :: "affinity_oracle \<Rightarrow> int \<Rightarrow> Pinning \<Rightarrow> world \<Rightarrow> nat \<Rightarrow> world \<Rightarrow> bool" where
  "changed_upto aff p new w n w' \<longleftrightarrow>
     affinity_calls w' = affinity_calls w @ repin_calls p new (pinning w) n \<and>
     length (pinning w') = length (pinning w) \<and>
     (\<forall>i<length (pinning w). pinning w' ! i =
        (if i < n then repinned aff (affinity_calls w) p new (pinning w) i else pinning w ! i)) \<and>
     errors (err (runtime w')) = errors (err (runtime w)) @
       concat (map (slot_reports aff (affinity_calls w) p new (pinning w)) [0..<n]) \<and>
     (isError (runtime w') \<longleftrightarrow> isError (runtime w) \<or>
        (\<exists>i<n. new ! i \<noteq> pinning w ! i \<and> foreign p (pinning w ! i)))"

text \<open>One iteration, in terms of the pinning and the calls the loop started with.\<close>

lemma change_step_outcome:
  assumes "n < length (pinning v)" and "n < length new" and "pinning v ! n = old ! n"
    and "affinity_calls v = cs @ repin_calls p new old n"
  shows "change_step aff p new n v = Some (
      if new ! n \<noteq> old ! n \<and> foreign p (old ! n) then wreport STRATEGY ''wrong_cpu'' v
      else if repins p new old n then
        (let u = v\<lparr>affinity_calls := affinity_calls v @ [(t_tid (new ! n), int n)]\<rparr> in
         if repin_ok aff cs p new old n then u\<lparr>pinning := (pinning u)[n := new ! n]\<rparr>
         else wreport STRATEGY ''set_affinity'' u)
      else v)"
  using assms by (auto simp: change_step_def isCpuFree_def foreign_def repins_def repin_ok_def setAffinity_def Let_def)

lemma changed_upto_step:
  assumes "changed_upto aff p new w n v" and "n < length (pinning w)" and "length new = length (pinning w)"
  shows "\<exists>v'. change_step aff p new n v = Some v' \<and> changed_upto aff p new w (Suc n) v'"
proof -
  let ?old = "pinning w" and ?cs = "affinity_calls w"
  note upto = assms(1)[unfolded changed_upto_def]
  have more: "repin_calls p new ?old (Suc n) = repin_calls p new ?old n @
      (if repins p new ?old n then [(t_tid (new ! n), int n)] else [])"
    by (simp add: repin_calls_def)
  have step: "change_step aff p new n v = Some (
      if new ! n \<noteq> ?old ! n \<and> foreign p (?old ! n) then wreport STRATEGY ''wrong_cpu'' v
      else if repins p new ?old n then
        (let u = v\<lparr>affinity_calls := affinity_calls v @ [(t_tid (new ! n), int n)]\<rparr> in
         if repin_ok aff ?cs p new ?old n then u\<lparr>pinning := (pinning u)[n := new ! n]\<rparr>
         else wreport STRATEGY ''set_affinity'' u)
      else v)"
    by (rule change_step_outcome) (use upto assms(2,3) in auto)
  note defs = changed_upto_def slot_reports_def repinned_def repins_def wreport_def isError_STRATEGY more less_Suc_eq
    nth_list_update Let_def
  consider (foreign) "new ! n \<noteq> ?old ! n" "foreign p (?old ! n)"
    | (ok) "repins p new ?old n" "repin_ok aff ?cs p new ?old n"
    | (failed) "repins p new ?old n" "\<not> repin_ok aff ?cs p new ?old n"
    | (same) "new ! n = ?old ! n"
    by (auto simp: repins_def)
  then show ?thesis using upto assms(2) unfolding step by cases (auto simp: defs)
qed

lemma change_loop_effect:
  assumes "length new = length (pinning w)" and "n \<le> length (pinning w)"
  shows "\<exists>w'. change_loop aff p new [0..<n] w = Some w' \<and> changed_upto aff p new w n w'"
  using assms(2)
proof (induction n)
  case 0
  then show ?case by (simp add: changed_upto_def repin_calls_def)
next
  case (Suc n)
  then obtain v where v: "change_loop aff p new [0..<n] w = Some v" "changed_upto aff p new w n v" by auto
  from changed_upto_step[OF v(2) _ assms(1)] Suc.prems obtain v' where
    v': "change_step aff p new n v = Some v'" "changed_upto aff p new w (Suc n) v'" by auto
  have "change_loop aff p new ([0..<n] @ [n]) w = Some v'" by (simp add: change_loop_append v v')
  with v'(2) show ?case by auto
qed

lemma changePinning_outcome:
  assumes "getPinning (pinning w) s = Some (new, s')" and "length new = length (pinning w)"
  shows "\<exists>w'. changePinning getPinning aff proc (s, w) = Some (s', w') \<and>
    affinity_calls w' = affinity_calls w @ repin_calls (op_pid proc) new (pinning w) (length (pinning w)) \<and>
    pinning w' = map (repinned aff (affinity_calls w) (op_pid proc) new (pinning w)) [0..<length (pinning w)] \<and>
    (\<forall>i<length (pinning w). foreign (op_pid proc) (pinning w ! i) \<longrightarrow> pinning w' ! i = pinning w ! i) \<and>
    errors (err (runtime w')) = errors (err (runtime w)) @
      concat (map (slot_reports aff (affinity_calls w) (op_pid proc) new (pinning w)) [0..<length (pinning w)]) \<and>
    (isError (runtime w') \<longleftrightarrow> isError (runtime w) \<or>
       (\<exists>i<length (pinning w). new ! i \<noteq> pinning w ! i \<and> foreign (op_pid proc) (pinning w ! i)))"
proof -
  obtain w' where w': "change_loop aff (op_pid proc) new [0..<length (pinning w)] w = Some w'"
    "affinity_calls w' = affinity_calls w @ repin_calls (op_pid proc) new (pinning w) (length (pinning w))"
    "length (pinning w') = length (pinning w)"
    "\<forall>i<length (pinning w). pinning w' ! i = repinned aff (affinity_calls w) (op_pid proc) new (pinning w) i"
    "errors (err (runtime w')) = errors (err (runtime w)) @
      concat (map (slot_reports aff (affinity_calls w) (op_pid proc) new (pinning w)) [0..<length (pinning w)])"
    "isError (runtime w') \<longleftrightarrow> isError (runtime w) \<or>
       (\<exists>i<length (pinning w). new ! i \<noteq> pinning w ! i \<and> foreign (op_pid proc) (pinning w ! i))"
    using change_loop_effect[OF assms(2) order_refl, of aff "op_pid proc"] by (auto simp: changed_upto_def)
  have "pinning w' = map (repinned aff (affinity_calls w) (op_pid proc) new (pinning w)) [0..<length (pinning w)]"
    using w'(3,4) by (auto intro: nth_equalityI)
  moreover have "changePinning getPinning aff proc (s, w) = Some (s', w')"
    using assms(1) w'(1) by (simp add: changePinning_def)
  moreover have "\<forall>i<length (pinning w). foreign (op_pid proc) (pinning w ! i) \<longrightarrow> pinning w' ! i = pinning w ! i"
    using w'(4) by (simp add: repinned_def repins_def)
  ultimately show ?thesis using w'(2,5,6) by blast
qed

text \<open>
  C2. What \<open>changePinning\<close> does, for any pinning of the right length that \<open>getPinning\<close> proposes: it
  returns; \<open>sched_setaffinity\<close> is called, in CPU order, exactly for the CPUs whose task changes and
  which are free or occupied by this process; such a CPU gets its new task exactly when the call
  succeeds and every other CPU keeps its task, so a CPU of another process is never touched; each
  attempt at one is reported, as is each failed call, in CPU order and nothing else; and the
  context enters the error state exactly when there was such an attempt.
\<close>

theorem changePinning_effect:
  assumes "getPinning (pinning w) s = Some (new, s')" and "length new = length (pinning w)"
  shows "\<exists>w'. changePinning getPinning aff proc (s, w) = Some (s', w') \<and>
    affinity_calls w' = affinity_calls w @ repin_calls (op_pid proc) new (pinning w) (length (pinning w)) \<and>
    pinning w' = map (repinned aff (affinity_calls w) (op_pid proc) new (pinning w)) [0..<length (pinning w)] \<and>
    (\<forall>i<length (pinning w). foreign (op_pid proc) (pinning w ! i) \<longrightarrow> pinning w' ! i = pinning w ! i) \<and>
    errors (err (runtime w')) = errors (err (runtime w)) @
      concat (map (slot_reports aff (affinity_calls w) (op_pid proc) new (pinning w)) [0..<length (pinning w)]) \<and>
    (isError (runtime w') \<longleftrightarrow> isError (runtime w) \<or>
       (\<exists>i<length (pinning w). new ! i \<noteq> pinning w ! i \<and> foreign (op_pid proc) (pinning w ! i)))"
  by (rule changePinning_outcome[of getPinning w s new s' aff proc, OF assms])

theorem changePinning_effect_witness:
  "\<exists>w'. changePinning (\<lambda>_ s. Some ([\<lparr>t_pid = 7, t_tid = 8\<rparr>, \<lparr>t_pid = 7, t_tid = 9\<rparr>], s)) (\<lambda>_ _ _. 0) demo_op
       (ControlStrategy_new, \<lparr>pinning = [emptyTask, \<lparr>t_pid = 5, t_tid = 5\<rparr>], affinity_calls = [],
          runtime = AutopinContext_new ''w''\<rparr>) = Some (ControlStrategy_new, w') \<and>
     pinning w' ! 1 = \<lparr>t_pid = 5, t_tid = 5\<rparr> \<and> isError (runtime w')"
  using changePinning_effect[of "\<lambda>_ s. Some ([\<lparr>t_pid = 7, t_tid = 8\<rparr>, \<lparr>t_pid = 7, t_tid = 9\<rparr>], s)"
      "\<lparr>pinning = [emptyTask, \<lparr>t_pid = 5, t_tid = 5\<rparr>], affinity_calls = [], runtime = AutopinContext_new ''w''\<rparr>"
      ControlStrategy_new _ ControlStrategy_new "\<lambda>_ _ _. 0" demo_op]
  by (fastforce simp: foreign_def emptyTask_def demo_op_def ObservedProcess_new_def)

subsection \<open>The contract of a strategy\<close>

text \<open>
  What the header of \<open>getPinning\<close> asks of a strategy, in the form all strategies here have: it
  proposes the current pinning, with at most one free CPU given to the task the strategy is
  placing.
\<close>

definition pinned_once :: "Pinning \<Rightarrow> bool" where
  "pinned_once pins \<longleftrightarrow> (\<forall>i<length pins. \<forall>j<length pins. pins ! i = pins ! j \<longrightarrow> i = j \<or> pins ! i = emptyTask)"

lemma pinned_once_update:
  assumes "pinned_once pins" and "t \<notin> set pins"
  shows "pinned_once (pins[i := t])"
proof -
  have "pins ! k \<noteq> t" if "k < length pins" for k using assms(2) that by auto
  then show ?thesis using assms(1) by (fastforce simp: pinned_once_def nth_update)
qed

lemma pinned_once_clear: "pinned_once pins \<Longrightarrow> pinned_once (pins[i := emptyTask])"
  by (fastforce simp: pinned_once_def nth_update)

lemma change_loop_equal:
  assumes "\<forall>i\<in>set is. i < length (pinning w) \<and> i < length new \<and> new ! i = pinning w ! i"
  shows "change_loop aff p new is w = Some w"
  using assms by (induction "is") (auto simp: change_step_def)

lemma change_loop_same: "change_loop aff p (pinning w) [0..<length (pinning w)] w = Some w"
  by (rule change_loop_equal) simp

text \<open>A proposal that gives one free CPU to a task: one call, and the CPU is taken if it succeeds.\<close>

definition place_task :: "affinity_oracle \<Rightarrow> Task \<Rightarrow> nat \<Rightarrow> world \<Rightarrow> world" where
  "place_task aff t i w =
     (let (ret, w) = setAffinity aff (t_tid t) (int i) w in
      if ret \<noteq> 0 then wreport STRATEGY ''set_affinity'' w else w\<lparr>pinning := (pinning w)[i := t]\<rparr>)"

lemma place_task_simps [pin_simps]:
  "pinning (place_task aff t i w) =
     (if aff (affinity_calls w) (t_tid t) (int i) = 0 then (pinning w)[i := t] else pinning w)"
  "affinity_calls (place_task aff t i w) = affinity_calls w @ [(t_tid t, int i)]"
  "isError (runtime (place_task aff t i w)) \<longleftrightarrow> isError (runtime w)"
  "aff (affinity_calls w) (t_tid t) (int i) = 0 \<Longrightarrow> runtime (place_task aff t i w) = runtime w"
  by (simp_all add: place_task_def setAffinity_def wreport_def isError_STRATEGY)

lemma change_loop_single:
  assumes "i < length (pinning w)" and "pinning w ! i = emptyTask" and "t \<noteq> emptyTask"
  shows "change_loop aff p ((pinning w)[i := t]) [0..<length (pinning w)] w = Some (place_task aff t i w)"
proof -
  let ?new = "(pinning w)[i := t]" and ?n = "length (pinning w)"
  have split: "[0..<?n] = [0..<i] @ i # [Suc i..<?n]"
    using assms(1) upt_add_eq_append[of 0 i "?n - i"] by (simp add: upt_conv_Cons)
  have before: "change_loop aff p ?new [0..<i] w = Some w"
    using assms(1) by (intro change_loop_equal) auto
  have "change_step aff p ?new i w = Some (place_task aff t i w)"
    using assms by (auto simp: change_step_def place_task_def setAffinity_def isCpuFree_def)
  moreover have "change_loop aff p ?new [Suc i..<?n] (place_task aff t i w) = Some (place_task aff t i w)"
    by (intro change_loop_equal) (auto simp: pin_simps)
  ultimately show ?thesis by (simp add: split change_loop_append before)
qed

text \<open>What a slot of the strategy of process \<open>p\<close> leaves alone: the CPUs of other processes and the error state.\<close>

definition leaves_others :: "int \<Rightarrow> world \<Rightarrow> world \<Rightarrow> bool" where
  "leaves_others p w w' \<longleftrightarrow> length (pinning w') = length (pinning w) \<and>
     (\<forall>i<length (pinning w). foreign p (pinning w ! i) \<longrightarrow> pinning w' ! i = pinning w ! i) \<and>
     (isError (runtime w') \<longleftrightarrow> isError (runtime w))"

lemma leaves_others_trans: "leaves_others p w w1 \<Longrightarrow> leaves_others p w1 w2 \<Longrightarrow> leaves_others p w w2"
  by (simp add: leaves_others_def)

lemma leaves_others_clear:
  "leaves_others p w (w\<lparr>pinning := find_assign \<lparr>t_pid = p, t_tid = tid\<rparr> emptyTask (pinning w)\<rparr>)"
proof -
  have "find_assign \<lparr>t_pid = p, t_tid = tid\<rparr> emptyTask (pinning w) ! i = pinning w ! i"
    if "i < length (pinning w)" "foreign p (pinning w ! i)" for i
    using find_assign_nth[OF that(1), of "\<lparr>t_pid = p, t_tid = tid\<rparr>" emptyTask] that(2) by (auto simp: foreign_def)
  then show ?thesis by (simp add: leaves_others_def)
qed

locale placing_strategy =
  fixes getPinning :: "'a get_pinning"
    and p :: int
    and placing :: "'a strategy_scheme \<Rightarrow> int"
  assumes proposal: "getPinning old s = Some (new, s') \<Longrightarrow>
    new = old \<or> (\<exists>i<length old. old ! i = emptyTask \<and> new = old[i := \<lparr>t_pid = p, t_tid = placing s\<rparr>])"
    and idle: "placing s = 0 \<Longrightarrow> getPinning old s = Some (old, s)"
    and placing_tasks: "placing (s\<lparr>tasks := ts\<rparr>) = placing s"
begin

lemma proposal_length: "getPinning old s = Some (new, s') \<Longrightarrow> length new = length old"
  using proposal by fastforce

text \<open>A placing strategy takes nobody's CPU: it makes at most one call and is never fatal.\<close>

lemma change_outcome:
  assumes "op_pid proc = p" and g: "getPinning (pinning w) s = Some (new, s')"
  shows "\<exists>w'. changePinning getPinning aff proc (s, w) = Some (s', w') \<and>
    (w' = w \<and> new = pinning w \<or>
     (\<exists>i<length (pinning w). pinning w ! i = emptyTask \<and> new = (pinning w)[i := \<lparr>t_pid = p, t_tid = placing s\<rparr>] \<and>
        w' = place_task aff \<lparr>t_pid = p, t_tid = placing s\<rparr> i w))"
proof (cases "new = pinning w")
  case True
  then show ?thesis using g by (auto simp: changePinning_def change_loop_same)
next
  case False
  let ?t = "\<lparr>t_pid = p, t_tid = placing s\<rparr>"
  from proposal[OF g] False obtain i where i: "i < length (pinning w)" "pinning w ! i = emptyTask"
    and new: "new = (pinning w)[i := ?t]" by auto
  with False have t: "?t \<noteq> emptyTask" by (metis list_update_id)
  then show ?thesis
    using g assms(1) i change_loop_single[OF i t, of aff p] by (auto simp: changePinning_def new)
qed

lemma change_effect_cases:
  assumes "op_pid proc = p" and "changePinning getPinning aff proc (s, w) = Some (s', w')"
  shows "w' = w \<or> (\<exists>i<length (pinning w). pinning w ! i = emptyTask \<and>
    w' = place_task aff \<lparr>t_pid = p, t_tid = placing s\<rparr> i w)"
proof -
  obtain new s'' where g: "getPinning (pinning w) s = Some (new, s'')"
    using assms(2) by (auto simp: changePinning_def split: option.splits)
  from change_outcome[OF assms(1) g, of aff] assms(2) show ?thesis by auto
qed

lemma change_not_fatal:
  assumes "op_pid proc = p" and "changePinning getPinning aff proc (s, w) = Some (s', w')"
  shows "isError (runtime w') \<longleftrightarrow> isError (runtime w)"
  using change_effect_cases[OF assms] by (auto simp: pin_simps)

lemma change_keeps_pinned_once:
  assumes "op_pid proc = p" and "changePinning getPinning aff proc (s, w) = Some (s', w')"
    and "pinned_once (pinning w)" and "\<lparr>t_pid = p, t_tid = placing s\<rparr> \<notin> set (pinning w)"
  shows "pinned_once (pinning w')"
  using change_effect_cases[OF assms(1,2)] pinned_once_update[OF assms(3,4)] assms(3)
  by (auto simp: pin_simps)

text \<open>A CPU that is taken keeps its task.\<close>

lemma change_isolated:
  assumes "op_pid proc = p" and "changePinning getPinning aff proc (s, w) = Some (s', w')"
    and "pinning w ! i \<noteq> emptyTask"
  shows "pinning w' ! i = pinning w ! i"
  using change_effect_cases[OF assms(1,2)] assms(3)
  by (auto simp: pin_simps nth_update)

lemma change_length:
  assumes "op_pid proc = p" and "changePinning getPinning aff proc (s, w) = Some (s', w')"
  shows "length (pinning w') = length (pinning w)"
  using change_effect_cases[OF assms] by (auto simp: pin_simps)

lemma change_leaves_others:
  assumes "op_pid proc = p" and "changePinning getPinning aff proc (s, w) = Some (s', w')"
  shows "leaves_others p w w'"
  using change_isolated[OF assms] change_length[OF assms] change_not_fatal[OF assms]
  by (auto simp: leaves_others_def foreign_def)

lemma created_leaves_others:
  assumes "op_pid proc = p" and "slot_TaskCreated getPinning aff proc tid (s, w) = Some (s', w')"
  shows "leaves_others p w w'"
  using assms change_leaves_others[OF assms(1)] by (auto simp: slot_TaskCreated_def)

lemma terminated_leaves_others:
  assumes "op_pid proc = p" and "slot_TaskTerminated getPinning aff proc tid (s, w) = Some (s', w')"
  shows "leaves_others p w w'"
proof (rule leaves_others_trans[OF leaves_others_clear])
  show "leaves_others p (w\<lparr>pinning := find_assign \<lparr>t_pid = p, t_tid = tid\<rparr> emptyTask (pinning w)\<rparr>) w'"
    using assms by (intro change_leaves_others[OF assms(1)]) (auto simp: slot_TaskTerminated_def Let_def)
qed

text \<open>With nothing to place, a terminated task only gives up its CPU.\<close>

lemma terminated_eq:
  assumes "op_pid proc = p" and "placing s = 0"
  shows "slot_TaskTerminated getPinning aff proc tid (s, w) =
    Some (s\<lparr>tasks := remove1 tid (tasks s)\<rparr>,
      w\<lparr>pinning := find_assign \<lparr>t_pid = p, t_tid = tid\<rparr> emptyTask (pinning w)\<rparr>)"
proof -
  let ?w = "w\<lparr>pinning := find_assign \<lparr>t_pid = p, t_tid = tid\<rparr> emptyTask (pinning w)\<rparr>"
  have "change_loop aff p (pinning ?w) [0..<length (pinning w)] ?w = Some ?w"
    using change_loop_same[of aff p ?w] by simp
  then show ?thesis
    using assms idle[of "s\<lparr>tasks := remove1 tid (tasks s)\<rparr>"]
    by (simp add: slot_TaskTerminated_def changePinning_def placing_tasks Let_def)
qed

end

lemma find_assign_pinned_once:
  assumes "pinned_once pins" and "t \<in> set pins" and "t \<noteq> emptyTask"
  shows "\<exists>i<length pins. pins ! i = t \<and> find_assign t emptyTask pins = pins[i := emptyTask]"
proof -
  obtain i where i: "i < length pins" "pins ! i = t" using assms(2) by (auto simp: in_set_conv_nth)
  moreover have "j = i" if "j < length pins" "pins ! j = t" for j
    using assms(1,3) i that unfolding pinned_once_def by metis
  ultimately show ?thesis using find_assign_unique[of i pins t emptyTask] by blast
qed

lemma pinned_once_find_assign: "pinned_once pins \<Longrightarrow> pinned_once (find_assign t emptyTask pins)"
  using find_assign_pinned_once[of pins t] pinned_once_clear
  by (cases "t \<in> set pins"; cases "t = emptyTask")
     (auto simp: find_assign_absent)

interpretation base: placing_strategy base_getPinning p "\<lambda>_. 0" for p
  by unfold_locales (auto simp: base_getPinning_def)

end
