(* ===== verification/Performance_Monitor.thy ===== *)
theory Performance_Monitor
  imports Configuration Process_Tree
begin

text \<open>
  \<open>src/AutopinPlus/PerformanceMonitor.cpp\<close>: the base class of the monitors. The virtual functions
  of a monitor are the record \<open>monitor_ops\<close> over the state of the derived class and the runtime
  context; the functions of the base class that work on sets of tasks take it as an argument. The
  locale \<open>task_monitor\<close> is what the strategies rely on.
\<close>

datatype montype = MAX_type | MIN_type | UNKNOWN_type

type_synonym autopin_measurements = "int \<rightharpoonup> double"

record 'm monitor_ops =
  op_start :: "int \<Rightarrow> 'm \<times> apcontext \<Rightarrow> 'm \<times> apcontext"
  op_value :: "int \<Rightarrow> 'm \<times> apcontext \<Rightarrow> double \<times> 'm \<times> apcontext"
  op_stop :: "int \<Rightarrow> 'm \<times> apcontext \<Rightarrow> double \<times> 'm \<times> apcontext"
  op_clear :: "int \<Rightarrow> 'm \<times> apcontext \<Rightarrow> 'm \<times> apcontext"
  op_getMonitoredTasks :: "'m \<Rightarrow> autopin_tid_list"

subsection \<open>Operations on sets of tasks\<close>

definition start_tasks :: "'m monitor_ops \<Rightarrow> autopin_tid_list \<Rightarrow> 'm \<times> apcontext \<Rightarrow> 'm \<times> apcontext" where
  "start_tasks ops tids mc = fold (op_start ops) (sorted_list_of_set tids) mc"

text \<open>The loop of \<open>value\<close> and \<open>stop\<close>: it is left with what there is when an error has occurred.\<close>

fun measure_loop ::
  "(int \<Rightarrow> 'm \<times> apcontext \<Rightarrow> double \<times> 'm \<times> apcontext) \<Rightarrow> int list \<Rightarrow> autopin_measurements \<Rightarrow> 'm \<times> apcontext \<Rightarrow>
    autopin_measurements \<times> 'm \<times> apcontext" where
  "measure_loop f [] result mc = (result, mc)"
| "measure_loop f (task # tids) result mc =
     (let (v, mc) = f task mc
      in if isError (snd mc) then (result, mc)
         else measure_loop f tids (if result task = None then result(task \<mapsto> v) else result) mc)"

definition value_tasks ::
  "'m monitor_ops \<Rightarrow> autopin_tid_list \<Rightarrow> 'm \<times> apcontext \<Rightarrow> autopin_measurements \<times> 'm \<times> apcontext" where
  "value_tasks ops tids mc = measure_loop (op_value ops) (sorted_list_of_set tids) Map.empty mc"

definition stop_tasks ::
  "'m monitor_ops \<Rightarrow> autopin_tid_list \<Rightarrow> 'm \<times> apcontext \<Rightarrow> autopin_measurements \<times> 'm \<times> apcontext" where
  "stop_tasks ops tids mc = measure_loop (op_stop ops) (sorted_list_of_set tids) Map.empty mc"

definition clear_tasks :: "'m monitor_ops \<Rightarrow> autopin_tid_list \<Rightarrow> 'm \<times> apcontext \<Rightarrow> 'm \<times> apcontext" where
  "clear_tasks ops tids mc = fold (op_clear ops) (sorted_list_of_set tids) mc"

definition stop_all :: "'m monitor_ops \<Rightarrow> 'm \<times> apcontext \<Rightarrow> autopin_measurements \<times> 'm \<times> apcontext" where
  "stop_all ops mc = stop_tasks ops (op_getMonitoredTasks ops (fst mc)) mc"

definition clear_all :: "'m monitor_ops \<Rightarrow> 'm \<times> apcontext \<Rightarrow> 'm \<times> apcontext" where
  "clear_all ops mc = clear_tasks ops (op_getMonitoredTasks ops (fst mc)) mc"

subsection \<open>The type of a monitor as text\<close>

definition lower :: "char \<Rightarrow> char" where
  "lower c = (if (65::nat) \<le> of_char c \<and> of_char c \<le> (90::nat) then char_of (of_char c + (32::nat)) else c)"

definition toLower :: "QString \<Rightarrow> QString" where
  "toLower s = map lower s"

definition readMontype :: "QString \<Rightarrow> montype option" where
  "readMontype s =
     (if toLower s = ''max'' then Some MAX_type
      else if toLower s = ''min'' then Some MIN_type
      else if toLower s = ''unknown'' then Some UNKNOWN_type
      else None)"

fun showMontype :: "montype \<Rightarrow> QString" where
  "showMontype MAX_type = ''MAX''"
| "showMontype MIN_type = ''MIN''"
| "showMontype UNKNOWN_type = ''UNKNOWN''"

subsection \<open>The contract of a monitor\<close>

text \<open>
  What every monitor promises about the set of tasks it watches, as long as no error is reported. An
  operation never clears the error state.
\<close>

locale task_set_monitor =
  fixes ops :: "'m monitor_ops"
    and inv :: "'m \<Rightarrow> bool"
  assumes set_started: "inv m \<Longrightarrow> op_start ops t (m, c) = (m', c') \<Longrightarrow> inv m' \<and>
      (\<not> isError c' \<longrightarrow> \<not> isError c \<and> op_getMonitoredTasks ops m' = insert t (op_getMonitoredTasks ops m))"
    and set_valued: "inv m \<Longrightarrow> op_value ops t (m, c) = (v, m', c') \<Longrightarrow> inv m' \<and>
      (\<not> isError c' \<longrightarrow> \<not> isError c \<and> t \<in> op_getMonitoredTasks ops m \<and> op_getMonitoredTasks ops m' = op_getMonitoredTasks ops m)"
    and set_stopped: "inv m \<Longrightarrow> op_stop ops t (m, c) = (v, m', c') \<Longrightarrow> inv m' \<and>
      (\<not> isError c' \<longrightarrow> \<not> isError c \<and> op_getMonitoredTasks ops m' = op_getMonitoredTasks ops m - {t})"
    and set_cleared: "inv m \<Longrightarrow> op_clear ops t (m, c) = (m', c') \<Longrightarrow> inv m' \<and>
      (\<not> isError c' \<longrightarrow> \<not> isError c \<and> op_getMonitoredTasks ops m' = op_getMonitoredTasks ops m - {t})"
    and set_finite: "inv m \<Longrightarrow> finite (op_getMonitoredTasks ops m)"
begin

lemma set_start_fold:
  assumes "inv m" and "fold (op_start ops) ts (m, c) = (m', c')"
  shows "inv m' \<and> (\<not> isError c' \<longrightarrow> \<not> isError c \<and> op_getMonitoredTasks ops m' = set ts \<union> op_getMonitoredTasks ops m)"
  using assms
proof (induction ts arbitrary: m c)
  case Nil
  then show ?case by simp
next
  case (Cons t ts)
  obtain m1 c1 where m1: "op_start ops t (m, c) = (m1, c1)" by fastforce
  from set_started[OF Cons.prems(1) m1] Cons.IH[of m1 c1] Cons.prems(2) m1 show ?case by auto
qed

lemma set_start_tasks:
  assumes "inv m" and "finite tids" and "start_tasks ops tids (m, c) = (m', c')" and "\<not> isError c'"
  shows "inv m' \<and> op_getMonitoredTasks ops m' = tids \<union> op_getMonitoredTasks ops m"
  using set_start_fold[of m "sorted_list_of_set tids" c m' c'] assms by (simp add: start_tasks_def)

lemma set_stop_loop:
  assumes "inv m" and "measure_loop (op_stop ops) ts result (m, c) = (result', m', c')" and "\<not> isError c'"
  shows "inv m' \<and> dom result' = set ts \<union> dom result \<and> op_getMonitoredTasks ops m' = op_getMonitoredTasks ops m - set ts"
  using assms
proof (induction ts arbitrary: m c result)
  case Nil
  then show ?case by simp
next
  case (Cons t ts)
  obtain v m1 c1 where m1: "op_stop ops t (m, c) = (v, m1, c1)" by (metis prod_cases3)
  from set_stopped[OF Cons.prems(1) m1] have inv: "inv m1" by blast
  from Cons.prems(2,3) m1 have e: "\<not> isError c1" by (auto split: if_splits)
  from set_stopped[OF Cons.prems(1) m1] e
  have "op_getMonitoredTasks ops m1 = op_getMonitoredTasks ops m - {t}" by blast
  moreover have "inv m' \<and> dom result' = set ts \<union> dom (if result t = None then result(t \<mapsto> v) else result) \<and>
      op_getMonitoredTasks ops m' = op_getMonitoredTasks ops m1 - set ts"
    using Cons.prems(2,3) m1 e by (intro Cons.IH[OF inv]) auto
  ultimately show ?case by auto
qed

lemma set_stop_all:
  assumes "inv m" and "stop_all ops (m, c) = (result, m', c')" and "\<not> isError c'"
  shows "dom result = op_getMonitoredTasks ops m \<and> op_getMonitoredTasks ops m' = {}"
  using set_stop_loop[of m "sorted_list_of_set (op_getMonitoredTasks ops m)" Map.empty c result m' c'] assms set_finite[OF assms(1)]
  by (simp add: stop_all_def stop_tasks_def)

end

text \<open>
  \<open>measured m t\<close> is what the monitor would report for the task. A monitor knows the tasks that have
  been started; reading or stopping another one is an error.
\<close>

locale task_monitor = task_set_monitor ops inv
  for ops :: "'m monitor_ops"
    and inv :: "'m \<Rightarrow> bool" +
  fixes measured :: "'m \<Rightarrow> int \<Rightarrow> double"
  assumes started: "inv m \<Longrightarrow> op_start ops t (m, c) = (m', c') \<Longrightarrow>
      inv m' \<and> c' = c \<and> op_getMonitoredTasks ops m' = insert t (op_getMonitoredTasks ops m)"
    and valued: "inv m \<Longrightarrow> t \<in> op_getMonitoredTasks ops m \<Longrightarrow> op_value ops t (m, c) = (measured m t, m, c)"
    and stopped: "inv m \<Longrightarrow> t \<in> op_getMonitoredTasks ops m \<Longrightarrow> \<not> isError c \<Longrightarrow>
      \<exists>m'. op_stop ops t (m, c) = (measured m t, m', c) \<and> inv m' \<and>
        op_getMonitoredTasks ops m' = op_getMonitoredTasks ops m - {t} \<and>
        (\<forall>u. u \<noteq> t \<longrightarrow> measured m' u = measured m u)"
    and cleared: "inv m \<Longrightarrow> op_clear ops t (m, c) = (m', c') \<Longrightarrow>
      inv m' \<and> c' = c \<and> op_getMonitoredTasks ops m' = op_getMonitoredTasks ops m - {t}"
    and unknown_task: "inv m \<Longrightarrow> t \<notin> op_getMonitoredTasks ops m \<Longrightarrow>
      isError (snd (snd (op_value ops t (m, c)))) \<and> isError (snd (snd (op_stop ops t (m, c))))"
begin

lemma start_fold:
  "inv m \<Longrightarrow> fold (op_start ops) ts (m, c) = (m', c') \<Longrightarrow>
     inv m' \<and> c' = c \<and> op_getMonitoredTasks ops m' = set ts \<union> op_getMonitoredTasks ops m"
proof (induction ts arbitrary: m c)
  case Nil
  then show ?case by simp
next
  case (Cons t ts)
  obtain m1 c1 where m1: "op_start ops t (m, c) = (m1, c1)" by fastforce
  with Cons show ?case using started[OF Cons.prems(1) m1] by auto
qed

lemma clear_fold:
  "inv m \<Longrightarrow> fold (op_clear ops) ts (m, c) = (m', c') \<Longrightarrow>
     inv m' \<and> c' = c \<and> op_getMonitoredTasks ops m' = op_getMonitoredTasks ops m - set ts"
proof (induction ts arbitrary: m c)
  case Nil
  then show ?case by simp
next
  case (Cons t ts)
  obtain m1 c1 where m1: "op_clear ops t (m, c) = (m1, c1)" by fastforce
  with Cons show ?case using cleared[OF Cons.prems(1) m1] by auto
qed

lemma stop_loop:
  assumes "inv m" and "\<not> isError c" and "distinct ts" and "set ts \<subseteq> op_getMonitoredTasks ops m"
    and "set ts \<inter> dom result = {}"
  shows "\<exists>m'. measure_loop (op_stop ops) ts result (m, c) = (\<lambda>t. if t \<in> set ts then Some (measured m t) else result t, m', c) \<and>
    inv m' \<and> op_getMonitoredTasks ops m' = op_getMonitoredTasks ops m - set ts"
  using assms
proof (induction ts arbitrary: m result)
  case Nil
  then show ?case by auto
next
  case (Cons t ts)
  then obtain m1 where m1: "op_stop ops t (m, c) = (measured m t, m1, c)" "inv m1"
    "op_getMonitoredTasks ops m1 = op_getMonitoredTasks ops m - {t}" "\<forall>u. u \<noteq> t \<longrightarrow> measured m1 u = measured m u"
    using stopped[of m t c] by auto
  have "\<exists>m'. measure_loop (op_stop ops) ts (result(t \<mapsto> measured m t)) (m1, c) =
      (\<lambda>u. if u \<in> set ts then Some (measured m1 u) else (result(t \<mapsto> measured m t)) u, m', c) \<and>
    inv m' \<and> op_getMonitoredTasks ops m' = op_getMonitoredTasks ops m1 - set ts"
    using Cons.prems m1 by (intro Cons.IH) (auto split: if_splits)
  moreover have "result t = None" using Cons.prems(5) by auto
  moreover have "(\<lambda>u. if u \<in> set ts then Some (measured m1 u) else (result(t \<mapsto> measured m t)) u) =
      (\<lambda>u. if u \<in> set (t # ts) then Some (measured m u) else result u)"
    using m1(4) Cons.prems(3) by (auto simp: fun_eq_iff)
  ultimately show ?case using m1 Cons.prems(2) by (auto simp: Let_def)
qed

text \<open>Stopping everything yields one measurement per monitored task and leaves nothing monitored.\<close>

lemma stop_all_eq:
  assumes "inv m" and "\<not> isError c"
  shows "\<exists>m'. stop_all ops (m, c) =
      (\<lambda>t. if t \<in> op_getMonitoredTasks ops m then Some (measured m t) else None, m', c) \<and>
    inv m' \<and> op_getMonitoredTasks ops m' = {}"
  using stop_loop[OF assms, of "sorted_list_of_set (op_getMonitoredTasks ops m)" Map.empty]
    set_finite[OF assms(1)]
  by (auto simp: stop_all_def stop_tasks_def cong: if_cong)

lemma clear_all_eq:
  assumes "inv m" and "clear_all ops (m, c) = (m', c')"
  shows "c' = c \<and> op_getMonitoredTasks ops m' = {}"
  using clear_fold[OF assms(1), of "sorted_list_of_set (op_getMonitoredTasks ops m)" c m' c'] assms
    set_finite[OF assms(1)]
  by (simp add: clear_all_def clear_tasks_def)

lemma start_tasks_eq:
  assumes "inv m" and "finite tids" and "start_tasks ops tids (m, c) = (m', c')"
  shows "inv m' \<and> c' = c \<and> op_getMonitoredTasks ops m' = tids \<union> op_getMonitoredTasks ops m"
  using start_fold[OF assms(1), of "sorted_list_of_set tids" c m' c'] assms(2,3)
  by (simp add: start_tasks_def)

end

lemma toLower_names: "toLower ''MAX'' = ''max''" "toLower ''MIN'' = ''min''" "toLower ''UNKNOWN'' = ''unknown''"
  by code_simp+

text \<open>
  Reading the type of a monitor inverts printing it and ignores case: a text is read as a type
  exactly when both are the same in lower case, and everything else is refused.
\<close>

theorem readMontype_iff: "readMontype s = Some t \<longleftrightarrow> toLower s = toLower (showMontype t)"
  by (cases t) (auto simp: readMontype_def toLower_names)

end
