(* ===== verification/Doubles.thy ===== *)
theory Doubles
  imports Qt_Core
begin

text \<open>
  Arithmetic on \<open>double\<close>. The rounding of an exact result is an argument, \<open>rnd\<close>, which may return
  an infinity; the special values follow IEEE 754. Zero has no sign here (it counts as positive in a
  division), which the sources never depend on.
\<close>

type_synonym rounding = "real \<Rightarrow> double"

fun dneg :: "double \<Rightarrow> double" where
  "dneg NaN = NaN" | "dneg PInf = NInf" | "dneg NInf = PInf" | "dneg (Fin a) = Fin (- a)"

fun dadd :: "rounding \<Rightarrow> double \<Rightarrow> double \<Rightarrow> double" where
  "dadd rnd (Fin a) (Fin b) = rnd (a + b)"
| "dadd rnd NaN b = NaN"
| "dadd rnd a NaN = NaN"
| "dadd rnd PInf NInf = NaN"
| "dadd rnd NInf PInf = NaN"
| "dadd rnd PInf b = PInf"
| "dadd rnd NInf b = NInf"
| "dadd rnd a PInf = PInf"
| "dadd rnd a NInf = NInf"

definition dsub :: "rounding \<Rightarrow> double \<Rightarrow> double \<Rightarrow> double" where
  "dsub rnd a b = dadd rnd a (dneg b)"

definition signed_inf :: "bool \<Rightarrow> double" where
  "signed_inf neg = (if neg then NInf else PInf)"

fun dmul :: "rounding \<Rightarrow> double \<Rightarrow> double \<Rightarrow> double" where
  "dmul rnd (Fin a) (Fin b) = rnd (a * b)"
| "dmul rnd NaN b = NaN"
| "dmul rnd a NaN = NaN"
| "dmul rnd (Fin a) PInf = (if a = 0 then NaN else signed_inf (a < 0))"
| "dmul rnd (Fin a) NInf = (if a = 0 then NaN else signed_inf (\<not> a < 0))"
| "dmul rnd PInf (Fin b) = (if b = 0 then NaN else signed_inf (b < 0))"
| "dmul rnd NInf (Fin b) = (if b = 0 then NaN else signed_inf (\<not> b < 0))"
| "dmul rnd PInf PInf = PInf"
| "dmul rnd PInf NInf = NInf"
| "dmul rnd NInf PInf = NInf"
| "dmul rnd NInf NInf = PInf"

fun ddiv :: "rounding \<Rightarrow> double \<Rightarrow> double \<Rightarrow> double" where
  "ddiv rnd (Fin a) (Fin b) =
     (if b = 0 then if a = 0 then NaN else signed_inf (a < 0) else rnd (a / b))"
| "ddiv rnd NaN b = NaN"
| "ddiv rnd a NaN = NaN"
| "ddiv rnd (Fin a) PInf = Fin 0"
| "ddiv rnd (Fin a) NInf = Fin 0"
| "ddiv rnd PInf (Fin b) = signed_inf (b < 0)"
| "ddiv rnd NInf (Fin b) = signed_inf (\<not> b < 0)"
| "ddiv rnd PInf PInf = NaN"
| "ddiv rnd PInf NInf = NaN"
| "ddiv rnd NInf PInf = NaN"
| "ddiv rnd NInf NInf = NaN"

fun dless :: "double \<Rightarrow> double \<Rightarrow> bool" where
  "dless (Fin a) (Fin b) \<longleftrightarrow> a < b"
| "dless NaN b \<longleftrightarrow> False"
| "dless a NaN \<longleftrightarrow> False"
| "dless NInf b \<longleftrightarrow> b \<noteq> NInf"
| "dless a PInf \<longleftrightarrow> a \<noteq> PInf"
| "dless PInf b \<longleftrightarrow> False"
| "dless a NInf \<longleftrightarrow> False"

lemma dless_irrefl [simp]: "\<not> dless a a"
  by (cases a) auto

lemma dless_NaN [simp]: "\<not> dless NaN a" "\<not> dless a NaN"
  by (cases a; simp)+

lemma dless_trans: "dless a b \<Longrightarrow> dless b c \<Longrightarrow> dless a c"
  by (cases a; cases b; cases c) auto

text \<open>Values that are numbers are comparable.\<close>

lemma dless_linear: "a \<noteq> NaN \<Longrightarrow> b \<noteq> NaN \<Longrightarrow> dless a b \<or> a = b \<or> dless b a"
  by (cases a; cases b) auto

lemma dless_asym: "dless a b \<Longrightarrow> \<not> dless b a"
  using dless_trans by fastforce

lemma not_dless_trans: "b \<noteq> NaN \<Longrightarrow> \<not> dless a b \<Longrightarrow> \<not> dless b c \<Longrightarrow> \<not> dless a c"
  by (cases a; cases b; cases c) auto

end
