(* ===== verification/Random_Monitor.thy ===== *)
theory Random_Monitor
  imports Performance_Monitor Doubles
begin

text \<open>
  \<open>src/AutopinPlus/Monitor/Random/Main.cpp\<close>: a monitor with random measurements. The random numbers
  are an argument: \<open>qrand n\<close> is the result of the \<open>n\<close>-th call; \<open>RAND_MAX\<close> and the rounding of
  floating point results are arguments too.
\<close>

record random =
  monitor_name :: QString
  valtype :: montype
  rand_min :: double
  rand_max :: double
  rands :: "int \<rightharpoonup> double"
  qrand_calls :: nat

definition random_new :: "QString \<Rightarrow> random" where
  "random_new name = \<lparr>monitor_name = name, valtype = UNKNOWN_type, rand_min = Fin 0, rand_max = Fin 0,
     rands = Map.empty, qrand_calls = 0\<rparr>"

definition random_init :: "qt_conv \<Rightarrow> string_map \<Rightarrow> random \<Rightarrow> random" where
  "random_init qt config m =
     (let name = monitor_name m;
          m = m\<lparr>rand_min := Fin 0, rand_max := Fin 1, valtype := MAX_type\<rparr>;
          m = (if configOptionExists config (name @ ''.rand_min'') = 1
               then m\<lparr>rand_min := getConfigOptionDouble qt config (name @ ''.rand_min'') 0\<rparr> else m);
          m = (if configOptionExists config (name @ ''.rand_max'') = 1
               then m\<lparr>rand_max := getConfigOptionDouble qt config (name @ ''.rand_max'') 0\<rparr> else m)
      in if configOptionExists config (name @ ''.valtype'') = 1 then
           if getConfigOption config (name @ ''.valtype'') 0 = ''max'' then m\<lparr>valtype := MAX_type\<rparr>
           else if getConfigOption config (name @ ''.valtype'') 0 = ''min'' then m\<lparr>valtype := MIN_type\<rparr>
           else m\<lparr>valtype := UNKNOWN_type\<rparr>
         else m)"

text \<open>The two bounds are not initialised by the constructor. \<open>numd\<close> is \<open>QString::number(double)\<close>.\<close>

definition random_getConfigOpts :: "(double \<Rightarrow> QString) \<Rightarrow> random \<Rightarrow> configopts" where
  "random_getConfigOpts numd m =
     [(''rand_min'', [numd (rand_min m)]), (''rand_max'', [numd (rand_max m)]),
      (''valtype'', [case valtype m of MAX_type \<Rightarrow> ''MAX'' | MIN_type \<Rightarrow> ''MIN'' | UNKNOWN_type \<Rightarrow> ''UNKNOWN''])]"

record random_env =
  qrand :: "nat \<Rightarrow> int"
  RAND_MAX :: int
  rounding :: rounding

definition getRandomValue :: "random_env \<Rightarrow> random \<Rightarrow> double \<times> random" where
  "getRandomValue env m =
     (let rnd = rounding env;
          result = Fin (real_of_int (qrand env (qrand_calls m)));
          factor = ddiv rnd (dsub rnd (rand_max m) (rand_min m)) (Fin (real_of_int (RAND_MAX env)))
      in (dadd rnd (dmul rnd factor result) (rand_min m), m\<lparr>qrand_calls := qrand_calls m + 1\<rparr>))"

definition random_start :: "random_env \<Rightarrow> int \<Rightarrow> random \<times> apcontext \<Rightarrow> random \<times> apcontext" where
  "random_start env tid = (\<lambda>(m, c).
     (let (v, m) = getRandomValue env m in (m\<lparr>rands := (rands m)(tid \<mapsto> v)\<rparr>, c)))"

definition random_value :: "int \<Rightarrow> random \<times> apcontext \<Rightarrow> double \<times> random \<times> apcontext" where
  "random_value tid = (\<lambda>(m, c).
     (case rands m tid of
        Some v \<Rightarrow> (v, m, c)
      | None \<Rightarrow> (Fin 0, m, report MONITOR ''value'' c)))"

definition random_stop :: "int \<Rightarrow> random \<times> apcontext \<Rightarrow> double \<times> random \<times> apcontext" where
  "random_stop tid mc =
     (let (result, m, c) = random_value tid mc
      in if isError c then (Fin 0, m, c) else (result, m\<lparr>rands := (rands m)(tid := None)\<rparr>, c))"

definition random_clear :: "int \<Rightarrow> random \<times> apcontext \<Rightarrow> random \<times> apcontext" where
  "random_clear tid = (\<lambda>(m, c). (m\<lparr>rands := (rands m)(tid := None)\<rparr>, c))"

definition random_getMonitoredTasks :: "random \<Rightarrow> autopin_tid_list" where
  "random_getMonitoredTasks m = dom (rands m)"

definition random_ops :: "random_env \<Rightarrow> random monitor_ops" where
  "random_ops env = \<lparr>op_start = random_start env, op_value = random_value, op_stop = random_stop,
     op_clear = random_clear, op_getMonitoredTasks = random_getMonitoredTasks\<rparr>"

subsection \<open>The monitor keeps its contract\<close>

definition random_inv :: "random \<Rightarrow> bool" where
  "random_inv m \<longleftrightarrow> finite (dom (rands m))"

lemmas random_defs = random_ops_def random_start_def random_value_def random_stop_def random_clear_def
  random_getMonitoredTasks_def random_inv_def getRandomValue_def Let_def

interpretation random: task_monitor "random_ops env" random_inv "\<lambda>m t. the (rands m t)" for env
  by unfold_locales
    (auto simp: random_defs fatal_def fatal_reports_def split: option.splits if_splits)

text \<open>
  The random monitor does what the strategies expect of a monitor: after starting a set of
  tasks, stopping all of them returns one measurement for each task that was monitored and for no
  other, reports nothing, and leaves no task monitored.
\<close>

theorem random_start_stop_all:
  assumes "finite tids" and "finite (dom (rands m))" and "\<not> isError c"
  shows "\<exists>r m1 m2. start_tasks (random_ops env) tids (m, c) = (m1, c) \<and>
    stop_all (random_ops env) (m1, c) = (r, m2, c) \<and> dom r = tids \<union> dom (rands m) \<and> r = rands m1 \<and> dom (rands m2) = {}"
proof -
  obtain m1 c1 where s: "start_tasks (random_ops env) tids (m, c) = (m1, c1)" by fastforce
  from random.start_tasks_eq[OF _ assms(1) s] assms(1,2)
  have m1: "random_inv m1" "c1 = c" "dom (rands m1) = tids \<union> dom (rands m)"
    by (simp_all add: random_inv_def random_ops_def random_getMonitoredTasks_def)
  from random.stop_all_eq[OF m1(1) assms(3), of env] obtain m2 where m2: "stop_all (random_ops env) (m1, c) =
      (\<lambda>t. if t \<in> dom (rands m1) then Some (the (rands m1 t)) else None, m2, c)" "dom (rands m2) = {}"
    by (auto simp: random_ops_def random_getMonitoredTasks_def)
  moreover have "(\<lambda>t. if t \<in> dom (rands m1) then Some (the (rands m1 t)) else None) = rands m1"
    by (auto simp: fun_eq_iff domIff)
  ultimately show ?thesis using s m1(2,3) by auto
qed

theorem random_start_stop_all_witness:
  "\<exists>r m1 m2. start_tasks (random_ops \<lparr>qrand = (\<lambda>n. int n), RAND_MAX = 2147483647, rounding = Fin\<rparr>) {7, 8}
       (random_new ''r'', AutopinContext_new ''w'') = (m1, AutopinContext_new ''w'') \<and>
     stop_all (random_ops \<lparr>qrand = (\<lambda>n. int n), RAND_MAX = 2147483647, rounding = Fin\<rparr>)
       (m1, AutopinContext_new ''w'') = (r, m2, AutopinContext_new ''w'') \<and> dom r = {7, 8}"
  using random_start_stop_all[of "{7, 8}" "random_new ''r''" "AutopinContext_new ''w''"
      "\<lparr>qrand = (\<lambda>n. int n), RAND_MAX = 2147483647, rounding = Fin\<rparr>"]
  by (auto simp: random_new_def)

end
