(* ===== verification/Autopin1.thy ===== *)
theory Autopin1
  imports Control_Strategy Random_Monitor "HOL-Library.Monad_Syntax"
begin

text \<open>
  \<open>src/AutopinPlus/Strategy/Autopin1/Main.cpp\<close>: the strategy that tries every configured pinning,
  measures it with a monitor and keeps the best one. Its timers and the queued zero-timeout call of
  \<open>slot_startPinning\<close> are part of the state, so the slots form a state machine driven by
  timeouts and by the events of the process. What lies outside is the record \<open>a1_env\<close>: one
  environment per slot, as \<open>/proc\<close> and the clock change between them. \<open>None\<close> is undefined
  behaviour: an index outside a container, a call through the null pointer \<open>monitor\<close>, or a walk over
  \<open>/proc\<close> that is given too little fuel.
\<close>

record pinned_task =
  pt_tid :: int
  pt_start :: int
  pt_stop :: int
  pt_result :: double

type_synonym autopin_pinning = "int list"

record autopin1 = strategy +
  pinnings :: "autopin_pinning list"
  current_pinning :: int
  best_pinning :: int
  best_performance :: double
  init_time :: int
  warmup_time :: int
  measure_time :: int
  openmp_icc :: bool
  skip :: "int set"
  skip_str :: QStringList
  notification_interval :: int
  monitor_set :: bool \<comment> \<open>\<open>monitor != nullptr\<close>\<close>
  monitor_type :: montype
  pinned_tasks :: "pinned_task list"
  notifications :: bool
  init_timer :: bool \<comment> \<open>whether the single-shot timer is active\<close>
  warmup_timer :: bool
  measure_timer :: bool
  queued_start :: nat \<comment> \<open>queued calls of \<open>slot_startPinning\<close>\<close>
  elapsed_calls :: nat

text \<open>
  The constructor; the members it leaves uninitialised (the times, the flags, the performance of
  the best pinning) are zero here and are set by \<open>init\<close>, or with the first result.
\<close>

definition autopin1_new :: autopin1 where
  "autopin1_new = strategy.extend ControlStrategy_new
     \<lparr>pinnings = [], current_pinning = 0, best_pinning = -1, best_performance = Fin 0, init_time = 0, warmup_time = 0,
      measure_time = 0, openmp_icc = False, skip = {}, skip_str = [], notification_interval = 0, monitor_set = False,
      monitor_type = UNKNOWN_type, pinned_tasks = [], notifications = False, init_timer = False, warmup_timer = False,
      measure_timer = False, queued_start = 0, elapsed_calls = 0\<rparr>"

text \<open>
  The environment: number conversions, a snapshot of \<open>/proc\<close> with the fuel for walking it, the
  results of \<open>sched_setaffinity\<close>, the successive results of \<open>measure_start.elapsed()\<close>, the contents
  of an uninitialised \<open>pinned_task\<close>, the rounding of floating point results.
\<close>

record a1_env =
  a_qt :: qt_conv
  a_fs :: procfs
  a_fuel :: nat
  a_aff :: affinity_oracle
  a_elapsed :: "nat \<Rightarrow> int"
  a_uninit :: pinned_task
  a_rnd :: rounding

type_synonym 'm a1_state = "autopin1 \<times> world \<times> 'm"

subsection \<open>Configuration\<close>

fun read_cpus :: "qt_conv \<Rightarrow> QStringList \<Rightarrow> autopin_pinning \<Rightarrow> autopin_pinning option" where
  "read_cpus qt [] new_pinning = Some new_pinning"
| "read_cpus qt (e # es) new_pinning =
     (case toInt10 qt e of
        Some cpu \<Rightarrow> if cpu \<ge> 0 then read_cpus qt es (new_pinning @ [cpu]) else None
      | None \<Rightarrow> None)"

fun read_schedule ::
  "qt_conv \<Rightarrow> QStringList \<Rightarrow> autopin_pinning list \<Rightarrow> apcontext \<Rightarrow> autopin_pinning list \<times> apcontext" where
  "read_schedule qt [] result c = (result, c)"
| "read_schedule qt (p # ps) result c =
     (case read_cpus qt (split_skip_empty (CHR '':'') p) [] of
        None \<Rightarrow> (result, report BAD_CONFIG ''option_format'' c)
      | Some new_pinning \<Rightarrow> read_schedule qt ps (result @ [new_pinning]) c)"

definition readPinnings :: "qt_conv \<Rightarrow> string_map \<Rightarrow> QString \<Rightarrow> apcontext \<Rightarrow> autopin_pinning list \<times> apcontext" where
  "readPinnings qt config opt c =
     (if configOptionExists config opt \<le> 0 then ([], report BAD_CONFIG ''option_missing'' c)
      else read_schedule qt (getConfigOptionList config opt) [] c)"

definition option_int :: "qt_conv \<Rightarrow> string_map \<Rightarrow> QString \<Rightarrow> int \<Rightarrow> int" where
  "option_int qt config opt def =
     (if configOptionExists config opt > 0 then getConfigOptionInt qt config opt 0 else def)"

fun read_skip :: "qt_conv \<Rightarrow> QStringList \<Rightarrow> int set \<Rightarrow> apcontext \<Rightarrow> int set \<times> apcontext" where
  "read_skip qt [] sk c = (sk, c)"
| "read_skip qt (entry # es) sk c =
     (case toInt10 qt entry of
        Some i \<Rightarrow> read_skip qt es (insert i sk) c
      | None \<Rightarrow> read_skip qt es (insert 0 sk) (report BAD_CONFIG ''invalid_value'' c))"

definition check_time :: "bool \<Rightarrow> apcontext \<Rightarrow> apcontext" where
  "check_time bad c = (if bad then report BAD_CONFIG ''invalid_value'' c else c)"

text \<open>The argument \<open>monitors\<close> holds the types of the configured monitors.\<close>

definition autopin1_init ::
  "qt_conv \<Rightarrow> string_map \<Rightarrow> nat \<Rightarrow> montype list \<Rightarrow> autopin1 \<times> world \<Rightarrow> autopin1 \<times> world" where
  "autopin1_init qt config cpuCount monitors = (\<lambda>(s, w).
     (let w = ControlStrategy_init cpuCount w;
          (ps, c) = readPinnings qt config ''autopin1.schedule'' (runtime w);
          s = s\<lparr>pinnings := ps\<rparr>;
          (s, c) = (if monitors \<noteq> [] \<and> hd monitors \<noteq> UNKNOWN_type
                    then (s\<lparr>monitor_set := True, monitor_type := hd monitors\<rparr>, c)
                    else (s, report BAD_CONFIG ''no_monitor'' c));
          s = s\<lparr>init_time := option_int qt config ''autopin1.init_time'' 15,
                warmup_time := option_int qt config ''autopin1.warmup_time'' 15,
                measure_time := option_int qt config ''autopin1.measure_time'' 30,
                openmp_icc := configOptionBool qt config ''autopin1.openmp_icc'' 0 \<and>
                  getConfigOptionBool qt config ''autopin1.openmp_icc'' 0,
                skip_str := (if configOptionExists config ''autopin1.skip'' > 0
                  then getConfigOptionList config ''autopin1.skip'' else skip_str s),
                notification_interval := option_int qt config ''autopin1.notification_interval'' 0\<rparr>;
          (sk, c) = read_skip qt (skip_str s) {} c;
          c = check_time (init_time s < 0) c;
          c = check_time (warmup_time s < 0) c;
          c = check_time (measure_time s \<le> 0) c
      in (s\<lparr>skip := sk\<rparr>, w\<lparr>runtime := c\<rparr>)))"

text \<open>The intervals of the timers: a product of two \<open>int\<close> outside the type is undefined.\<close>

definition timer_ms :: "int \<Rightarrow> int option" where
  "timer_ms t = (let ms = t * 1000 in if - (2 ^ 31) \<le> ms \<and> ms < 2 ^ 31 then Some ms else None)"

definition autopin1_intervals :: "autopin1 \<Rightarrow> (int \<times> int \<times> int) option" where
  "autopin1_intervals s = do {
     i \<leftarrow> timer_ms (init_time s);
     w \<leftarrow> timer_ms (warmup_time s);
     m \<leftarrow> timer_ms (measure_time s);
     Some (i, w, m)
   }"

definition autopin1_getConfigOpts :: "autopin1 \<Rightarrow> configopts" where
  "autopin1_getConfigOpts s =
     [(''init_time'', [number (init_time s)]), (''warmup_time'', [number (warmup_time s)]),
      (''measure_time'', [number (measure_time s)]),
      (''openmp_icc'', [if openmp_icc s then ''true'' else ''false'']),
      (''skip'', skip_str s), (''notification_interval'', [number (notification_interval s)])]"

subsection \<open>Pinning and monitoring\<close>

text \<open>The loop of \<open>applyPinning\<close>, over the CPUs and the tasks that are left; \<open>j\<close> counts the tasks.\<close>

fun apply_loop ::
  "a1_env \<Rightarrow> int \<Rightarrow> autopin_pinning \<Rightarrow> int list \<Rightarrow> autopin1 \<times> world \<Rightarrow> autopin1 \<times> world" where
  "apply_loop env j (cpu # cpus) (task # tids) (s, w) =
     (if j \<in> skip s then apply_loop env (j + 1) (cpu # cpus) tids (s, w)
      else if j = 1 \<and> openmp_icc s then apply_loop env (j + 1) (cpu # cpus) tids (s, w)
      else let new_entry = (a_uninit env)\<lparr>pt_tid := task\<rparr>;
               w = snd (setAffinity (a_aff env) task cpu w)
           in apply_loop env (j + 1) cpus tids (s\<lparr>pinned_tasks := pinned_tasks s @ [new_entry]\<rparr>, w))"
| "apply_loop env j _ _ sw = sw"

definition applyPinning :: "a1_env \<Rightarrow> autopin_pinning \<Rightarrow> autopin1 \<times> world \<Rightarrow> autopin1 \<times> world" where
  "applyPinning env p = (\<lambda>(s, w). apply_loop env 0 p (tasks s) (s, w))"

definition run_monitor ::
  "('m \<times> apcontext \<Rightarrow> 'm \<times> apcontext) \<Rightarrow> world \<times> 'm \<Rightarrow> world \<times> 'm" where
  "run_monitor f = (\<lambda>(w, m). let (m, c) = f (m, runtime w) in (w\<lparr>runtime := c\<rparr>, m))"

definition ask_monitor ::
  "('m \<times> apcontext \<Rightarrow> double \<times> 'm \<times> apcontext) \<Rightarrow> world \<times> 'm \<Rightarrow> double \<times> world \<times> 'm" where
  "ask_monitor f = (\<lambda>(w, m). let (d, m, c) = f (m, runtime w) in (d, w\<lparr>runtime := c\<rparr>, m))"

definition elapsed :: "a1_env \<Rightarrow> autopin1 \<Rightarrow> int \<times> autopin1" where
  "elapsed env s = (a_elapsed env (elapsed_calls s), s\<lparr>elapsed_calls := elapsed_calls s + 1\<rparr>)"

text \<open>
  \<open>std::remove_if\<close> with the lambda of \<open>checkPinnedTasks\<close>: the tasks that are gone are removed and
  their monitoring is cleared, in order.
\<close>

fun drop_terminated ::
  "'m monitor_ops \<Rightarrow> int set \<Rightarrow> pinned_task list \<Rightarrow> world \<times> 'm \<Rightarrow> pinned_task list \<times> world \<times> 'm" where
  "drop_terminated ops running_tasks [] wm = ([], wm)"
| "drop_terminated ops running_tasks (t # ts) wm =
     (if pt_tid t \<notin> running_tasks
      then drop_terminated ops running_tasks ts (run_monitor (op_clear ops (pt_tid t)) wm)
      else let (ts, wm) = drop_terminated ops running_tasks ts wm in (t # ts, wm))"

definition checkPinnedTasks ::
  "a1_env \<Rightarrow> 'm monitor_ops \<Rightarrow> observed_process \<Rightarrow> 'm a1_state \<Rightarrow> 'm a1_state option" where
  "checkPinnedTasks env ops proc = (\<lambda>(s, w, m).
     (if trace proc then Some (s, w, m)
      else do {
        (proc_tree, c) \<leftarrow> getProcessTree (a_qt env) (a_fs env) (a_fuel env) proc (runtime w);
        let running_tasks = getAllTasks proc_tree;
        if \<not> monitor_set s \<and> (\<exists>t\<in>set (pinned_tasks s). pt_tid t \<notin> running_tasks) then None
        else do {
          let (ts, w, m) = drop_terminated ops running_tasks (pinned_tasks s) (w\<lparr>runtime := c\<rparr>, m);
          let w = (if ts = [] then wreport STRATEGY ''no_task'' w else w);
          Some (s\<lparr>pinned_tasks := ts\<rparr>, w, m)
        }
      }))"

subsection \<open>Slots\<close>

text \<open>The message the strategy sends when the watchdog is ready goes through the observed process.\<close>

definition a1_slot_watchdogReady :: "observed_process \<Rightarrow> autopin1 \<Rightarrow> autopin_msg option \<times> autopin1" where
  "a1_slot_watchdogReady proc s =
     (setPhaseNotificationInterval (notification_interval s) proc, s\<lparr>init_timer := True\<rparr>)"

definition slot_startPinning ::
  "a1_env \<Rightarrow> observed_process \<Rightarrow> 'm a1_state \<Rightarrow> 'm a1_state option" where
  "slot_startPinning env proc = (\<lambda>(s, w, m). do {
     (s, w) \<leftarrow> refreshTasks (a_qt env) (a_fs env) (a_fuel env) proc (s, w);
     let s = s\<lparr>notifications := True\<rparr>;
     new_pinning \<leftarrow> vec_at (pinnings s) (current_pinning s);
     let (s, w) = applyPinning env new_pinning (s, w);
     Some (s\<lparr>warmup_timer := True\<rparr>, w, m)
   })"

fun start_loop ::
  "a1_env \<Rightarrow> 'm monitor_ops \<Rightarrow> pinned_task list \<Rightarrow> 'm a1_state \<Rightarrow> pinned_task list \<times> 'm a1_state" where
  "start_loop env ops [] st = ([], st)"
| "start_loop env ops (t # ts) (s, w, m) =
     (let (w, m) = run_monitor (op_start ops (pt_tid t)) (w, m);
          (now, s) = elapsed env s;
          (ts, st) = start_loop env ops ts (s, w, m)
      in (t\<lparr>pt_start := now, pt_stop := -1\<rparr> # ts, st))"

definition slot_startMonitor ::
  "a1_env \<Rightarrow> 'm monitor_ops \<Rightarrow> observed_process \<Rightarrow> 'm a1_state \<Rightarrow> 'm a1_state option" where
  "slot_startMonitor env ops proc st = do {
     (s, w, m) \<leftarrow> checkPinnedTasks env ops proc st;
     if \<not> monitor_set s \<and> pinned_tasks s \<noteq> [] then None
     else do {
       let (ts, s, w, m) = start_loop env ops (pinned_tasks s) (s, w, m);
       Some (s\<lparr>pinned_tasks := ts, measure_timer := True\<rparr>, w, m)
     }
   }"

fun stop_loop ::
  "a1_env \<Rightarrow> 'm monitor_ops \<Rightarrow> pinned_task list \<Rightarrow> double \<Rightarrow> 'm a1_state \<Rightarrow>
    pinned_task list \<times> double \<times> 'm a1_state" where
  "stop_loop env ops [] current_result st = ([], current_result, st)"
| "stop_loop env ops (e # es) current_result (s, w, m) =
     (let (e, s, w, m) =
            (if pt_stop e = -1 then
               let (now, s) = elapsed env s;
                   (r, w, m) = ask_monitor (op_stop ops (pt_tid e)) (w, m)
               in (e\<lparr>pt_stop := now, pt_result := r\<rparr>, s, w, m)
             else (e, s, w, m));
          res = ddiv (a_rnd env) (pt_result e) (a_rnd env (real_of_int (pt_stop e - pt_start e)));
          (es, current_result, st) = stop_loop env ops es (dadd (a_rnd env) current_result res) (s, w, m)
      in (e\<lparr>pt_result := res\<rparr> # es, current_result, st))"

text \<open>The first half of \<open>slot_stopPinning\<close>: the average result per task of the current pinning.\<close>

definition measure_pinning ::
  "a1_env \<Rightarrow> 'm monitor_ops \<Rightarrow> observed_process \<Rightarrow> 'm a1_state \<Rightarrow> (double \<times> 'm a1_state) option" where
  "measure_pinning env ops proc = (\<lambda>(s, w, m). do {
     (s, w, m) \<leftarrow> checkPinnedTasks env ops proc (s\<lparr>notifications := False\<rparr>, w, m);
     if \<not> monitor_set s \<and> (\<exists>t\<in>set (pinned_tasks s). pt_stop t = -1) then None
     else do {
       let (ts, sum, s, w, m) = stop_loop env ops (pinned_tasks s) (Fin 0) (s, w, m);
       let s = s\<lparr>pinned_tasks := ts\<rparr>;
       Some (ddiv (a_rnd env) sum (Fin (real (length (pinned_tasks s)))), s, w, m)
     }
   })"

text \<open>The comparison with the best pinning so far; \<open>None\<close> is the branch for a monitor of unknown type.\<close>

definition update_best :: "double \<Rightarrow> autopin1 \<Rightarrow> autopin1 option" where
  "update_best current_result s =
     (let better = s\<lparr>best_performance := current_result, best_pinning := current_pinning s\<rparr> in
      case monitor_type s of
        MAX_type \<Rightarrow> Some (if best_pinning s = -1 then better
                     else if dless (best_performance s) current_result then better else s)
      | MIN_type \<Rightarrow> Some (if best_pinning s = -1 then better
                     else if dless current_result (best_performance s) then better else s)
      | UNKNOWN_type \<Rightarrow> None)"

definition slot_stopPinning ::
  "a1_env \<Rightarrow> 'm monitor_ops \<Rightarrow> observed_process \<Rightarrow> 'm a1_state \<Rightarrow> 'm a1_state option" where
  "slot_stopPinning env ops proc st = do {
     (current_result, s, w, m) \<leftarrow> measure_pinning env ops proc st;
     case update_best current_result s of
       None \<Rightarrow> Some (s, wreport UNSUPPORTED ''critical'' w, m)
     | Some s \<Rightarrow> do {
         let s = s\<lparr>pinned_tasks := [], current_pinning := current_pinning s + 1\<rparr>;
         if current_pinning s < int (length (pinnings s))
         then Some (s\<lparr>queued_start := queued_start s + 1\<rparr>, w, m)
         else do {
           (s, w) \<leftarrow> refreshTasks (a_qt env) (a_fs env) (a_fuel env) proc (s, w);
           best \<leftarrow> vec_at (pinnings s) (best_pinning s);
           let (s, w) = applyPinning env best (s, w);
           Some (s, w, m)
         }
       }
   }"

text \<open>A task created while a pinning is tried gets the next CPU of the pinning \<open>p\<close>, if there is one.\<close>

definition pin_new_task ::
  "a1_env \<Rightarrow> 'm monitor_ops \<Rightarrow> int \<Rightarrow> autopin_pinning \<Rightarrow> 'm a1_state \<Rightarrow> 'm a1_state option" where
  "pin_new_task env ops tid p = (\<lambda>(s, w, m).
     (let i = length (pinned_tasks s);
          j = int (length (tasks s))
      in if \<not> i < length p \<or> j \<in> skip s \<or> j = 1 \<and> openmp_icc s then Some (s, w, m)
         else
           let w = snd (setAffinity (a_aff env) tid (p ! i) w);
               new_entry = (a_uninit env)\<lparr>pt_tid := tid\<rparr>
           in if \<not> measure_timer s then Some (s\<lparr>pinned_tasks := pinned_tasks s @ [new_entry]\<rparr>, w, m)
              else if \<not> monitor_set s then None
              else let (w, m) = run_monitor (op_start ops tid) (w, m);
                       (now, s) = elapsed env s;
                       new_entry = new_entry\<lparr>pt_start := now, pt_stop := -1\<rparr>
                   in Some (s\<lparr>pinned_tasks := pinned_tasks s @ [new_entry]\<rparr>, w, m)))"

definition a1_slot_TaskCreated ::
  "a1_env \<Rightarrow> 'm monitor_ops \<Rightarrow> int \<Rightarrow> 'm a1_state \<Rightarrow> 'm a1_state option" where
  "a1_slot_TaskCreated env ops tid = (\<lambda>(s, w, m).
     (if \<not> notifications s then Some (s, w, m)
      else if \<exists>t\<in>set (pinned_tasks s). pt_tid t = tid then Some (s, w, m)
      else do {
        p \<leftarrow> vec_at (pinnings s) (current_pinning s);
        (s, w, m) \<leftarrow> pin_new_task env ops tid p (s, w, m);
        Some (s\<lparr>tasks := tasks s @ [tid]\<rparr>, w, m)
      }))"

text \<open>The first pinned task with the given thread id is changed or removed.\<close>

fun update_pinned :: "int \<Rightarrow> (pinned_task \<Rightarrow> pinned_task list) \<Rightarrow> pinned_task list \<Rightarrow> pinned_task list" where
  "update_pinned tid f [] = []"
| "update_pinned tid f (t # ts) = (if pt_tid t = tid then f t @ ts else t # update_pinned tid f ts)"

definition a1_slot_TaskTerminated ::
  "a1_env \<Rightarrow> 'm monitor_ops \<Rightarrow> int \<Rightarrow> 'm a1_state \<Rightarrow> 'm a1_state option" where
  "a1_slot_TaskTerminated env ops tid = (\<lambda>(s, w, m).
     (if \<not> notifications s then Some (s, w, m)
      else if \<not> (\<exists>t\<in>set (pinned_tasks s). pt_tid t = tid) then Some (s, w, m)
      else if \<not> monitor_set s then None
      else let (r, w, m) = ask_monitor (op_stop ops tid) (w, m) in
           if measure_timer s then
             let (now, s) = elapsed env s in
             Some (s\<lparr>pinned_tasks := update_pinned tid (\<lambda>t. [t\<lparr>pt_result := r, pt_stop := now\<rparr>]) (pinned_tasks s)\<rparr>, w, m)
           else Some (s\<lparr>pinned_tasks := update_pinned tid (\<lambda>t. []) (pinned_tasks s)\<rparr>, w, m)))"

definition a1_slot_PhaseChanged :: "'m a1_state \<Rightarrow> 'm a1_state" where
  "a1_slot_PhaseChanged = (\<lambda>(s, w, m).
     (if notifications s
      then (s\<lparr>warmup_timer := False, measure_timer := False, pinned_tasks := [], notifications := False,
              queued_start := queued_start s + 1\<rparr>, w, m)
      else (s, w, m)))"

subsection \<open>Which tasks go where\<close>

text \<open>The tasks a pinning is applied to: all but the skipped ones and the helper thread of OpenMP/ICC.\<close>

definition eligible :: "autopin1 \<Rightarrow> int \<Rightarrow> int list \<Rightarrow> int list" where
  "eligible s j ts = map snd (filter (\<lambda>(k, t). k \<notin> skip s \<and> \<not> (k = 1 \<and> openmp_icc s))
     (zip [j..j + int (length ts) - 1] ts))"

lemma eligible_simps [simp]:
  "eligible s j [] = []"
  "eligible s j (t # ts) =
     (if j \<in> skip s \<or> j = 1 \<and> openmp_icc s then eligible s (j + 1) ts else t # eligible s (j + 1) ts)"
  by (auto simp: eligible_def upto.simps[of j] add.commute add.left_commute)

lemma eligible_cong: "skip s' = skip s \<Longrightarrow> openmp_icc s' = openmp_icc s \<Longrightarrow> eligible s' = eligible s"
  by (simp add: eligible_def fun_eq_iff)

lemma apply_loop_eq:
  "\<exists>w'. apply_loop env j p ts (s, w) =
     (s\<lparr>pinned_tasks := pinned_tasks s @ map (\<lambda>t. (a_uninit env)\<lparr>pt_tid := t\<rparr>) (take (length p) (eligible s j ts))\<rparr>, w') \<and>
     affinity_calls w' = affinity_calls w @ zip (eligible s j ts) p \<and> pinning w' = pinning w \<and> runtime w' = runtime w"
proof (induction ts arbitrary: j p s w)
  case Nil
  then show ?case by (cases p) auto
next
  case (Cons t ts)
  show ?case
  proof (cases p)
    case Nil
    then show ?thesis by auto
  next
    case p: (Cons cpu cpus)
    show ?thesis
    proof (cases "j \<in> skip s \<or> j = 1 \<and> openmp_icc s")
      case True
      with Cons[of "j + 1" p s w] show ?thesis by (auto simp: p)
    next
      case False
      let ?s = "s\<lparr>pinned_tasks := pinned_tasks s @ [(a_uninit env)\<lparr>pt_tid := t\<rparr>]\<rparr>"
      let ?w = "w\<lparr>affinity_calls := affinity_calls w @ [(t, cpu)]\<rparr>"
      have "eligible ?s = eligible s" by (rule eligible_cong) simp_all
      with Cons[of "j + 1" cpus ?s ?w] False show ?thesis
        by (auto simp: p setAffinity_def Let_def)
    qed
  qed
qed

text \<open>
  Applying a pinning assigns its CPUs, in order, to the tasks in order, leaving out the skipped
  tasks and the OpenMP/ICC helper thread: \<open>sched_setaffinity\<close> is called for exactly these pairs and
  exactly these tasks are recorded as pinned. The shared pinning of the other strategies is not
  looked at.
\<close>

theorem applyPinning_assigns:
  "\<exists>s' w'. applyPinning env p (s, w) = (s', w') \<and>
     affinity_calls w' = affinity_calls w @ zip (eligible s 0 (tasks s)) p \<and>
     map pt_tid (pinned_tasks s') = map pt_tid (pinned_tasks s) @ take (length p) (eligible s 0 (tasks s)) \<and>
     pinning w' = pinning w \<and> runtime w' = runtime w"
proof -
  obtain w' where w': "apply_loop env 0 p (tasks s) (s, w) =
      (s\<lparr>pinned_tasks := pinned_tasks s @ map (\<lambda>t. (a_uninit env)\<lparr>pt_tid := t\<rparr>) (take (length p) (eligible s 0 (tasks s)))\<rparr>, w')"
    "affinity_calls w' = affinity_calls w @ zip (eligible s 0 (tasks s)) p" "pinning w' = pinning w" "runtime w' = runtime w"
    using apply_loop_eq by blast
  then show ?thesis by (simp add: applyPinning_def o_def)
qed

subsection \<open>The state machine\<close>

text \<open>
  The members that decide what happens next; the loops over the tasks and the refreshes leave them
  alone.
\<close>

definition control :: "autopin1 \<Rightarrow> autopin_pinning list \<times> int \<times> int \<times> double \<times> bool \<times> montype \<times> bool \<times> bool \<times> bool \<times> bool \<times> nat" where
  "control s = (pinnings s, current_pinning s, best_pinning s, best_performance s, monitor_set s, monitor_type s,
     notifications s, init_timer s, warmup_timer s, measure_timer s, queued_start s)"

lemma control_simps [simp]:
  "control (s\<lparr>tasks := a\<rparr>) = control s" "control (s\<lparr>pinned_tasks := b\<rparr>) = control s"
  "control (s\<lparr>elapsed_calls := n\<rparr>) = control s"
  by (simp_all add: control_def)

lemma control_apply [simp]: "applyPinning env p (s, w) = (s', w') \<Longrightarrow> control s' = control s"
  using apply_loop_eq[of env 0 p "tasks s" s w] by (auto simp: applyPinning_def)

lemma control_refresh: "refreshTasks qt fs fuel proc (s, w) = Some (s', w') \<Longrightarrow> control s' = control s"
  by (auto simp: refreshTasks_def split: option.splits)

lemma control_check: "checkPinnedTasks env ops proc (s, w, m) = Some (s', w', m') \<Longrightarrow> control s' = control s"
  by (auto simp: checkPinnedTasks_def Let_def bind_eq_Some_conv split: if_splits prod.splits)

lemma control_start_loop: "control (fst (snd (start_loop env ops ts st))) = control (fst st)"
proof (induction ts arbitrary: st)
  case Nil
  then show ?case by simp
next
  case (Cons t ts)
  then show ?case by (cases st) (simp add: Let_def split_def elapsed_def)
qed

lemma control_stop_loop: "control (fst (snd (snd (stop_loop env ops ts r st)))) = control (fst st)"
proof (induction ts arbitrary: r st)
  case Nil
  then show ?case by simp
next
  case (Cons t ts)
  then show ?case by (cases st) (simp add: Let_def split_def elapsed_def)
qed

lemma control_measure:
  assumes "measure_pinning env ops proc (s, w, m) = Some (r, s', w', m')"
  shows "control s' = control (s\<lparr>notifications := False\<rparr>)"
proof -
  obtain s1 w1 m1 where c: "checkPinnedTasks env ops proc (s\<lparr>notifications := False\<rparr>, w, m) = Some (s1, w1, m1)"
    and r: "s' = fst (snd (snd (stop_loop env ops (pinned_tasks s1) (Fin 0) (s1, w1, m1))))
      \<lparr>pinned_tasks := fst (stop_loop env ops (pinned_tasks s1) (Fin 0) (s1, w1, m1))\<rparr>"
    using assms by (auto simp: measure_pinning_def bind_eq_Some_conv Let_def split_def split: if_splits)
  with control_stop_loop[of env ops "pinned_tasks s1" "Fin 0" "(s1, w1, m1)"] control_check[OF c]
  show ?thesis by simp
qed

subsubsection \<open>The best result\<close>

fun better :: "montype \<Rightarrow> double \<Rightarrow> double \<Rightarrow> bool" where
  "better MAX_type new old \<longleftrightarrow> dless old new"
| "better MIN_type new old \<longleftrightarrow> dless new old"
| "better UNKNOWN_type new old \<longleftrightarrow> False"

text \<open>The position and value of the best of a list of results, as the comparisons leave it.\<close>

fun best_acc :: "montype \<Rightarrow> nat \<times> double \<Rightarrow> nat \<Rightarrow> double list \<Rightarrow> nat \<times> double" where
  "best_acc mt bv i [] = bv"
| "best_acc mt bv i (r # rs) = best_acc mt (if better mt r (snd bv) then (i, r) else bv) (i + 1) rs"

definition best_of :: "montype \<Rightarrow> double list \<Rightarrow> nat \<times> double" where
  "best_of mt rs = best_acc mt (0, hd rs) 1 (tl rs)"

lemma best_acc_snoc:
  "best_acc mt bv i (rs @ [r]) =
     (if better mt r (snd (best_acc mt bv i rs)) then (i + length rs, r) else best_acc mt bv i rs)"
  by (induction rs arbitrary: bv i) auto

lemma best_of_snoc:
  "rs \<noteq> [] \<Longrightarrow> best_of mt (rs @ [r]) =
     (if better mt r (snd (best_of mt rs)) then (length rs, r) else best_of mt rs)"
  by (cases rs) (auto simp: best_of_def best_acc_snoc)

lemma best_of_single [simp]: "best_of mt [r] = (0, r)"
  by (simp add: best_of_def)

lemma better_laws:
  "\<not> better mt a a" "\<not> better mt NaN a" "\<not> better mt a NaN"
  "better mt a b \<Longrightarrow> better mt b c \<Longrightarrow> better mt a c"
  "v \<noteq> NaN \<Longrightarrow> \<not> better mt a v \<Longrightarrow> \<not> better mt v u \<Longrightarrow> \<not> better mt a u"
  "better mt a b \<Longrightarrow> a \<noteq> NaN"
  by (cases mt; auto intro: dless_trans dest: not_dless_trans)+

text \<open>When the first result is a number, the first of the best results is kept.\<close>

lemma best_of_optimal:
  assumes "rs \<noteq> []" and "hd rs \<noteq> NaN" and "best_of mt rs = (b, v)"
  shows "b < length rs \<and> v = rs ! b \<and> v \<noteq> NaN \<and> (\<forall>r\<in>set rs. \<not> better mt r v) \<and>
    (mt \<noteq> UNKNOWN_type \<longrightarrow> (\<forall>i<b. rs ! i = NaN \<or> better mt v (rs ! i)))"
  using assms
proof (induction rs arbitrary: b v rule: rev_nonempty_induct)
  case (single r)
  then show ?case by (auto simp: better_laws(1-3))
next
  case (snoc r rs)
  obtain b1 v1 where bv1: "best_of mt rs = (b1, v1)" by fastforce
  have IH: "b1 < length rs" "v1 = rs ! b1" "v1 \<noteq> NaN" "\<forall>r\<in>set rs. \<not> better mt r v1"
    "mt \<noteq> UNKNOWN_type \<longrightarrow> (\<forall>i<b1. rs ! i = NaN \<or> better mt v1 (rs ! i))"
    using snoc.IH[OF _ bv1] snoc.prems(1) snoc.hyps by auto
  show ?case
  proof (cases "better mt r v1")
    case True
    then have bv: "b = length rs" "v = r" "r \<noteq> NaN"
      using snoc.prems(2) snoc.hyps better_laws(6) by (auto simp: best_of_snoc bv1)
    have le: "\<not> better mt x r" if "x \<in> set rs" for x
      using IH(4) that True better_laws(4) by blast
    have "x = NaN \<or> better mt r x" if "x \<in> set rs" "mt \<noteq> UNKNOWN_type" for x
    proof (cases "x = NaN")
      case False
      have "\<not> better mt x v1" using IH(4) that(1) by simp
      then have "x = v1 \<or> better mt v1 x"
        using that(2) False IH(3) dless_linear[of x v1] by (cases mt) auto
      then show ?thesis using True better_laws(4) by auto
    qed simp
    with bv le show ?thesis by (auto simp: nth_append better_laws(1-3))
  next
    case False
    then have "b = b1" "v = v1" using snoc.prems(2) snoc.hyps by (auto simp: best_of_snoc bv1)
    with IH False show ?thesis by (auto simp: nth_append)
  qed
qed

text \<open>A first result that is not a number can never be beaten.\<close>

lemma best_of_NaN: "rs \<noteq> [] \<Longrightarrow> hd rs = NaN \<Longrightarrow> best_of mt rs = (0, NaN)"
  by (induction rs rule: rev_nonempty_induct) (auto simp: best_of_snoc better_laws(1-3))

subsubsection \<open>Reachable states\<close>

text \<open>The state in which the watchdog leaves a well configured strategy.\<close>

definition a1_ready :: "autopin1 \<Rightarrow> bool" where
  "a1_ready s \<longleftrightarrow> pinnings s \<noteq> [] \<and> monitor_set s \<and> monitor_type s \<noteq> UNKNOWN_type \<and> current_pinning s = 0 \<and>
     best_pinning s = -1 \<and> \<not> notifications s \<and> init_timer s \<and> \<not> warmup_timer s \<and> \<not> measure_timer s \<and>
     queued_start s = 0"

text \<open>
  The states reached by timeouts and by events of the process, with the results measured so far. A
  single-shot timer is no longer active when its slot runs. Every slot may see another environment.
\<close>

inductive a1_reach :: "'m monitor_ops \<Rightarrow> observed_process \<Rightarrow> 'm a1_state \<Rightarrow> double list \<Rightarrow> bool"
  for ops proc where
  ready: "a1_ready s \<Longrightarrow> a1_reach ops proc (s, w, m) []"
| init_timeout: "\<lbrakk>a1_reach ops proc (s, w, m) rs; init_timer s;
      slot_startPinning env proc (s\<lparr>init_timer := False\<rparr>, w, m) = Some st\<rbrakk> \<Longrightarrow> a1_reach ops proc st rs"
| queued: "\<lbrakk>a1_reach ops proc (s, w, m) rs; queued_start s > 0;
      slot_startPinning env proc (s\<lparr>queued_start := queued_start s - 1\<rparr>, w, m) = Some st\<rbrakk> \<Longrightarrow> a1_reach ops proc st rs"
| warmup_timeout: "\<lbrakk>a1_reach ops proc (s, w, m) rs; warmup_timer s;
      slot_startMonitor env ops proc (s\<lparr>warmup_timer := False\<rparr>, w, m) = Some st\<rbrakk> \<Longrightarrow> a1_reach ops proc st rs"
| measure_timeout: "\<lbrakk>a1_reach ops proc (s, w, m) rs; measure_timer s;
      measure_pinning env ops proc (s\<lparr>measure_timer := False\<rparr>, w, m) = Some (r, st1);
      slot_stopPinning env ops proc (s\<lparr>measure_timer := False\<rparr>, w, m) = Some st\<rbrakk> \<Longrightarrow> a1_reach ops proc st (rs @ [r])"
| task_created: "\<lbrakk>a1_reach ops proc (s, w, m) rs; a1_slot_TaskCreated env ops tid (s, w, m) = Some st\<rbrakk>
    \<Longrightarrow> a1_reach ops proc st rs"
| task_terminated: "\<lbrakk>a1_reach ops proc (s, w, m) rs; a1_slot_TaskTerminated env ops tid (s, w, m) = Some st\<rbrakk>
    \<Longrightarrow> a1_reach ops proc st rs"
| phase_changed: "a1_reach ops proc (s, w, m) rs \<Longrightarrow> a1_reach ops proc (a1_slot_PhaseChanged (s, w, m)) rs"

inductive_cases a1_reach_cases: "a1_reach ops proc st rs"

text \<open>
  The invariant: as long as pinnings are left, exactly one timeout or queued call is outstanding;
  notifications are on exactly while a pinning is being warmed up or measured; and the best
  pinning is the best of the results.
\<close>

definition a1_inv :: "autopin1 \<Rightarrow> double list \<Rightarrow> bool" where
  "a1_inv s rs \<longleftrightarrow> pinnings s \<noteq> [] \<and> monitor_set s \<and> monitor_type s \<noteq> UNKNOWN_type \<and>
     current_pinning s = int (length rs) \<and> length rs \<le> length (pinnings s) \<and>
     (notifications s \<longleftrightarrow> warmup_timer s \<or> measure_timer s) \<and>
     of_bool (init_timer s) + queued_start s + of_bool (warmup_timer s) + of_bool (measure_timer s)
       = (if length rs < length (pinnings s) then 1 else (0::nat)) \<and>
     (if rs = [] then best_pinning s = -1
      else best_pinning s = int (fst (best_of (monitor_type s) rs)) \<and>
           best_performance s = snd (best_of (monitor_type s) rs))"

lemma a1_inv_control: "control s' = control s \<Longrightarrow> a1_inv s' rs \<longleftrightarrow> a1_inv s rs"
  by (simp add: a1_inv_def control_def)

lemma best_of_less: "rs \<noteq> [] \<Longrightarrow> fst (best_of mt rs) < length rs"
  by (induction rs rule: rev_nonempty_induct) (auto simp: best_of_snoc)

lemma control_cong:
  "control a = control b \<Longrightarrow> control (a\<lparr>measure_timer := x\<rparr>) = control (b\<lparr>measure_timer := x\<rparr>)"
  "control a = control b \<Longrightarrow> control (a\<lparr>warmup_timer := x\<rparr>) = control (b\<lparr>warmup_timer := x\<rparr>)"
  "control a = control b \<Longrightarrow> control (a\<lparr>notifications := x\<rparr>) = control (b\<lparr>notifications := x\<rparr>)"
  by (simp_all add: control_def)

text \<open>What the slots do to the control members.\<close>

lemma startPinning_control:
  assumes "slot_startPinning env proc (s, w, m) = Some (s', w', m')"
  shows "control s' = control (s\<lparr>notifications := True, warmup_timer := True\<rparr>)"
proof -
  obtain s1 w1 p where r: "refreshTasks (a_qt env) (a_fs env) (a_fuel env) proc (s, w) = Some (s1, w1)"
    and s': "s' = (fst (applyPinning env p (s1\<lparr>notifications := True\<rparr>, w1)))\<lparr>warmup_timer := True\<rparr>"
    using assms by (auto simp: slot_startPinning_def bind_eq_Some_conv Let_def split_def)
  have "control (fst (applyPinning env p (s1\<lparr>notifications := True\<rparr>, w1))) = control (s1\<lparr>notifications := True\<rparr>)"
    by (metis control_apply prod.collapse)
  also have "\<dots> = control (s\<lparr>notifications := True\<rparr>)"
    using control_refresh[OF r] by (rule control_cong(3))
  finally show ?thesis unfolding s' by (rule control_cong(2))
qed

lemma startMonitor_control:
  assumes "slot_startMonitor env ops proc (s, w, m) = Some (s', w', m')"
  shows "control s' = control (s\<lparr>measure_timer := True\<rparr>)"
proof -
  obtain s1 w1 m1 where c: "checkPinnedTasks env ops proc (s, w, m) = Some (s1, w1, m1)"
    and s': "s' = fst (snd (start_loop env ops (pinned_tasks s1) (s1, w1, m1)))
      \<lparr>pinned_tasks := fst (start_loop env ops (pinned_tasks s1) (s1, w1, m1)), measure_timer := True\<rparr>"
    using assms by (auto simp: slot_startMonitor_def bind_eq_Some_conv Let_def split_def split: if_splits)
  have "control (fst (snd (start_loop env ops (pinned_tasks s1) (s1, w1, m1)))
      \<lparr>pinned_tasks := fst (start_loop env ops (pinned_tasks s1) (s1, w1, m1))\<rparr>) = control s"
    using control_start_loop[of env ops "pinned_tasks s1" "(s1, w1, m1)"] control_check[OF c] by simp
  then show ?thesis unfolding s' by (rule control_cong(1))
qed

lemma pin_new_task_control:
  "pin_new_task env ops tid p (s, w, m) = Some (s', w', m') \<Longrightarrow> control s' = control s"
  unfolding pin_new_task_def by (simp add: Let_def split_def elapsed_def split: if_splits) auto

lemma created_control:
  "a1_slot_TaskCreated env ops tid (s, w, m) = Some (s', w', m') \<Longrightarrow> control s' = control s"
  using pin_new_task_control
  by (fastforce simp: a1_slot_TaskCreated_def bind_eq_Some_conv split: if_splits)

lemma terminated_control:
  "a1_slot_TaskTerminated env ops tid (s, w, m) = Some (s', w', m') \<Longrightarrow> control s' = control s"
  by (auto simp: a1_slot_TaskTerminated_def Let_def split_def elapsed_def split: if_splits)

text \<open>The comparison keeps the best of the results.\<close>

lemma update_best_inv:
  assumes "monitor_type s \<noteq> UNKNOWN_type" and "current_pinning s = int (length rs)"
    and "if rs = [] then best_pinning s = -1
      else best_pinning s = int (fst (best_of (monitor_type s) rs)) \<and> best_performance s = snd (best_of (monitor_type s) rs)"
  shows "\<exists>b v. update_best r s = Some (s\<lparr>best_performance := v, best_pinning := int b\<rparr>) \<and>
    best_of (monitor_type s) (rs @ [r]) = (b, v)"
proof (cases "rs = []")
  case True
  then show ?thesis using assms by (cases "monitor_type s") (auto simp: update_best_def Let_def)
next
  case False
  obtain b v where bv: "best_of (monitor_type s) rs = (b, v)" by fastforce
  then have s: "best_pinning s = int b" "best_performance s = v" using assms(3) False by auto
  have keep: "s\<lparr>best_performance := v, best_pinning := int b\<rparr> = s" using s by simp
  show ?thesis
    using assms(1,2) s bv False keep
    by (cases "monitor_type s") (auto simp: update_best_def Let_def best_of_snoc)
qed

lemma stopPinning_inv:
  assumes inv: "a1_inv s rs" and "measure_timer s"
    and meas: "measure_pinning env ops proc (s\<lparr>measure_timer := False\<rparr>, w, m) = Some (r, s1, w1, m1)"
    and slot: "slot_stopPinning env ops proc (s\<lparr>measure_timer := False\<rparr>, w, m) = Some (s', w', m')"
  shows "a1_inv s' (rs @ [r])"
proof -
  have outstanding: "init_timer s = False" "queued_start s = 0" "warmup_timer s = False" "length rs < length (pinnings s)"
    using inv assms(2) by (auto simp: a1_inv_def of_bool_def split: if_splits)
  have c1: "control s1 = control (s\<lparr>measure_timer := False, notifications := False\<rparr>)"
    using control_measure[OF meas] by simp
  then have s1: "pinnings s1 = pinnings s" "monitor_type s1 = monitor_type s" "current_pinning s1 = int (length rs)"
    "best_pinning s1 = best_pinning s" "best_performance s1 = best_performance s" "monitor_set s1"
    "\<not> init_timer s1" "\<not> warmup_timer s1" "\<not> measure_timer s1" "\<not> notifications s1" "queued_start s1 = 0"
    using inv outstanding by (auto simp: control_def a1_inv_def)
  have mt: "monitor_type s1 \<noteq> UNKNOWN_type" using inv s1(2) by (simp add: a1_inv_def)
  have best: "if rs = [] then best_pinning s1 = -1
      else best_pinning s1 = int (fst (best_of (monitor_type s1) rs)) \<and> best_performance s1 = snd (best_of (monitor_type s1) rs)"
    using inv s1(2,4,5) by (simp add: a1_inv_def)
  obtain b v where ub: "update_best r s1 = Some (s1\<lparr>best_performance := v, best_pinning := int b\<rparr>)"
    and bv: "best_of (monitor_type s) (rs @ [r]) = (b, v)"
    using update_best_inv[OF mt s1(3) best, of r] s1(2) by auto
  let ?s = "s1\<lparr>best_performance := v, best_pinning := int b, pinned_tasks := [], current_pinning := current_pinning s1 + 1\<rparr>"
  have after: "control s' = control (if length rs + 1 < length (pinnings s) then ?s\<lparr>queued_start := queued_start s1 + 1\<rparr> else ?s)"
  proof (cases "length rs + 1 < length (pinnings s)")
    case True
    then have "int (length rs) + 1 < int (length (pinnings s))" by simp
    then show ?thesis using slot meas ub s1(1,3) True by (auto simp: slot_stopPinning_def Let_def)
  next
    case False
    then have "\<not> int (length rs) + 1 < int (length (pinnings s))" by simp
    then obtain s2 w2 p where "refreshTasks (a_qt env) (a_fs env) (a_fuel env) proc (?s, w1) = Some (s2, w2)"
      "s' = fst (applyPinning env p (s2, w2))"
      using slot meas ub s1(1,3) by (auto simp: slot_stopPinning_def Let_def bind_eq_Some_conv split_def)
    then have "control s' = control ?s" by (metis control_apply control_refresh prod.collapse)
    then show ?thesis using False by simp
  qed
  have "a1_inv (if length rs + 1 < length (pinnings s) then ?s\<lparr>queued_start := queued_start s1 + 1\<rparr> else ?s) (rs @ [r])"
    using inv s1 bv outstanding by (auto simp: a1_inv_def)
  then show ?thesis using a1_inv_control[OF after] by simp
qed

lemma a1_reach_inv: "a1_reach ops proc st rs \<Longrightarrow> a1_inv (fst st) rs"
proof (induction rule: a1_reach.induct)
  case (ready s w m)
  then show ?case by (auto simp: a1_ready_def a1_inv_def)
next
  case (init_timeout s w m rs env st)
  obtain s' w' m' where st: "st = (s', w', m')" by (cases st) auto
  have "a1_inv (s\<lparr>init_timer := False, notifications := True, warmup_timer := True\<rparr>) rs"
    using init_timeout.IH init_timeout.hyps(2) by (auto simp: a1_inv_def split: if_splits)
  with a1_inv_control[OF startPinning_control] init_timeout.hyps(3) show ?case by (force simp: st)
next
  case (queued s w m rs env st)
  obtain s' w' m' where st: "st = (s', w', m')" by (cases st) auto
  have "a1_inv (s\<lparr>queued_start := queued_start s - 1, notifications := True, warmup_timer := True\<rparr>) rs"
    using queued.IH queued.hyps(2) by (auto simp: a1_inv_def split: if_splits)
  with a1_inv_control[OF startPinning_control] queued.hyps(3) show ?case by (force simp: st)
next
  case (warmup_timeout s w m rs env st)
  obtain s' w' m' where st: "st = (s', w', m')" by (cases st) auto
  have "a1_inv (s\<lparr>warmup_timer := False, measure_timer := True\<rparr>) rs"
    using warmup_timeout.IH warmup_timeout.hyps(2) by (auto simp: a1_inv_def split: if_splits)
  with a1_inv_control[OF startMonitor_control] warmup_timeout.hyps(3) show ?case by (force simp: st)
next
  case (measure_timeout s w m rs env r st1 st)
  then show ?case by (cases st; cases st1) (auto intro: stopPinning_inv)
next
  case (task_created s w m rs env tid st)
  then show ?case using a1_inv_control[OF created_control] by (cases st) force
next
  case (task_terminated s w m rs env tid st)
  then show ?case using a1_inv_control[OF terminated_control] by (cases st) force
next
  case (phase_changed s w m rs)
  then show ?case by (auto simp: a1_slot_PhaseChanged_def a1_inv_def split: if_splits)
qed


subsubsection \<open>No slot goes wrong\<close>

definition walk_ok :: "a1_env \<Rightarrow> observed_process \<Rightarrow> bool" where
  "walk_ok env proc \<longleftrightarrow> (op_pid proc, op_pid proc) \<notin> (child_rel (a_qt env) (a_fs env))\<^sup>+ \<and>
     length (listed_pids (a_qt env) (a_fs env)) < a_fuel env"

lemma refreshTasks_total:
  assumes "walk_ok env proc"
  shows "\<exists>s' w'. refreshTasks (a_qt env) (a_fs env) (a_fuel env) proc (s, w) = Some (s', w') \<and>
    (\<exists>ts. s' = s\<lparr>tasks := ts\<rparr>)"
proof -
  obtain t c where "getProcessTree (a_qt env) (a_fs env) (a_fuel env) proc (runtime w) = Some (t, c)"
    using getProcessTree_total[of proc "a_qt env" "a_fs env" "a_fuel env" "runtime w"] assms
    by (auto simp: walk_ok_def)
  then show ?thesis by (auto simp: refreshTasks_def)
qed

lemma checkPinnedTasks_total:
  assumes "walk_ok env proc" and "monitor_set s"
  shows "\<exists>s' w' m'. checkPinnedTasks env ops proc (s, w, m) = Some (s', w', m') \<and> control s' = control s"
proof -
  obtain t c where "getProcessTree (a_qt env) (a_fs env) (a_fuel env) proc (runtime w) = Some (t, c)"
    using getProcessTree_total[of proc "a_qt env" "a_fs env" "a_fuel env" "runtime w"] assms(1)
    by (auto simp: walk_ok_def)
  with assms(2) have "\<exists>st. checkPinnedTasks env ops proc (s, w, m) = Some st"
    by (auto simp: checkPinnedTasks_def Let_def split_def)
  then show ?thesis using control_check by (metis prod_cases3)
qed

lemma startPinning_total:
  assumes "walk_ok env proc" and "current_pinning s = int k" and "k < length (pinnings s)"
  shows "\<exists>st. slot_startPinning env proc (s, w, m) = Some st"
  using refreshTasks_total[OF assms(1), of s w] assms(2,3)
  by (auto simp: slot_startPinning_def Let_def split_def)

lemma startMonitor_total:
  assumes "walk_ok env proc" and "monitor_set s"
  shows "\<exists>st. slot_startMonitor env ops proc (s, w, m) = Some st"
  using checkPinnedTasks_total[OF assms, of ops w m] assms(2)
  by (auto simp: slot_startMonitor_def Let_def split_def control_def)

lemma measure_total:
  assumes "walk_ok env proc" and "monitor_set s"
  shows "\<exists>r s' w' m'. measure_pinning env ops proc (s, w, m) = Some (r, s', w', m')"
  using checkPinnedTasks_total[OF assms(1), of "s\<lparr>notifications := False\<rparr>" ops w m] assms(2)
  by (auto simp: measure_pinning_def Let_def split_def control_def)

lemma pin_new_task_total: "monitor_set s \<Longrightarrow> pin_new_task env ops tid p (s, w, m) \<noteq> None"
  by (simp add: pin_new_task_def Let_def split_def)

lemma stopPinning_total:
  assumes "walk_ok env proc" and inv: "a1_inv s rs" and "measure_timer s"
  shows "\<exists>st. slot_stopPinning env ops proc (s\<lparr>measure_timer := False\<rparr>, w, m) = Some st"
proof -
  have s: "monitor_set s" "length rs < length (pinnings s)"
    using inv assms(3) by (auto simp: a1_inv_def split: if_splits)
  obtain r s1 w1 m1 where meas: "measure_pinning env ops proc (s\<lparr>measure_timer := False\<rparr>, w, m) = Some (r, s1, w1, m1)"
    using measure_total[OF assms(1), of "s\<lparr>measure_timer := False\<rparr>" ops w m] s(1) by auto
  have c1: "control s1 = control (s\<lparr>measure_timer := False, notifications := False\<rparr>)"
    using control_measure[OF meas] by simp
  then have s1: "pinnings s1 = pinnings s" "monitor_type s1 \<noteq> UNKNOWN_type" "current_pinning s1 = int (length rs)"
    "if rs = [] then best_pinning s1 = -1
      else best_pinning s1 = int (fst (best_of (monitor_type s1) rs)) \<and> best_performance s1 = snd (best_of (monitor_type s1) rs)"
    using inv by (auto simp: control_def a1_inv_def)
  obtain b v where ub: "update_best r s1 = Some (s1\<lparr>best_performance := v, best_pinning := int b\<rparr>)"
    and bv: "best_of (monitor_type s1) (rs @ [r]) = (b, v)"
    using update_best_inv[OF s1(2-4), of r] by auto
  have b: "b < length (pinnings s)" using best_of_less[of "rs @ [r]" "monitor_type s1"] bv s(2) by simp
  let ?s = "s1\<lparr>best_performance := v, best_pinning := int b, pinned_tasks := [], current_pinning := current_pinning s1 + 1\<rparr>"
  show ?thesis
    using refreshTasks_total[OF assms(1), of ?s w1] b s1(1) meas ub
    by (auto simp: slot_stopPinning_def Let_def split_def)
qed

text \<open>
  C11. Autopin1 never gets stuck and never leaves its containers: in every reachable state, as long
  as pinnings are left to test, exactly one timeout or queued call is outstanding, and the slot it
  runs returns; so do the slots for new, terminated tasks and phase changes. (The environment must
  list \<open>/proc\<close> as a forest and give the walk enough fuel.)
\<close>

theorem autopin1_progress:
  assumes "a1_reach ops proc (s, w, m) rs" and "walk_ok env proc"
  shows "(length rs < length (pinnings s) \<longleftrightarrow>
      of_bool (init_timer s) + queued_start s + of_bool (warmup_timer s) + of_bool (measure_timer s) = (1::nat)) \<and>
    (init_timer s \<longrightarrow> (\<exists>st. slot_startPinning env proc (s\<lparr>init_timer := False\<rparr>, w, m) = Some st)) \<and>
    (queued_start s > 0 \<longrightarrow> (\<exists>st. slot_startPinning env proc (s\<lparr>queued_start := queued_start s - 1\<rparr>, w, m) = Some st)) \<and>
    (warmup_timer s \<longrightarrow> (\<exists>st. slot_startMonitor env ops proc (s\<lparr>warmup_timer := False\<rparr>, w, m) = Some st)) \<and>
    (measure_timer s \<longrightarrow> (\<exists>st. slot_stopPinning env ops proc (s\<lparr>measure_timer := False\<rparr>, w, m) = Some st)) \<and>
    (\<forall>tid. \<exists>st. a1_slot_TaskCreated env ops tid (s, w, m) = Some st) \<and>
    (\<forall>tid. \<exists>st. a1_slot_TaskTerminated env ops tid (s, w, m) = Some st)"
proof -
  have inv: "a1_inv s rs" using a1_reach_inv[OF assms(1)] by simp
  then have s: "monitor_set s" "current_pinning s = int (length rs)"
    "notifications s \<longleftrightarrow> warmup_timer s \<or> measure_timer s"
    and out: "of_bool (init_timer s) + queued_start s + of_bool (warmup_timer s) + of_bool (measure_timer s)
       = (if length rs < length (pinnings s) then 1 else (0::nat))"
    by (auto simp: a1_inv_def)
  have left: "length rs < length (pinnings s)" if "init_timer s \<or> queued_start s > 0 \<or> warmup_timer s \<or> measure_timer s"
    using out that by (auto split: if_splits)
  have created: "\<exists>st. a1_slot_TaskCreated env ops tid (s, w, m) = Some st" for tid
  proof (cases "notifications s")
    case True
    then have "vec_at (pinnings s) (current_pinning s) = Some (pinnings s ! length rs)" using s(2,3) left by simp
    moreover obtain s1 w1 m1 where "pin_new_task env ops tid (pinnings s ! length rs) (s, w, m) = Some (s1, w1, m1)"
      using pin_new_task_total[OF s(1)] by (metis not_Some_eq prod_cases3)
    ultimately show ?thesis by (auto simp: a1_slot_TaskCreated_def)
  qed (simp add: a1_slot_TaskCreated_def)
  have terminated: "\<exists>st. a1_slot_TaskTerminated env ops tid (s, w, m) = Some st" for tid
    using s(1) by (auto simp: a1_slot_TaskTerminated_def Let_def split_def)
  have start: "\<exists>st. slot_startPinning env proc (s\<lparr>init_timer := False\<rparr>, w, m) = Some st" if "init_timer s"
    using startPinning_total[OF assms(2), of "s\<lparr>init_timer := False\<rparr>" "length rs" w m] s(2) left that by simp
  have queued: "\<exists>st. slot_startPinning env proc (s\<lparr>queued_start := queued_start s - 1\<rparr>, w, m) = Some st" if "queued_start s > 0"
    using startPinning_total[OF assms(2), of "s\<lparr>queued_start := queued_start s - 1\<rparr>" "length rs" w m] s(2) left that by simp
  have warm: "\<exists>st. slot_startMonitor env ops proc (s\<lparr>warmup_timer := False\<rparr>, w, m) = Some st"
    using startMonitor_total[OF assms(2), of "s\<lparr>warmup_timer := False\<rparr>" ops w m] s(1) by simp
  have stop: "\<exists>st. slot_stopPinning env ops proc (s\<lparr>measure_timer := False\<rparr>, w, m) = Some st" if "measure_timer s"
    using stopPinning_total[OF assms(2) inv that] .
  from out have "length rs < length (pinnings s) \<longleftrightarrow>
      of_bool (init_timer s) + queued_start s + of_bool (warmup_timer s) + of_bool (measure_timer s) = (1::nat)"
    by (auto split: if_splits)
  then show ?thesis using created terminated start queued warm stop by blast
qed

definition demo_a1 :: autopin1 where
  "demo_a1 = autopin1_new\<lparr>pinnings := [[0, 1]], monitor_set := True, monitor_type := MAX_type, init_timer := True\<rparr>"

definition demo_env :: a1_env where
  "demo_env = \<lparr>a_qt = demo_conv, a_fs = demo_fs, a_fuel = 3, a_aff = (\<lambda>_ _ _. 0), a_elapsed = int,
     a_uninit = \<lparr>pt_tid = 0, pt_start = 0, pt_stop = 0, pt_result = Fin 0\<rparr>, a_rnd = Fin\<rparr>"

definition demo_random :: random_env where
  "demo_random = \<lparr>qrand = (\<lambda>n. int n), RAND_MAX = 2147483647, rounding = Fin\<rparr>"

definition demo_host :: world where
  "demo_host = \<lparr>pinning = [], affinity_calls = [], runtime = AutopinContext_new ''w''\<rparr>"

lemma demo_a1_ready: "a1_ready demo_a1"
  by (simp add: a1_ready_def demo_a1_def autopin1_new_def strategy.defs)

lemma demo_walk_ok: "walk_ok demo_env demo_op"
proof -
  have "trans {(p::int, c). p < c}" by (auto intro: transI)
  then have "(child_rel demo_conv demo_fs)\<^sup>+ \<subseteq> {(p, c). p < c}"
    using trancl_mono_subset[OF demo_child_rel] by (simp add: trancl_id)
  then show ?thesis by (auto simp: walk_ok_def demo_env_def demo_listed)
qed


theorem autopin1_progress_witness:
  "\<exists>st. slot_startPinning demo_env demo_op (demo_a1\<lparr>init_timer := False\<rparr>, demo_host, random_new ''r'') = Some st"
proof -
  have r: "a1_reach (random_ops demo_random) demo_op (demo_a1, demo_host, random_new ''r'') []"
    using demo_a1_ready by (rule a1_reach.ready)
  have "init_timer demo_a1" by (simp add: demo_a1_def)
  with autopin1_progress[OF r demo_walk_ok] show ?thesis by blast
qed

subsection \<open>Configuration errors\<close>

lemma fatal_BAD_CONFIG:
  "fatal BAD_CONFIG opt \<longleftrightarrow> opt \<in> {''option_format'', ''option_missing'', ''inconsistent''}"
  by (simp add: fatal_def fatal_reports_def)

lemma read_schedule_ok:
  assumes "read_schedule qt ps res c = (r, c')" and "\<not> isError c'"
  shows "length r = length res + length ps \<and> \<not> isError c"
  using assms by (induction qt ps res c rule: read_schedule.induct) (auto simp: fatal_BAD_CONFIG split: option.splits)

lemma readPinnings_ok:
  assumes "readPinnings qt config opt c = (r, c')" and "\<not> isError c'"
  shows "r \<noteq> [] \<and> \<not> isError c"
proof -
  have "configOptionExists config opt > 0" and r: "read_schedule qt (getConfigOptionList config opt) [] c = (r, c')"
    using assms by (auto simp: readPinnings_def fatal_BAD_CONFIG split: if_splits)
  then show ?thesis using read_schedule_ok[OF r assms(2)] by (auto simp: configOptionExists_def)
qed

lemma read_skip_error: "isError (snd (read_skip qt es sk c)) \<longleftrightarrow> isError c"
  by (induction es arbitrary: sk c) (auto simp: fatal_BAD_CONFIG split: option.splits)

lemma check_time_error: "isError (check_time b c) \<longleftrightarrow> isError c"
  by (simp add: check_time_def fatal_BAD_CONFIG)

text \<open>What \<open>init\<close> decides, apart from the times and the options.\<close>

lemma autopin1_init_control:
  assumes "autopin1_init qt config n monitors (s, w) = (s', w')"
  shows "\<exists>ps c. readPinnings qt config ''autopin1.schedule'' (runtime w) = (ps, c) \<and>
    (isError (runtime w') \<longleftrightarrow> isError c) \<and>
    control s' = control (if monitors \<noteq> [] \<and> hd monitors \<noteq> UNKNOWN_type
      then s\<lparr>pinnings := ps, monitor_set := True, monitor_type := hd monitors\<rparr> else s\<lparr>pinnings := ps\<rparr>)"
proof -
  obtain ps c where r: "readPinnings qt config ''autopin1.schedule'' (runtime w) = (ps, c)" by fastforce
  have "runtime (ControlStrategy_init n w) = runtime w" by (simp add: ControlStrategy_init_def)
  with assms r show ?thesis
    by (auto simp: autopin1_init_def Let_def split_def read_skip_error check_time_error control_def fatal_BAD_CONFIG)
qed

text \<open>
  A configuration that leaves the context without an error and has a monitor of known type makes
  the strategy ready: after \<open>init\<close> and \<open>slot_watchdogReady\<close> there is a pinning to test, the monitor
  is set and only the init timer runs.
\<close>

theorem autopin1_init_ready:
  assumes "autopin1_init qt config n monitors (autopin1_new, w) = (s', w')" and "\<not> isError (runtime w')"
    and "monitors \<noteq> []" and "hd monitors \<noteq> UNKNOWN_type"
  shows "a1_ready (snd (a1_slot_watchdogReady proc s'))"
proof -
  from autopin1_init_control[OF assms(1)] obtain ps c where
    r: "readPinnings qt config ''autopin1.schedule'' (runtime w) = (ps, c)" and e: "isError (runtime w') \<longleftrightarrow> isError c"
    and s': "control s' = control (autopin1_new\<lparr>pinnings := ps, monitor_set := True, monitor_type := hd monitors\<rparr>)"
    using assms(3,4) by auto
  have "ps \<noteq> []" using readPinnings_ok[OF r] e assms(2) by simp
  with s' assms(4) show ?thesis
    by (auto simp: a1_slot_watchdogReady_def a1_ready_def control_def autopin1_new_def strategy.defs)
qed

lemma demo_schedule_init:
  "isError (runtime (snd (autopin1_init dec_conv [''autopin1.schedule'' \<mapsto> [''0:1'']] 2 [MAX_type] (autopin1_new, demo_host))))
     \<longleftrightarrow> False"
proof -
  have n: "dec_int ''0'' = Some 0" "dec_int ''1'' = Some 1" by code_simp+
  obtain s' w' where i: "autopin1_init dec_conv [''autopin1.schedule'' \<mapsto> [''0:1'']] 2 [MAX_type] (autopin1_new, demo_host) = (s', w')"
    by fastforce
  have "readPinnings dec_conv [''autopin1.schedule'' \<mapsto> [''0:1'']] ''autopin1.schedule'' (runtime demo_host)
      = ([[0, 1]], runtime demo_host)"
    by (simp add: readPinnings_def configOptionExists_def getConfigOptionList_def split_skip_empty_def dec_conv_def n)
  with autopin1_init_control[OF i] i show ?thesis by (simp add: demo_host_def)
qed

theorem autopin1_init_ready_witness:
  "\<exists>s' w'. autopin1_init dec_conv [''autopin1.schedule'' \<mapsto> [''0:1'']] 2 [MAX_type] (autopin1_new, demo_host) = (s', w') \<and>
     a1_ready (snd (a1_slot_watchdogReady demo_op s'))"
proof -
  obtain s' w' where i: "autopin1_init dec_conv [''autopin1.schedule'' \<mapsto> [''0:1'']] 2 [MAX_type] (autopin1_new, demo_host) = (s', w')"
    by fastforce
  with demo_schedule_init autopin1_init_ready[OF i, of demo_op] show ?thesis by simp
qed

text \<open>
  A configuration without a usable monitor is reported but not treated as an error: \<open>init\<close> leaves
  the error state as reading the schedule left it and the monitor pointer null, and the first
  \<open>slot_startMonitor\<close> with a pinned task calls through it.
\<close>

theorem autopin1_without_monitor:
  assumes "autopin1_init qt config n [] (autopin1_new, w) = (s', w')"
  shows "(isError (runtime w') \<longleftrightarrow> isError (snd (readPinnings qt config ''autopin1.schedule'' (runtime w)))) \<and>
    \<not> monitor_set s' \<and>
    (trace proc \<longrightarrow> slot_startMonitor env ops proc (s'\<lparr>pinned_tasks := t # ts\<rparr>, v, m) = None)"
proof -
  from autopin1_init_control[OF assms] have "\<not> monitor_set s'"
    and "isError (runtime w') \<longleftrightarrow> isError (snd (readPinnings qt config ''autopin1.schedule'' (runtime w)))"
    by (auto simp: control_def autopin1_new_def strategy.defs)
  then show ?thesis by (simp add: slot_startMonitor_def checkPinnedTasks_def)
qed

theorem autopin1_without_monitor_witness:
  "\<exists>s' w'. autopin1_init dec_conv [''autopin1.schedule'' \<mapsto> [''0:1'']] 2 [] (autopin1_new, demo_host) = (s', w') \<and>
     \<not> monitor_set s' \<and> slot_startMonitor demo_env (random_ops demo_random) (demo_op\<lparr>trace := True\<rparr>)
       (s'\<lparr>pinned_tasks := [a_uninit demo_env]\<rparr>, w', random_new ''r'') = None"
proof -
  obtain s' w' where i: "autopin1_init dec_conv [''autopin1.schedule'' \<mapsto> [''0:1'']] 2 [] (autopin1_new, demo_host) = (s', w')"
    by fastforce
  with autopin1_without_monitor[OF i, of "demo_op\<lparr>trace := True\<rparr>" demo_env "random_ops demo_random" "a_uninit demo_env" "[]"
      w' "random_new ''r''"] show ?thesis by auto
qed

lemma timer_ms_bounds: "timer_ms t = (if \<bar>t\<bar> \<le> 2147483 then Some (1000 * t) else None)"
  by (auto simp: timer_ms_def Let_def)

text \<open>
  C40. The times of autopin1: \<open>init\<close> takes them from the configuration, and whatever they are, only the schedule decides whether
  there is an error; times that are reported as invalid are used all the same. The intervals of the three timers are the
  times in milliseconds when none of them is more than 2147483 seconds, and otherwise the multiplication overflows.
\<close>

theorem autopin1_intervals_bounds:
  assumes "autopin1_init qt config n monitors (s, w) = (s', w')"
  shows "(isError (runtime w') \<longleftrightarrow> isError (snd (readPinnings qt config ''autopin1.schedule'' (runtime w)))) \<and>
    init_time s' = option_int qt config ''autopin1.init_time'' 15 \<and>
    warmup_time s' = option_int qt config ''autopin1.warmup_time'' 15 \<and>
    measure_time s' = option_int qt config ''autopin1.measure_time'' 30 \<and>
    autopin1_intervals s' =
      (if \<bar>init_time s'\<bar> \<le> 2147483 \<and> \<bar>warmup_time s'\<bar> \<le> 2147483 \<and> \<bar>measure_time s'\<bar> \<le> 2147483
       then Some (1000 * init_time s', 1000 * warmup_time s', 1000 * measure_time s') else None)"
proof (intro conjI)
  show "isError (runtime w') \<longleftrightarrow> isError (snd (readPinnings qt config ''autopin1.schedule'' (runtime w)))"
    using autopin1_init_control[OF assms] by auto
  show "init_time s' = option_int qt config ''autopin1.init_time'' 15" "warmup_time s' = option_int qt config ''autopin1.warmup_time'' 15"
    "measure_time s' = option_int qt config ''autopin1.measure_time'' 30"
    using assms by (auto simp: autopin1_init_def Let_def split_def)
qed (simp add: autopin1_intervals_def timer_ms_bounds)

text \<open>25 days of init time are accepted and overflow.\<close>

theorem autopin1_intervals_bounds_witness:
  "\<exists>s' w'. autopin1_init dec_conv [''autopin1.schedule'' \<mapsto> [''0:1''], ''autopin1.init_time'' \<mapsto> [number 2160000]] 2 [MAX_type]
      (autopin1_new, demo_host) = (s', w') \<and> \<not> isError (runtime w') \<and> autopin1_intervals s' = None"
proof -
  let ?config = "[''autopin1.schedule'' \<mapsto> [''0:1''], ''autopin1.init_time'' \<mapsto> [number 2160000]]"
  have n: "dec_int ''0'' = Some 0" "dec_int ''1'' = Some 1" by code_simp+
  have m: "dec_int (number 2160000) = Some 2160000" using dec_int_number[of 2160000 "[]"] by simp
  obtain s' w' where i: "autopin1_init dec_conv ?config 2 [MAX_type] (autopin1_new, demo_host) = (s', w')" by fastforce
  have "\<not> isError (snd (readPinnings dec_conv ?config ''autopin1.schedule'' (runtime demo_host)))"
    by (simp add: readPinnings_def configOptionExists_def getConfigOptionList_def split_skip_empty_def dec_conv_def n demo_host_def)
  moreover have "option_int dec_conv ?config ''autopin1.init_time'' 15 = 2160000"
    by (simp add: option_int_def configOptionExists_def getConfigOptionList_def getConfigOptionInt_def getConfigOption_def dec_conv_def int_or_zero_def m)
  ultimately show ?thesis using autopin1_intervals_bounds[OF i] i by auto
qed

end
