(* ===== verification/Compact.thy ===== *)
theory Compact
  imports Control_Strategy
begin

text \<open>
  \<open>src/AutopinPlus/Strategy/Compact/Main.cpp\<close>: the strategy that places a new task near the tasks
  of its process. The record of the base class is extended with \<open>new_task_tid\<close>. The distances are
  \<open>uint\<close> values, the smallest one so far is a \<open>size_t\<close> that starts at the number of CPUs.
\<close>

record compact = strategy +
  new_task_tid :: int

definition compact_new :: compact where
  "compact_new = strategy.extend ControlStrategy_new \<lparr>new_task_tid = 0\<rparr>"

definition compact_init ::
  "qt_conv \<Rightarrow> string_map \<Rightarrow> nat \<Rightarrow> compact \<times> world \<Rightarrow> compact \<times> world" where
  "compact_init qt config cpuCount = (\<lambda>(s, w).
     snd (init_interval qt config ''compact'' (s, ControlStrategy_init cpuCount w)))"

subsection \<open>The choice of a CPU\<close>

definition uint_of :: "int \<Rightarrow> nat" where \<comment> \<open>conversion of an \<open>int\<close> to \<open>uint\<close>\<close>
  "uint_of d = unat (word_of_int d :: 32 word)"

fun compact_inner ::
  "cpu_info \<Rightarrow> int \<Rightarrow> Pinning \<Rightarrow> nat \<Rightarrow> nat list \<Rightarrow> nat \<times> int \<Rightarrow> (nat \<times> int) option" where
  "compact_inner ci p pins i [] mp = Some mp"
| "compact_inner ci p pins i (j # js) mp =
     (if t_pid (pins ! j) = p then
        (case getCpuDistance ci (int i) (int j) of None \<Rightarrow> None
         | Some d \<Rightarrow>
             let distance = uint_of d;
                 (min_distance, pin_cpu_pos) = mp
             in compact_inner ci p pins i js
                  (if distance < min_distance then (distance, int i) else (min_distance, pin_cpu_pos)))
      else compact_inner ci p pins i js mp)"

fun compact_outer ::
  "cpu_info \<Rightarrow> int \<Rightarrow> Pinning \<Rightarrow> nat list \<Rightarrow> nat \<times> int \<Rightarrow> (nat \<times> int) option" where
  "compact_outer ci p pins [] mp = Some mp"
| "compact_outer ci p pins (i # is) mp =
     (if isCpuFree (pins ! i) then
        let (min_distance, pin_cpu_pos) = mp;
            pin_cpu_pos = (if pin_cpu_pos = -1 then int i else pin_cpu_pos)
        in case compact_inner ci p pins i [0..<length pins] (min_distance, pin_cpu_pos) of
             None \<Rightarrow> None
           | Some mp \<Rightarrow> compact_outer ci p pins is mp
      else compact_outer ci p pins is mp)"

definition compact_getPinning :: "cpu_info \<Rightarrow> observed_process \<Rightarrow> Pinning \<Rightarrow> compact \<Rightarrow> (Pinning \<times> compact) option" where
  "compact_getPinning ci proc current_pinning s =
     (if new_task_tid s = 0 then Some (current_pinning, s)
      else case compact_outer ci (op_pid proc) current_pinning [0..<length current_pinning]
                  (length current_pinning, -1) of
        None \<Rightarrow> None
      | Some (min_distance, pin_cpu_pos) \<Rightarrow>
          if pin_cpu_pos \<noteq> -1 then
            map_option (\<lambda>result. (result, s))
              (vec_set current_pinning pin_cpu_pos \<lparr>t_pid = op_pid proc, t_tid = new_task_tid s\<rparr>)
          else Some (current_pinning, s))"

definition compact_slot_TaskCreated ::
  "cpu_info \<Rightarrow> affinity_oracle \<Rightarrow> observed_process \<Rightarrow> int \<Rightarrow> compact \<times> world \<Rightarrow> (compact \<times> world) option" where
  "compact_slot_TaskCreated ci aff proc tid = (\<lambda>(s, w).
     map_option (\<lambda>(s, w). (s\<lparr>new_task_tid := 0\<rparr>, w))
       (slot_TaskCreated (compact_getPinning ci proc) aff proc tid (s\<lparr>new_task_tid := tid\<rparr>, w)))"

subsection \<open>The CPU chosen is the nearest free one\<close>

text \<open>
  The distance of a CPU to the own tasks as the loop sees it: the smallest distance to a CPU of
  the process, and never more than the number of CPUs.
\<close>

definition near_step :: "cpu_info \<Rightarrow> int \<Rightarrow> Pinning \<Rightarrow> nat \<Rightarrow> nat \<Rightarrow> nat \<Rightarrow> nat" where
  "near_step ci p pins i j m =
     (if t_pid (pins ! j) = p then min m (uint_of (the (getCpuDistance ci (int i) (int j)))) else m)"

definition own_distance :: "cpu_info \<Rightarrow> int \<Rightarrow> Pinning \<Rightarrow> nat \<Rightarrow> nat" where
  "own_distance ci p pins i =
     fold (near_step ci p pins i) [0..<length pins] (length pins)"

definition distances_known :: "cpu_info \<Rightarrow> nat \<Rightarrow> bool" where
  "distances_known ci n \<longleftrightarrow> (\<forall>i<n. \<forall>j<n. getCpuDistance ci (int i) (int j) \<noteq> None)"

definition free_cpus :: "Pinning \<Rightarrow> nat list" where
  "free_cpus pins = filter (\<lambda>i. pins ! i = emptyTask) [0..<length pins]"

lemma near_min: "fold (near_step ci p pins i) js (min a b) = min a (fold (near_step ci p pins i) js b)"
  by (induction js arbitrary: b) (auto simp: near_step_def min.assoc)

lemma near_le: "fold (near_step ci p pins i) js m \<le> m"
  using near_min[of ci p pins i js m m] by (simp add: min_def split: if_splits)

lemma own_distance_le: "own_distance ci p pins i \<le> length pins"
  unfolding own_distance_def by (rule near_le)

lemma compact_inner_eq:
  assumes "\<forall>j\<in>set js. getCpuDistance ci (int i) (int j) \<noteq> None"
  shows "compact_inner ci p pins i js (m, pos) =
    Some (fold (near_step ci p pins i) js m, if fold (near_step ci p pins i) js m < m then int i else pos)"
  using assms
proof (induction js arbitrary: m pos)
  case Nil
  then show ?case by simp
next
  case (Cons j js)
  then obtain d where d: "getCpuDistance ci (int i) (int j) = Some d" by auto
  show ?case
  proof (cases "t_pid (pins ! j) = p \<and> uint_of d < m")
    case True
    moreover have "fold (near_step ci p pins i) js (uint_of d) < m"
      using True near_le[of ci p pins i js "uint_of d"] by simp
    ultimately show ?thesis using Cons d by (simp add: near_step_def[of ci p pins i j] min_def)
  next
    case False
    then show ?thesis using Cons d by (auto simp: near_step_def[of ci p pins i j] min_def)
  qed
qed

text \<open>The outcome of the outer loop over the first \<open>k\<close> CPUs.\<close>

definition nearest_upto :: "cpu_info \<Rightarrow> int \<Rightarrow> Pinning \<Rightarrow> nat \<Rightarrow> nat \<times> int \<Rightarrow> bool" where
  "nearest_upto ci p pins k = (\<lambda>(m, pos).
     ((\<forall>f<k. pins ! f \<noteq> emptyTask) \<and> m = length pins \<and> pos = -1) \<or>
     (\<exists>i<k. pins ! i = emptyTask \<and> pos = int i \<and> m = own_distance ci p pins i \<and>
        (\<forall>f<k. pins ! f = emptyTask \<longrightarrow> own_distance ci p pins i \<le> own_distance ci p pins f) \<and>
        (\<forall>f<i. pins ! f = emptyTask \<longrightarrow> own_distance ci p pins i < own_distance ci p pins f)))"

lemma compact_outer_append:
  "compact_outer ci p pins (is @ js) mp =
     (case compact_outer ci p pins is mp of None \<Rightarrow> None | Some mp \<Rightarrow> compact_outer ci p pins js mp)"
  by (induction "is" arbitrary: mp) (auto simp: Let_def split_def split: option.splits)

lemma nearest_step:
  assumes known: "distances_known ci (length pins)" and k: "k < length pins"
    and inv: "nearest_upto ci p pins k (m, pos)"
  shows "\<exists>mp. compact_outer ci p pins [k] (m, pos) = Some mp \<and> nearest_upto ci p pins (Suc k) mp"
proof (cases "pins ! k = emptyTask")
  case False
  then show ?thesis using inv by (auto simp: isCpuFree_def nearest_upto_def less_Suc_eq)
next
  case True
  let ?pos = "if pos = -1 then int k else pos" and ?d = "own_distance ci p pins"
  have "m \<le> length pins"
    using inv own_distance_le[of ci p pins] by (auto simp: nearest_upto_def)
  then have m: "fold (near_step ci p pins k) [0..<length pins] m = min m (?d k)"
    using near_min[of ci p pins k "[0..<length pins]" m "length pins"]
    by (simp add: own_distance_def min_absorb1)
  have "compact_inner ci p pins k [0..<length pins] (m, ?pos)
      = Some (min m (?d k), if min m (?d k) < m then int k else ?pos)"
    using known k by (subst compact_inner_eq) (auto simp: distances_known_def m)
  then have step: "compact_outer ci p pins [k] (m, pos) = Some (min m (?d k), if min m (?d k) < m then int k else ?pos)"
    using True by (simp add: isCpuFree_def Let_def)
  from inv consider (none) "\<forall>f<k. pins ! f \<noteq> emptyTask" "m = length pins" "pos = -1"
    | (some) i where "i < k" "pins ! i = emptyTask" "pos = int i" "m = ?d i"
        "\<forall>f<k. pins ! f = emptyTask \<longrightarrow> ?d i \<le> ?d f" "\<forall>f<i. pins ! f = emptyTask \<longrightarrow> ?d i < ?d f"
    unfolding nearest_upto_def by auto
  then have "nearest_upto ci p pins (Suc k) (min m (?d k), if min m (?d k) < m then int k else ?pos)"
  proof cases
    case none
    then show ?thesis
      using True own_distance_le[of ci p pins k] by (auto simp: nearest_upto_def less_Suc_eq min_def)
  next
    case some
    show ?thesis
    proof (cases "?d k < ?d i")
      case closer: True
      moreover have "?d k < ?d f" if "f < k" "pins ! f = emptyTask" for f
        using some(5) that closer by fastforce
      ultimately show ?thesis
        using some True unfolding nearest_upto_def by (auto simp: less_Suc_eq min_def less_imp_le)
    next
      case False
      then show ?thesis
        using some unfolding nearest_upto_def by (auto simp: less_Suc_eq min_def)
    qed
  qed
  with step show ?thesis by blast
qed

lemma compact_outer_nearest:
  assumes "distances_known ci (length pins)" and "k \<le> length pins"
  shows "\<exists>mp. compact_outer ci p pins [0..<k] (length pins, -1) = Some mp \<and> nearest_upto ci p pins k mp"
  using assms(2)
proof (induction k)
  case 0
  then show ?case by (simp add: nearest_upto_def)
next
  case (Suc k)
  then obtain m pos where "compact_outer ci p pins [0..<k] (length pins, -1) = Some (m, pos)"
    "nearest_upto ci p pins k (m, pos)" by auto
  then show ?case
    using nearest_step[OF assms(1), of k p m pos] Suc.prems by (auto simp: compact_outer_append)
qed

subsection \<open>Compact is a placing strategy\<close>

lemma compact_inner_pos:
  "compact_inner ci p pins i js (m, pos) = Some (m', pos') \<Longrightarrow> pos' = pos \<or> pos' = int i"
  by (induction js arbitrary: m pos) (auto simp: Let_def split: if_splits option.splits)

lemma compact_outer_pos:
  "compact_outer ci p pins is (m, pos) = Some (m', pos') \<Longrightarrow>
     pos' = pos \<or> (\<exists>i\<in>set is. pins ! i = emptyTask \<and> pos' = int i)"
proof (induction "is" arbitrary: m pos)
  case Nil
  then show ?case by simp
next
  case (Cons i "is")
  show ?case
  proof (cases "pins ! i = emptyTask")
    case True
    let ?pos = "if pos = -1 then int i else pos"
    obtain m1 pos1 where inner: "compact_inner ci p pins i [0..<length pins] (m, ?pos) = Some (m1, pos1)"
      and outer: "compact_outer ci p pins is (m1, pos1) = Some (m', pos')"
      using Cons.prems True by (auto simp: isCpuFree_def Let_def split: option.splits)
    from Cons.IH[OF outer] compact_inner_pos[OF inner] True show ?thesis by (auto split: if_splits)
  next
    case False
    with Cons show ?thesis by (auto simp: isCpuFree_def)
  qed
qed

interpretation compact: placing_strategy "compact_getPinning ci proc" "op_pid proc" new_task_tid for ci proc
proof
  fix old new :: Pinning and s s' :: compact
  assume g: "compact_getPinning ci proc old s = Some (new, s')"
  show "new = old \<or> (\<exists>i<length old. old ! i = emptyTask \<and> new = old[i := \<lparr>t_pid = op_pid proc, t_tid = new_task_tid s\<rparr>])"
  proof (cases "new_task_tid s = 0")
    case True
    with g show ?thesis by (simp add: compact_getPinning_def)
  next
    case False
    with g obtain m pos where o: "compact_outer ci (op_pid proc) old [0..<length old] (length old, -1) = Some (m, pos)"
      and n: "if pos \<noteq> -1 then vec_set old pos \<lparr>t_pid = op_pid proc, t_tid = new_task_tid s\<rparr> = Some new else new = old"
      by (auto simp: compact_getPinning_def split: option.splits if_splits)
    from compact_outer_pos[OF o] n show ?thesis by (auto split: if_splits)
  qed
qed (auto simp: compact_getPinning_def)

lemma compact_getPinning_nearest:
  assumes "distances_known ci (length pins)" and "new_task_tid s \<noteq> 0"
  shows "((\<forall>f<length pins. pins ! f \<noteq> emptyTask) \<and> compact_getPinning ci proc pins s = Some (pins, s)) \<or>
    (\<exists>i<length pins. pins ! i = emptyTask \<and>
       compact_getPinning ci proc pins s = Some (pins[i := \<lparr>t_pid = op_pid proc, t_tid = new_task_tid s\<rparr>], s) \<and>
       (\<forall>f<length pins. pins ! f = emptyTask \<longrightarrow>
          own_distance ci (op_pid proc) pins i \<le> own_distance ci (op_pid proc) pins f \<and>
          (f < i \<longrightarrow> own_distance ci (op_pid proc) pins i < own_distance ci (op_pid proc) pins f)))"
proof -
  obtain m pos where o: "compact_outer ci (op_pid proc) pins [0..<length pins] (length pins, -1) = Some (m, pos)"
    and near: "nearest_upto ci (op_pid proc) pins (length pins) (m, pos)"
    using compact_outer_nearest[OF assms(1) order_refl, of "op_pid proc"] by auto
  from near show ?thesis
    using assms(2) unfolding nearest_upto_def by (auto simp: compact_getPinning_def o)
qed

lemma compact_created_nearest:
  assumes "distances_known ci (length (pinning w))" and "tid \<noteq> 0" and "op_pid proc \<noteq> 0"
    and "\<And>cs cpu. aff cs tid cpu = 0"
  shows "\<exists>s' w'. compact_slot_TaskCreated ci aff proc tid (s, w) = Some (s', w') \<and>
    tasks s' = tasks s @ [tid] \<and> runtime w' = runtime w \<and>
    (if \<exists>f<length (pinning w). pinning w ! f = emptyTask then
       \<exists>i<length (pinning w). pinning w ! i = emptyTask \<and>
         pinning w' = (pinning w)[i := \<lparr>t_pid = op_pid proc, t_tid = tid\<rparr>] \<and>
         affinity_calls w' = affinity_calls w @ [(tid, int i)] \<and>
         (\<forall>f<length (pinning w). pinning w ! f = emptyTask \<longrightarrow>
            own_distance ci (op_pid proc) (pinning w) i \<le> own_distance ci (op_pid proc) (pinning w) f \<and>
            (f < i \<longrightarrow> own_distance ci (op_pid proc) (pinning w) i < own_distance ci (op_pid proc) (pinning w) f))
     else w' = w)"
proof -
  let ?s = "s\<lparr>new_task_tid := tid, tasks := tasks s @ [tid]\<rparr>"
  let ?t = "\<lparr>t_pid = op_pid proc, t_tid = tid\<rparr>"
  have slot: "compact_slot_TaskCreated ci aff proc tid (s, w) = map_option (\<lambda>(s, w). (s\<lparr>new_task_tid := 0\<rparr>, w))
      (changePinning (compact_getPinning ci proc) aff proc (?s, w))"
    by (simp add: compact_slot_TaskCreated_def slot_TaskCreated_def)
  from compact_getPinning_nearest[OF assms(1), of ?s proc] assms(2)
  consider (none) "\<forall>f<length (pinning w). pinning w ! f \<noteq> emptyTask"
      "compact_getPinning ci proc (pinning w) ?s = Some (pinning w, ?s)"
    | (some) i where "i < length (pinning w)" "pinning w ! i = emptyTask"
      "compact_getPinning ci proc (pinning w) ?s = Some ((pinning w)[i := ?t], ?s)"
      "\<forall>f<length (pinning w). pinning w ! f = emptyTask \<longrightarrow>
          own_distance ci (op_pid proc) (pinning w) i \<le> own_distance ci (op_pid proc) (pinning w) f \<and>
          (f < i \<longrightarrow> own_distance ci (op_pid proc) (pinning w) i < own_distance ci (op_pid proc) (pinning w) f)"
    by auto
  then show ?thesis
  proof cases
    case none
    then have "changePinning (compact_getPinning ci proc) aff proc (?s, w) = Some (?s, w)"
      by (simp add: changePinning_def change_loop_same)
    with none(1) show ?thesis by (simp add: slot)
  next
    case some
    have "?t \<noteq> emptyTask" using assms(3) by (simp add: emptyTask_def)
    with some(1-3) have "changePinning (compact_getPinning ci proc) aff proc (?s, w) = Some (?s, place_task aff ?t i w)"
      using change_loop_single[of i w ?t aff "op_pid proc"] by (simp add: changePinning_def)
    with some assms(4) show ?thesis by (auto simp: slot pin_simps)
  qed
qed


definition two_cpus :: cpu_info where
  "two_cpus = \<lparr>distances = [[1]], mapping = [0, 0]\<rparr>"


lemma near_bound:
  assumes "\<forall>j\<in>set js. m \<le> uint_of (the (getCpuDistance ci (int i) (int j)))"
  shows "fold (near_step ci p pins i) js m = m"
  using assms by (induction js) (auto simp: near_step_def min_def)

text \<open>
  The search starts with the number of CPUs as the smallest distance, so distances that are
  not below it do not count: on a machine with at most as many CPUs as the smallest distance, the
  task simply goes to the first free CPU.
\<close>

theorem compact_large_distances:
  assumes "\<forall>i<length pins. \<forall>j<length pins. \<exists>d. getCpuDistance ci (int i) (int j) = Some d \<and> length pins \<le> uint_of d"
    and "new_task_tid s \<noteq> 0" and "i < length pins" and "pins ! i = emptyTask" and "\<forall>f<i. pins ! f \<noteq> emptyTask"
  shows "compact_getPinning ci proc pins s = Some (pins[i := \<lparr>t_pid = op_pid proc, t_tid = new_task_tid s\<rparr>], s)"
proof -
  have known: "distances_known ci (length pins)" using assms(1) by (force simp: distances_known_def)
  have far: "own_distance ci (op_pid proc) pins k = length pins" if "k < length pins" for k
    using assms(1) that unfolding own_distance_def by (intro near_bound) fastforce
  from compact_getPinning_nearest[OF known assms(2), of proc] assms(3,4)
  obtain k where k: "k < length pins" "pins ! k = emptyTask"
    "compact_getPinning ci proc pins s = Some (pins[k := \<lparr>t_pid = op_pid proc, t_tid = new_task_tid s\<rparr>], s)"
    "\<forall>f<length pins. pins ! f = emptyTask \<longrightarrow> f < k \<longrightarrow>
       own_distance ci (op_pid proc) pins k < own_distance ci (op_pid proc) pins f"
    by blast
  have "\<not> i < k" using k(1,4) assms(3,4) far by auto
  moreover have "\<not> k < i" using k(2) assms(5) by auto
  ultimately show ?thesis using k(3) by simp
qed

definition four_cpus :: cpu_info where
  "four_cpus = \<lparr>distances = [[10, 21], [21, 10]], mapping = [0, 0, 1, 1]\<rparr>"

theorem compact_large_distances_witness:
  "map_option fst (compact_getPinning four_cpus demo_op [emptyTask, emptyTask, \<lparr>t_pid = 7, t_tid = 7\<rparr>, emptyTask]
     (compact_new\<lparr>new_task_tid := 8\<rparr>))
   = Some [\<lparr>t_pid = 7, t_tid = 8\<rparr>, emptyTask, \<lparr>t_pid = 7, t_tid = 7\<rparr>, emptyTask]"
proof -
  let ?pins = "[emptyTask, emptyTask, \<lparr>t_pid = 7, t_tid = 7\<rparr>, emptyTask]"
  have u: "uint_of 10 = 10" "uint_of 21 = 21" by (simp_all add: uint_of_def)
  have "\<forall>i<length ?pins. \<forall>j<length ?pins.
      \<exists>d. getCpuDistance four_cpus (int i) (int j) = Some d \<and> length ?pins \<le> uint_of d"
    by (auto simp: less_Suc_eq four_cpus_def getCpuDistance_def vec_at_def u numeral_2_eq_2 numeral_3_eq_3)
  moreover have "op_pid demo_op = 7" by (simp add: demo_op_def ObservedProcess_new_def)
  ultimately show ?thesis
    using compact_large_distances[of ?pins four_cpus "compact_new\<lparr>new_task_tid := 8\<rparr>" 0 demo_op] by simp
qed

end
