(* ===== verification/Scatter.thy ===== *)
theory Scatter
  imports Control_Strategy "HOL-Library.Multiset"
begin

text \<open>
  \<open>src/AutopinPlus/Strategy/Scatter/Main.cpp\<close>: the strategy that spreads the tasks of a process
  over the NUMA nodes. \<open>pinCount\<close> counts the tasks pinned on each node. \<open>std::sort\<close> leaves the order
  of nodes with equal counts open, so the sort is an argument with the contract \<open>sorts\<close>.
\<close>

record scatter = strategy +
  new_task_tid :: int
  pinCount :: "int list"

definition scatter_new :: scatter where
  "scatter_new = strategy.extend ControlStrategy_new \<lparr>new_task_tid = 0, pinCount = []\<rparr>"

type_synonym sorter = "(nat \<Rightarrow> nat \<Rightarrow> bool) \<Rightarrow> nat list \<Rightarrow> nat list"

definition scatter_init ::
  "qt_conv \<Rightarrow> string_map \<Rightarrow> nat \<Rightarrow> cpu_info \<Rightarrow> scatter \<times> world \<Rightarrow> scatter \<times> world" where
  "scatter_init qt config cpuCount ci = (\<lambda>(s, w).
     (let (ok, s, w) = init_interval qt config ''scatter'' (s, ControlStrategy_init cpuCount w)
      in (if ok then s\<lparr>pinCount := pinCount s @ replicate (getNodeCount ci) 0\<rparr> else s, w)))"

definition scatter_getConfigOpts :: "scatter \<Rightarrow> configopts" where
  "scatter_getConfigOpts s = [(''interval'', [number (interval s)])]"

definition sort_indexes :: "sorter \<Rightarrow> int list \<Rightarrow> nat list" where
  "sort_indexes std_sort v = std_sort (\<lambda>i1 i2. v ! i1 < v ! i2) [0..<length v]"

text \<open>The search: \<open>Some None\<close> when no CPU is free, the node and the CPU where the loops are left.\<close>

fun scatter_cpus :: "Pinning \<Rightarrow> int list \<Rightarrow> int option option" where
  "scatter_cpus pins [] = Some None"
| "scatter_cpus pins (cpu # cpus) =
     (case vec_at pins cpu of None \<Rightarrow> None
      | Some task \<Rightarrow> if isCpuFree task then Some (Some cpu) else scatter_cpus pins cpus)"

fun scatter_nodes :: "cpu_info \<Rightarrow> Pinning \<Rightarrow> nat list \<Rightarrow> (nat \<times> int) option option" where
  "scatter_nodes ci pins [] = Some None"
| "scatter_nodes ci pins (node # ns) =
     (case scatter_cpus pins (getCpusByNode ci (int node)) of None \<Rightarrow> None
      | Some (Some cpu) \<Rightarrow> Some (Some (node, cpu))
      | Some None \<Rightarrow> scatter_nodes ci pins ns)"

definition scatter_getPinning ::
  "sorter \<Rightarrow> cpu_info \<Rightarrow> observed_process \<Rightarrow> Pinning \<Rightarrow> scatter \<Rightarrow> (Pinning \<times> scatter) option" where
  "scatter_getPinning std_sort ci proc current_pinning s =
     (if new_task_tid s = 0 then Some (current_pinning, s)
      else case scatter_nodes ci current_pinning (sort_indexes std_sort (pinCount s)) of
        None \<Rightarrow> None
      | Some None \<Rightarrow> Some (current_pinning, s)
      | Some (Some (node, pin_cpu_pos)) \<Rightarrow>
          (case (vec_at (pinCount s) (int node),
                 vec_set current_pinning pin_cpu_pos \<lparr>t_pid = op_pid proc, t_tid = new_task_tid s\<rparr>) of
             (Some cnt, Some result) \<Rightarrow> Some (result, s\<lparr>pinCount := (pinCount s)[node := cnt + 1]\<rparr>)
           | _ \<Rightarrow> None))"

definition scatter_slot_TaskCreated ::
  "sorter \<Rightarrow> cpu_info \<Rightarrow> affinity_oracle \<Rightarrow> observed_process \<Rightarrow> int \<Rightarrow> scatter \<times> world \<Rightarrow> (scatter \<times> world) option" where
  "scatter_slot_TaskCreated std_sort ci aff proc tid = (\<lambda>(s, w).
     map_option (\<lambda>(s, w). (s\<lparr>new_task_tid := 0\<rparr>, w))
       (slot_TaskCreated (scatter_getPinning std_sort ci proc) aff proc tid (s\<lparr>new_task_tid := tid\<rparr>, w)))"

definition scatter_slot_TaskTerminated ::
  "sorter \<Rightarrow> cpu_info \<Rightarrow> affinity_oracle \<Rightarrow> observed_process \<Rightarrow> int \<Rightarrow> scatter \<times> world \<Rightarrow> (scatter \<times> world) option" where
  "scatter_slot_TaskTerminated std_sort ci aff proc tid = (\<lambda>(s, w).
     (let cpu = getCpuByTask proc tid w in
      case getNodeByCpu ci cpu of None \<Rightarrow> None
      | Some node \<Rightarrow>
          (case vec_at (pinCount s) node of None \<Rightarrow> None
           | Some cnt \<Rightarrow>
               slot_TaskTerminated (scatter_getPinning std_sort ci proc) aff proc tid
                 (s\<lparr>pinCount := (pinCount s)[nat node := cnt - 1]\<rparr>, w))))"

subsection \<open>Scatter is a placing strategy\<close>

lemma scatter_cpus_Some: "scatter_cpus pins cpus = Some (Some c) \<Longrightarrow> c \<in> set cpus \<and> vec_at pins c = Some emptyTask"
  by (induction cpus) (auto simp: isCpuFree_def split: option.splits if_splits)

lemma scatter_nodes_Some:
  "scatter_nodes ci pins ns = Some (Some (v, c)) \<Longrightarrow>
     v \<in> set ns \<and> c \<in> set (getCpusByNode ci (int v)) \<and> vec_at pins c = Some emptyTask"
  by (induction ns) (auto dest: scatter_cpus_Some split: option.splits)

interpretation scatter: placing_strategy "scatter_getPinning std_sort ci proc" "op_pid proc" new_task_tid
  for std_sort ci proc
proof
  fix old new :: Pinning and s s' :: scatter
  assume g: "scatter_getPinning std_sort ci proc old s = Some (new, s')"
  show "new = old \<or> (\<exists>i<length old. old ! i = emptyTask \<and> new = old[i := \<lparr>t_pid = op_pid proc, t_tid = new_task_tid s\<rparr>])"
    using g by (auto simp: scatter_getPinning_def vec_set_def vec_at_def dest!: scatter_nodes_Some
        split: option.splits if_splits intro!: exI[of _ "nat _"])
qed (auto simp: scatter_getPinning_def)

subsection \<open>The node chosen is the least used one with a free CPU\<close>

definition sorts :: "sorter \<Rightarrow> bool" where
  "sorts std_sort \<longleftrightarrow> (\<forall>(key :: nat \<Rightarrow> int) xs.
     mset (std_sort (\<lambda>a b. key a < key b) xs) = mset xs \<and> sorted (map key (std_sort (\<lambda>a b. key a < key b) xs)))"

definition topology_ok :: "cpu_info \<Rightarrow> nat \<Rightarrow> bool" where
  "topology_ok ci n \<longleftrightarrow> length (mapping ci) = n \<and> (\<forall>v\<in>set (mapping ci). 0 \<le> v \<and> v < int (getNodeCount ci))"

definition free_on :: "cpu_info \<Rightarrow> Pinning \<Rightarrow> nat \<Rightarrow> int option" where
  "free_on ci pins v = find (\<lambda>c. pins ! nat c = emptyTask) (getCpusByNode ci (int v))"

lemma scatter_cpus_eq:
  "\<forall>c\<in>set cpus. 0 \<le> c \<and> c < int (length pins) \<Longrightarrow>
     scatter_cpus pins cpus = Some (find (\<lambda>c. pins ! nat c = emptyTask) cpus)"
  by (induction cpus) (auto simp: vec_at_def isCpuFree_def)

lemma getCpusByNode_set: "set (getCpusByNode ci v) = int ` {c. c < length (mapping ci) \<and> mapping ci ! c = v}"
  by (auto simp: getCpusByNode_def)

lemma scatter_nodes_eq:
  assumes "length (mapping ci) = length pins"
  shows "scatter_nodes ci pins ns =
    Some (case find (\<lambda>v. free_on ci pins v \<noteq> None) ns of None \<Rightarrow> None | Some v \<Rightarrow> Some (v, the (free_on ci pins v)))"
proof -
  have "scatter_cpus pins (getCpusByNode ci (int v)) = Some (free_on ci pins v)" for v
    unfolding free_on_def using assms by (intro scatter_cpus_eq) (auto simp: getCpusByNode_set)
  then show ?thesis by (induction ns) (auto split: option.splits)
qed

text \<open>The first free CPU of a node, in terms of the mapping.\<close>

lemma free_on_None:
  "length (mapping ci) = length pins \<Longrightarrow>
     free_on ci pins v = None \<longleftrightarrow> (\<forall>c<length pins. mapping ci ! c = int v \<longrightarrow> pins ! c \<noteq> emptyTask)"
  by (auto simp: free_on_def find_None_iff getCpusByNode_set)

lemma free_on_Some:
  assumes "length (mapping ci) = length pins" and "free_on ci pins v = Some c"
  shows "\<exists>k<length pins. c = int k \<and> mapping ci ! k = int v \<and> pins ! k = emptyTask \<and>
    (\<forall>f<length pins. mapping ci ! f = int v \<longrightarrow> pins ! f = emptyTask \<longrightarrow> k \<le> f)"
proof -
  let ?cs = "getCpusByNode ci (int v)"
  from assms(2) obtain i where i: "i < length ?cs" "pins ! nat (?cs ! i) = emptyTask" "c = ?cs ! i"
    "\<forall>j<i. pins ! nat (?cs ! j) \<noteq> emptyTask"
    by (auto simp: free_on_def find_Some_iff)
  have "?cs ! i \<in> set ?cs" using i(1) by simp
  then obtain k where k: "k < length pins" "c = int k" "mapping ci ! k = int v"
    using assms(1) i(3) by (auto simp: getCpusByNode_set)
  have "sorted_wrt (<) ?cs"
    by (auto simp: getCpusByNode_def sorted_wrt_map intro: sorted_wrt_filter)
  then have "k \<le> f" if f: "f < length pins" "mapping ci ! f = int v" "pins ! f = emptyTask" for f
  proof -
    have "int f \<in> set ?cs" using f assms(1) by (auto simp: getCpusByNode_set)
    then obtain j where j: "j < length ?cs" "?cs ! j = int f" by (auto simp: in_set_conv_nth)
    then have "\<not> j < i" using i(4) f(3) by auto
    then have "c \<le> int f"
      using sorted_wrt_nth_less[OF \<open>sorted_wrt (<) ?cs\<close>, of i j] i(3) j by (cases "j = i") auto
    then show ?thesis using k(2) by simp
  qed
  then show ?thesis using k i(2,3) by auto
qed

lemma sort_indexes_laws:
  assumes "sorts std_sort"
  shows "set (sort_indexes std_sort v) = {0..<length v}" and "sorted (map ((!) v) (sort_indexes std_sort v))"
proof -
  have "mset (sort_indexes std_sort v) = mset [0..<length v]"
    using assms unfolding sorts_def sort_indexes_def by blast
  then show "set (sort_indexes std_sort v) = {0..<length v}" by (metis set_mset_mset set_upt)
  show "sorted (map ((!) v) (sort_indexes std_sort v))"
    using assms unfolding sorts_def sort_indexes_def by blast
qed

text \<open>The search over the nodes in the order of their counts.\<close>

lemma scatter_search:
  assumes "sorts std_sort" and topo: "topology_ok ci (length pins)" and len: "length pc = getNodeCount ci"
  shows "(\<forall>f<length pins. pins ! f \<noteq> emptyTask) \<and> scatter_nodes ci pins (sort_indexes std_sort pc) = Some None \<or>
    (\<exists>v c. c < length pins \<and> pins ! c = emptyTask \<and> mapping ci ! c = int v \<and> v < length pc \<and>
       scatter_nodes ci pins (sort_indexes std_sort pc) = Some (Some (v, int c)) \<and>
       (\<forall>f<length pins. pins ! f = emptyTask \<longrightarrow>
          pc ! v \<le> pc ! nat (mapping ci ! f) \<and> (mapping ci ! f = int v \<longrightarrow> c \<le> f)))"
proof -
  let ?ns = "sort_indexes std_sort pc"
  note ns = sort_indexes_laws[OF assms(1), of pc]
  have m: "length (mapping ci) = length pins" using topo by (simp add: topology_ok_def)
  have node: "nat (mapping ci ! f) \<in> set ?ns \<and> int (nat (mapping ci ! f)) = mapping ci ! f" if "f < length pins" for f
  proof -
    have "mapping ci ! f \<in> set (mapping ci)" using that m by simp
    then have "0 \<le> mapping ci ! f" "mapping ci ! f < int (length pc)"
      using topo len unfolding topology_ok_def by auto
    then show ?thesis by (simp add: ns(1))
  qed
  show ?thesis
  proof (cases "find (\<lambda>v. free_on ci pins v \<noteq> None) ?ns")
    case None
    then have "free_on ci pins v = None" if "v \<in> set ?ns" for v
      using that by (auto simp: find_None_iff)
    then have "pins ! f \<noteq> emptyTask" if "f < length pins" for f
      using node[OF that] free_on_None[OF m, of "nat (mapping ci ! f)"] that by auto
    then show ?thesis using None by (simp add: scatter_nodes_eq[OF m])
  next
    case (Some v)
    then obtain i where i: "i < length ?ns" "v = ?ns ! i" "free_on ci pins v \<noteq> None"
      "\<forall>j<i. free_on ci pins (?ns ! j) = None" by (auto simp: find_Some_iff)
    then obtain c' where c': "free_on ci pins v = Some c'" by auto
    from free_on_Some[OF m c'] obtain c where c: "c < length pins" "c' = int c" "mapping ci ! c = int v"
      "pins ! c = emptyTask" "\<forall>f<length pins. mapping ci ! f = int v \<longrightarrow> pins ! f = emptyTask \<longrightarrow> c \<le> f"
      by blast
    have "pc ! v \<le> pc ! nat (mapping ci ! f)" if f: "f < length pins" "pins ! f = emptyTask" for f
    proof -
      obtain j where j: "j < length ?ns" "?ns ! j = nat (mapping ci ! f)"
        using node[OF f(1)] by (auto simp: in_set_conv_nth)
      have "free_on ci pins (?ns ! j) \<noteq> None"
        using free_on_None[OF m, of "nat (mapping ci ! f)"] node[OF f(1)] f j(2) by auto
      then have "i \<le> j" using i(4) by (meson not_le)
      then show ?thesis using sorted_nth_mono[OF ns(2), of i j] i(1,2) j by simp
    qed
    moreover have "v < length pc" using i(1,2) ns(1) by (metis atLeastLessThan_iff nth_mem)
    ultimately show ?thesis using Some c' c by (auto simp: scatter_nodes_eq[OF m])
  qed
qed

lemma scatter_created:
  assumes "sorts std_sort" and "topology_ok ci (length (pinning w))" and "length (pinCount s) = getNodeCount ci"
    and "tid \<noteq> 0" and "op_pid proc \<noteq> 0"
  defines "s1 \<equiv> s\<lparr>tasks := tasks s @ [tid], new_task_tid := 0\<rparr>"
    and "t \<equiv> \<lparr>t_pid = op_pid proc, t_tid = tid\<rparr>"
  shows "(\<forall>f<length (pinning w). pinning w ! f \<noteq> emptyTask) \<and>
      scatter_slot_TaskCreated std_sort ci aff proc tid (s, w) = Some (s1, w) \<or>
    (\<exists>v c. c < length (pinning w) \<and> pinning w ! c = emptyTask \<and> mapping ci ! c = int v \<and> v < getNodeCount ci \<and>
       scatter_slot_TaskCreated std_sort ci aff proc tid (s, w) =
         Some (s\<lparr>tasks := tasks s @ [tid], pinCount := (pinCount s)[v := pinCount s ! v + 1], new_task_tid := 0\<rparr>,
           place_task aff t c w) \<and>
       (\<forall>f<length (pinning w). pinning w ! f = emptyTask \<longrightarrow>
          pinCount s ! v \<le> pinCount s ! nat (mapping ci ! f) \<and> (mapping ci ! f = int v \<longrightarrow> c \<le> f)))"
proof -
  let ?s = "s\<lparr>new_task_tid := tid, tasks := tasks s @ [tid]\<rparr>" and ?g = "scatter_getPinning std_sort ci proc"
  have slot: "scatter_slot_TaskCreated std_sort ci aff proc tid (s, w) =
      map_option (\<lambda>(s, w). (s\<lparr>new_task_tid := 0\<rparr>, w)) (changePinning ?g aff proc (?s, w))"
    by (simp add: scatter_slot_TaskCreated_def slot_TaskCreated_def)
  have t: "t \<noteq> emptyTask" using assms(5) by (simp add: t_def emptyTask_def)
  from scatter_search[OF assms(1,2,3)] show ?thesis
  proof (elim disjE exE conjE)
    assume none: "scatter_nodes ci (pinning w) (sort_indexes std_sort (pinCount s)) = Some None"
      and full: "\<forall>f<length (pinning w). pinning w ! f \<noteq> emptyTask"
    from none have "?g (pinning w) ?s = Some (pinning w, ?s)" by (simp add: scatter_getPinning_def)
    with full show ?thesis by (simp add: slot changePinning_def change_loop_same s1_def)
  next
    fix v c
    assume c: "c < length (pinning w)" "pinning w ! c = emptyTask" and v: "v < length (pinCount s)"
      and found: "scatter_nodes ci (pinning w) (sort_indexes std_sort (pinCount s)) = Some (Some (v, int c))"
      and rest: "mapping ci ! c = int v" "\<forall>f<length (pinning w). pinning w ! f = emptyTask \<longrightarrow>
        pinCount s ! v \<le> pinCount s ! nat (mapping ci ! f) \<and> (mapping ci ! f = int v \<longrightarrow> c \<le> f)"
    have "?g (pinning w) ?s = Some ((pinning w)[c := t], ?s\<lparr>pinCount := (pinCount s)[v := pinCount s ! v + 1]\<rparr>)"
      using assms(4) found c v by (simp add: scatter_getPinning_def t_def)
    then have "changePinning ?g aff proc (?s, w) =
        Some (?s\<lparr>pinCount := (pinCount s)[v := pinCount s ! v + 1]\<rparr>, place_task aff t c w)"
      using change_loop_single[OF c t, of aff "op_pid proc"] by (simp add: changePinning_def)
    then have "scatter_slot_TaskCreated std_sort ci aff proc tid (s, w) =
        Some (s\<lparr>tasks := tasks s @ [tid], pinCount := (pinCount s)[v := pinCount s ! v + 1], new_task_tid := 0\<rparr>,
          place_task aff t c w)"
      by (simp add: slot)
    with c v rest assms(3) show ?thesis by metis
  qed
qed

text \<open>
  C15. A new task goes to the least used node: when the topology is known and the thread can be
  pinned, \<open>slot_TaskCreated\<close> of scatter pins it to the first free CPU of a node whose count is the
  smallest among the nodes with a free CPU, whatever order \<open>std::sort\<close> gives to equal counts, and
  increments the count of that node only; without a free CPU nothing is pinned or counted.
\<close>

theorem scatter_places_least_used:
  assumes "sorts std_sort" and "topology_ok ci (length (pinning w))" and "length (pinCount s) = getNodeCount ci"
    and "tid \<noteq> 0" and "op_pid proc \<noteq> 0" and "\<And>cs cpu. aff cs tid cpu = 0"
  shows "\<exists>s' w'. scatter_slot_TaskCreated std_sort ci aff proc tid (s, w) = Some (s', w') \<and>
    tasks s' = tasks s @ [tid] \<and> runtime w' = runtime w \<and>
    ((\<forall>f<length (pinning w). pinning w ! f \<noteq> emptyTask) \<and> w' = w \<and> pinCount s' = pinCount s \<or>
     (\<exists>v c. c < length (pinning w) \<and> pinning w ! c = emptyTask \<and> mapping ci ! c = int v \<and>
        pinning w' = (pinning w)[c := \<lparr>t_pid = op_pid proc, t_tid = tid\<rparr>] \<and>
        affinity_calls w' = affinity_calls w @ [(tid, int c)] \<and>
        pinCount s' = (pinCount s)[v := pinCount s ! v + 1] \<and>
        (\<forall>f<length (pinning w). pinning w ! f = emptyTask \<longrightarrow>
           pinCount s ! v \<le> pinCount s ! nat (mapping ci ! f) \<and> (mapping ci ! f = int v \<longrightarrow> c \<le> f))))"
  using scatter_created[OF assms(1-5), of aff] assms(6) by (fastforce simp: pin_simps)

text \<open>An insertion sort meets the contract of \<open>std::sort\<close>.\<close>

fun ins :: "(nat \<Rightarrow> nat \<Rightarrow> bool) \<Rightarrow> nat \<Rightarrow> nat list \<Rightarrow> nat list" where
  "ins lt x [] = [x]"
| "ins lt x (y # ys) = (if lt y x then y # ins lt x ys else x # y # ys)"

definition isort :: sorter where
  "isort lt xs = foldr (ins lt) xs []"

lemma sorts_isort: "sorts isort"
proof -
  have m: "mset (ins lt x ys) = mset (x # ys)" for lt x ys
    by (induction ys) auto
  then have s: "set (ins lt x ys) = insert x (set ys)" for lt x ys
    by (metis list.simps(15) set_mset_mset)
  have "sorted (map key ys) \<Longrightarrow> sorted (map key (ins (\<lambda>a b. key a < key b) x ys))" for key :: "nat \<Rightarrow> int" and x ys
    by (induction ys) (auto simp: s)
  then have "sorted (map key (isort (\<lambda>a b. key a < key b) xs))" for key :: "nat \<Rightarrow> int" and xs
    by (induction xs) (auto simp: isort_def)
  moreover have "mset (isort lt xs) = mset xs" for lt xs
    by (induction xs) (auto simp: isort_def m)
  ultimately show ?thesis by (auto simp: sorts_def)
qed

definition demo_topology :: cpu_info where
  "demo_topology = \<lparr>distances = [[10, 21], [21, 10]], mapping = [0, 1]\<rparr>"

definition demo_world :: "Pinning \<Rightarrow> world" where
  "demo_world pins = \<lparr>pinning = pins, affinity_calls = [], runtime = AutopinContext_new ''w''\<rparr>"

lemma demo_topology_ok: "topology_ok demo_topology 2" "getNodeCount demo_topology = 2"
  by (simp_all add: topology_ok_def demo_topology_def getNodeCount_def)

theorem scatter_places_least_used_witness:
  "\<exists>s' w'. scatter_slot_TaskCreated isort demo_topology (\<lambda>_ _ _. 0) demo_op 8
      (scatter_new\<lparr>pinCount := [0, 0]\<rparr>, demo_world [emptyTask, emptyTask]) = Some (s', w') \<and> tasks s' = [8]"
  using scatter_places_least_used[OF sorts_isort, of demo_topology "demo_world [emptyTask, emptyTask]"
      "scatter_new\<lparr>pinCount := [0, 0]\<rparr>" 8 demo_op "\<lambda>_ _ _. 0"] demo_topology_ok
  by (auto simp: demo_world_def demo_op_def ObservedProcess_new_def scatter_new_def ControlStrategy_new_def
      strategy.defs numeral_2_eq_2)

subsection \<open>The counts are right\<close>

text \<open>How many CPUs of a node hold tasks of the process.\<close>

definition pinned_on :: "cpu_info \<Rightarrow> int \<Rightarrow> Pinning \<Rightarrow> nat \<Rightarrow> nat set" where
  "pinned_on ci p pins v = {c. c < length pins \<and> mapping ci ! c = int v \<and> t_pid (pins ! c) = p}"

definition count_inv :: "cpu_info \<Rightarrow> int \<Rightarrow> scatter \<Rightarrow> Pinning \<Rightarrow> bool" where
  "count_inv ci p s pins \<longleftrightarrow> length (pinCount s) = getNodeCount ci \<and> new_task_tid s = 0 \<and>
     (\<forall>v<getNodeCount ci. pinCount s ! v = int (card (pinned_on ci p pins v)))"

text \<open>
  The states a scatter strategy can get into when its threads can be pinned and only pinned tasks
  terminate. Between its own slots, the strategies of other processes may change the shared
  pinning, but never a CPU of this process.
\<close>

inductive scatter_reach ::
  "sorter \<Rightarrow> cpu_info \<Rightarrow> affinity_oracle \<Rightarrow> observed_process \<Rightarrow> scatter \<times> world \<Rightarrow> bool"
  for std_sort ci aff proc where
  start: "\<lbrakk>topology_ok ci (length (pinning w)); pinned_once (pinning w); op_pid proc \<notin> t_pid ` set (pinning w);
      pinCount s = replicate (getNodeCount ci) 0; new_task_tid s = 0\<rbrakk>
    \<Longrightarrow> scatter_reach std_sort ci aff proc (s, w)"
| created: "\<lbrakk>scatter_reach std_sort ci aff proc (s, w); tid \<noteq> 0;
      \<lparr>t_pid = op_pid proc, t_tid = tid\<rparr> \<notin> set (pinning w);
      scatter_slot_TaskCreated std_sort ci aff proc tid (s, w) = Some sw'\<rbrakk>
    \<Longrightarrow> scatter_reach std_sort ci aff proc sw'"
| terminated: "\<lbrakk>scatter_reach std_sort ci aff proc (s, w); \<lparr>t_pid = op_pid proc, t_tid = tid\<rparr> \<in> set (pinning w);
      scatter_slot_TaskTerminated std_sort ci aff proc tid (s, w) = Some sw'\<rbrakk>
    \<Longrightarrow> scatter_reach std_sort ci aff proc sw'"
| others: "\<lbrakk>scatter_reach std_sort ci aff proc (s, w); length (pinning w') = length (pinning w);
      pinned_once (pinning w'); \<And>c. c < length (pinning w) \<Longrightarrow> pinning w' ! c = pinning w ! c \<or>
        t_pid (pinning w ! c) \<noteq> op_pid proc \<and> t_pid (pinning w' ! c) \<noteq> op_pid proc\<rbrakk>
    \<Longrightarrow> scatter_reach std_sort ci aff proc (s, w')"

lemma finite_pinned_on [simp]: "finite (pinned_on ci p pins v)"
  by (simp add: pinned_on_def)

lemma pinned_on_place:
  assumes "c < length pins" and "t_pid t = p" and "t_pid (pins ! c) \<noteq> p"
  shows "pinned_on ci p (pins[c := t]) v =
    (if mapping ci ! c = int v then insert c (pinned_on ci p pins v) else pinned_on ci p pins v)"
  using assms by (auto simp: pinned_on_def nth_update)

lemma pinned_on_clear:
  assumes "t_pid t \<noteq> p"
  shows "pinned_on ci p (pins[c := t]) v = pinned_on ci p pins v - {c}"
  using assms by (auto simp: pinned_on_def nth_update split: if_splits)

lemma count_inv_place:
  assumes "count_inv ci p s pins" and "c < length pins" and "t_pid t = p" and "t_pid (pins ! c) \<noteq> p"
    and "mapping ci ! c = int v" and "v < getNodeCount ci"
  shows "count_inv ci p (s\<lparr>tasks := ts, pinCount := (pinCount s)[v := pinCount s ! v + 1], new_task_tid := 0\<rparr>) (pins[c := t])"
proof -
  have "c \<notin> pinned_on ci p pins v" using assms(4) by (simp add: pinned_on_def)
  then show ?thesis
    using assms by (auto simp: count_inv_def pinned_on_place nth_update)
qed

lemma cpu_scan_nth:
  assumes "c < length pins" and "pins ! c = t" and "\<And>d. d < c \<Longrightarrow> pins ! d \<noteq> t"
  shows "cpu_scan t pins k = k + int c"
  using assms
proof (induction pins arbitrary: c k)
  case Nil
  then show ?case by simp
next
  case (Cons x pins)
  show ?case
  proof (cases c)
    case 0
    with Cons.prems show ?thesis by simp
  next
    case (Suc d)
    then have "t \<noteq> x" using Cons.prems(3)[of 0] by auto
    moreover have "cpu_scan t pins (k + 1) = k + 1 + int d"
      using Cons.prems Suc by (intro Cons.IH) force+
    ultimately show ?thesis using Suc by simp
  qed
qed

lemma cpu_scan_absent: "t \<notin> set pins \<Longrightarrow> cpu_scan t pins k = -1"
  by (induction pins arbitrary: k) auto

lemma scatter_terminated:
  assumes "topology_ok ci (length (pinning w))" and "pinned_once (pinning w)" and "op_pid proc \<noteq> 0"
    and "\<lparr>t_pid = op_pid proc, t_tid = tid\<rparr> \<in> set (pinning w)" and "count_inv ci (op_pid proc) s (pinning w)"
  shows "\<exists>v c. c < length (pinning w) \<and> pinning w ! c = \<lparr>t_pid = op_pid proc, t_tid = tid\<rparr> \<and>
    mapping ci ! c = int v \<and> v < getNodeCount ci \<and>
    scatter_slot_TaskTerminated std_sort ci aff proc tid (s, w) =
      Some (s\<lparr>pinCount := (pinCount s)[v := pinCount s ! v - 1], tasks := remove1 tid (tasks s)\<rparr>,
        w\<lparr>pinning := (pinning w)[c := emptyTask]\<rparr>)"
proof -
  let ?t = "\<lparr>t_pid = op_pid proc, t_tid = tid\<rparr>"
  have t: "?t \<noteq> emptyTask" using assms(3) by (simp add: emptyTask_def)
  obtain c where c: "c < length (pinning w)" "pinning w ! c = ?t"
    and fa: "find_assign ?t emptyTask (pinning w) = (pinning w)[c := emptyTask]"
    using find_assign_pinned_once[OF assms(2,4) t] by auto
  have "pinning w ! d \<noteq> ?t" if "d < c" for d
    using assms(2) c that t unfolding pinned_once_def by (metis less_trans nat_neq_iff)
  then have cpu: "getCpuByTask proc tid w = int c"
    using cpu_scan_nth[OF c, of 0] by (simp add: getCpuByTask_def)
  have "mapping ci ! c \<in> set (mapping ci)" "length (mapping ci) = length (pinning w)"
    using assms(1) c(1) by (auto simp: topology_ok_def)
  then obtain v where v: "mapping ci ! c = int v" "v < getNodeCount ci"
    using assms(1) by (metis nat_eq_iff2 of_nat_less_iff topology_ok_def zero_le_imp_eq_int)
  have "getNodeByCpu ci (int c) = Some (int v)" "vec_at (pinCount s) (int v) = Some (pinCount s ! v)"
    using c(1) v assms(1,5) by (simp_all add: getNodeByCpu_def topology_ok_def count_inv_def)
  moreover have "slot_TaskTerminated (scatter_getPinning std_sort ci proc) aff proc tid
      (s\<lparr>pinCount := (pinCount s)[v := pinCount s ! v - 1]\<rparr>, w) =
      Some (s\<lparr>pinCount := (pinCount s)[v := pinCount s ! v - 1], tasks := remove1 tid (tasks s)\<rparr>,
        w\<lparr>pinning := (pinning w)[c := emptyTask]\<rparr>)"
    using assms(5) by (subst scatter.terminated_eq) (simp_all add: fa count_inv_def)
  ultimately show ?thesis
    using c v by (auto simp: scatter_slot_TaskTerminated_def cpu)
qed

text \<open>The invariant of the reachable states, and that the two slots keep it.\<close>

definition scatter_inv :: "cpu_info \<Rightarrow> int \<Rightarrow> scatter \<times> world \<Rightarrow> bool" where
  "scatter_inv ci p = (\<lambda>(s, w). topology_ok ci (length (pinning w)) \<and> pinned_once (pinning w) \<and> count_inv ci p s (pinning w))"

lemma created_scatter_inv:
  assumes "scatter_inv ci (op_pid proc) (s, w)" and "sorts std_sort" and "op_pid proc \<noteq> 0" and "\<And>cs tid cpu. aff cs tid cpu = 0"
    and "tid \<noteq> 0" and "\<lparr>t_pid = op_pid proc, t_tid = tid\<rparr> \<notin> set (pinning w)"
    and slot: "scatter_slot_TaskCreated std_sort ci aff proc tid (s, w) = Some sw'"
  shows "scatter_inv ci (op_pid proc) sw'"
proof -
  let ?t = "\<lparr>t_pid = op_pid proc, t_tid = tid\<rparr>"
  have inv: "topology_ok ci (length (pinning w))" "pinned_once (pinning w)" "count_inv ci (op_pid proc) s (pinning w)"
    using assms(1) by (simp_all add: scatter_inv_def)
  then have "length (pinCount s) = getNodeCount ci" by (simp add: count_inv_def)
  from scatter_created[OF assms(2) inv(1) this assms(5,3), of aff] show ?thesis
  proof (elim disjE exE conjE)
    assume "scatter_slot_TaskCreated std_sort ci aff proc tid (s, w) = Some (s\<lparr>tasks := tasks s @ [tid], new_task_tid := 0\<rparr>, w)"
    then show ?thesis using slot inv by (auto simp: scatter_inv_def count_inv_def)
  next
    fix v c
    assume vc: "c < length (pinning w)" "pinning w ! c = emptyTask" "mapping ci ! c = int v" "v < getNodeCount ci"
      and eq: "scatter_slot_TaskCreated std_sort ci aff proc tid (s, w) =
        Some (s\<lparr>tasks := tasks s @ [tid], pinCount := (pinCount s)[v := pinCount s ! v + 1], new_task_tid := 0\<rparr>,
          place_task aff ?t c w)"
    have "t_pid (pinning w ! c) \<noteq> op_pid proc" using vc(2) assms(3) by (simp add: emptyTask_def)
    then have "count_inv ci (op_pid proc) (s\<lparr>tasks := tasks s @ [tid], pinCount := (pinCount s)[v := pinCount s ! v + 1],
        new_task_tid := 0\<rparr>) ((pinning w)[c := ?t])"
      using inv(3) vc by (intro count_inv_place) simp_all
    with eq slot inv assms(4,6) show ?thesis by (auto simp: scatter_inv_def pin_simps intro: pinned_once_update)
  qed
qed

lemma terminated_scatter_inv:
  assumes "scatter_inv ci (op_pid proc) (s, w)" and "op_pid proc \<noteq> 0" and "\<lparr>t_pid = op_pid proc, t_tid = tid\<rparr> \<in> set (pinning w)"
    and slot: "scatter_slot_TaskTerminated std_sort ci aff proc tid (s, w) = Some sw'"
  shows "scatter_inv ci (op_pid proc) sw'"
proof -
  have inv: "topology_ok ci (length (pinning w))" "pinned_once (pinning w)" "count_inv ci (op_pid proc) s (pinning w)"
    using assms(1) by (simp_all add: scatter_inv_def)
  from scatter_terminated[OF inv(1,2) assms(2,3) inv(3), of std_sort aff]
  obtain v c where vc: "c < length (pinning w)" "t_pid (pinning w ! c) = op_pid proc" "mapping ci ! c = int v"
    "v < getNodeCount ci" and sw': "sw' = (s\<lparr>pinCount := (pinCount s)[v := pinCount s ! v - 1], tasks := remove1 tid (tasks s)\<rparr>,
        w\<lparr>pinning := (pinning w)[c := emptyTask]\<rparr>)"
    using slot by auto
  have on: "pinned_on ci (op_pid proc) ((pinning w)[c := emptyTask]) u = pinned_on ci (op_pid proc) (pinning w) u - {c}" for u
    using assms(2) by (intro pinned_on_clear) (simp add: emptyTask_def)
  have mem: "c \<in> pinned_on ci (op_pid proc) (pinning w) u \<longleftrightarrow> u = v" for u
    using vc by (auto simp: pinned_on_def)
  then have "0 < card (pinned_on ci (op_pid proc) (pinning w) v)" by (auto simp: card_gt_0_iff)
  with mem have "count_inv ci (op_pid proc) (fst sw') (pinning (snd sw'))"
    using inv(3) by (auto simp: sw' count_inv_def on nth_update card_Diff_singleton_if of_nat_diff)
  with inv show ?thesis by (simp add: sw' scatter_inv_def pinned_once_clear)
qed

lemma scatter_reach_inv:
  assumes "scatter_reach std_sort ci aff proc sw" and "sorts std_sort" and "op_pid proc \<noteq> 0"
    and "\<And>cs tid cpu. aff cs tid cpu = 0"
  shows "scatter_inv ci (op_pid proc) sw"
  using assms(1)
proof (induction rule: scatter_reach.induct)
  case (start w s)
  then have "pinned_on ci (op_pid proc) (pinning w) v = {}" for v
    by (auto simp: pinned_on_def) (metis image_eqI nth_mem)
  with start show ?case by (auto simp: scatter_inv_def count_inv_def)
next
  case (created s w tid sw')
  from created_scatter_inv[OF created.IH assms(2-4) created.hyps(2-4)] show ?case .
next
  case (terminated s w tid sw')
  from terminated_scatter_inv[OF terminated.IH assms(3) terminated.hyps(2,3)] show ?case .
next
  case (others s w w')
  have "pinned_on ci (op_pid proc) (pinning w') v = pinned_on ci (op_pid proc) (pinning w) v" for v
    using others.hyps(2,4) by (auto simp: pinned_on_def) metis+
  with others show ?case by (simp add: scatter_inv_def count_inv_def)
qed



text \<open>
  The termination of a task that is not pinned (no CPU was free, or pinning it failed) makes
  scatter read \<open>mapping[-1]\<close>.
\<close>

theorem scatter_unpinned_task_terminates:
  assumes "\<lparr>t_pid = op_pid proc, t_tid = tid\<rparr> \<notin> set (pinning w)"
  shows "scatter_slot_TaskTerminated std_sort ci aff proc tid (s, w) = None"
  using assms by (simp add: scatter_slot_TaskTerminated_def getCpuByTask_def cpu_scan_absent getNodeByCpu_def)

theorem scatter_unpinned_task_terminates_witness:
  "scatter_slot_TaskTerminated isort demo_topology (\<lambda>_ _ _. 0) demo_op 8 (scatter_new, demo_world [emptyTask]) = None"
  by (rule scatter_unpinned_task_terminates)
     (simp add: demo_world_def emptyTask_def demo_op_def ObservedProcess_new_def)

end
