(* ===== verification/Noop.thy ===== *)
theory Noop
  imports Control_Strategy Random_Monitor
begin

text \<open>
  \<open>src/AutopinPlus/Strategy/Noop/Main.cpp\<close>: the strategy that pins nothing and only tells the
  monitors which tasks there are. The monitors are a list of states with their operations.
\<close>

definition noop_init ::
  "qt_conv \<Rightarrow> string_map \<Rightarrow> nat \<Rightarrow> strategy \<times> world \<Rightarrow> strategy \<times> world" where
  "noop_init qt config cpuCount = (\<lambda>(s, w).
     snd (init_interval qt config ''noop'' (s, ControlStrategy_init cpuCount w)))"

definition noop_getConfigOpts :: "strategy \<Rightarrow> configopts" where
  "noop_getConfigOpts s = [(''interval'', [number (interval s)])]"

fun each_monitor :: "('m \<times> 'c \<Rightarrow> 'm \<times> 'c) \<Rightarrow> 'm list \<Rightarrow> 'c \<Rightarrow> 'm list \<times> 'c" where
  "each_monitor f [] c = ([], c)"
| "each_monitor f (m # ms) c =
     (let (m, c) = f (m, c); (ms, c) = each_monitor f ms c in (m # ms, c))"

definition noop_slot_TaskCreated ::
  "'m monitor_ops \<Rightarrow> affinity_oracle \<Rightarrow> observed_process \<Rightarrow> int \<Rightarrow> strategy \<times> world \<times> 'm list \<Rightarrow>
    (strategy \<times> world \<times> 'm list) option" where
  "noop_slot_TaskCreated ops aff proc tid = (\<lambda>(s, w, ms).
     (case slot_TaskCreated base_getPinning aff proc tid (s, w) of None \<Rightarrow> None
      | Some (s, w) \<Rightarrow>
          let (ms, c) = each_monitor (op_start ops tid) ms (runtime w) in Some (s, w\<lparr>runtime := c\<rparr>, ms)))"

definition noop_slot_TaskTerminated ::
  "'m monitor_ops \<Rightarrow> affinity_oracle \<Rightarrow> observed_process \<Rightarrow> int \<Rightarrow> strategy \<times> world \<times> 'm list \<Rightarrow>
    (strategy \<times> world \<times> 'm list) option" where
  "noop_slot_TaskTerminated ops aff proc tid = (\<lambda>(s, w, ms).
     (case slot_TaskTerminated base_getPinning aff proc tid (s, w) of None \<Rightarrow> None
      | Some (s, w) \<Rightarrow>
          let (ms, c) = each_monitor (op_clear ops tid) ms (runtime w) in Some (s, w\<lparr>runtime := c\<rparr>, ms)))"

subsection \<open>Events of the tasks\<close>

lemma base_created: "slot_TaskCreated base_getPinning aff proc tid (s, w) = Some (s\<lparr>tasks := tasks s @ [tid]\<rparr>, w)"
  by (simp add: slot_TaskCreated_def changePinning_def base_getPinning_def change_loop_same)

lemma base_terminated:
  "slot_TaskTerminated base_getPinning aff proc tid (s, w) = Some (s\<lparr>tasks := remove1 tid (tasks s)\<rparr>,
     w\<lparr>pinning := find_assign \<lparr>t_pid = op_pid proc, t_tid = tid\<rparr> emptyTask (pinning w)\<rparr>)"
  by (rule base.terminated_eq) simp_all

text \<open>The events of the observed process, in the order in which they reach the strategy.\<close>

datatype task_event = Created int | Terminated int

fun alive :: "task_event list \<Rightarrow> int set \<Rightarrow> int set" where
  "alive [] A = A"
| "alive (Created tid # es) A = alive es (insert tid A)"
| "alive (Terminated tid # es) A = alive es (A - {tid})"

end
