(* ===== verification/Trace_Thread.thy ===== *)
theory Trace_Thread
  imports Observed_Process
begin

text \<open>
  \<open>src/AutopinPlus/OS/TraceThread.cpp\<close>: the thread that follows the tasks of the observed process with
  \<open>ptrace\<close>. What the kernel answers is the record \<open>kernel\<close>, a function of the calls made before; the
  results of the blocking \<open>waitpid(-1, ...)\<close> are the input of the main loop, one by one. The state
  keeps the signals emitted and the system calls made, in order.
\<close>

datatype sys_call =
    PTRACE_ATTACH int | PTRACE_SETOPTIONS int | PTRACE_DETACH int | PTRACE_CONT int int
  | PTRACE_GETEVENTMSG int | KILL int

datatype errno = ESRCH | EPERM | OTHER_ERRNO

datatype wait_status = Exited int | Signaled int | Stopped int int | Other_status

definition SIGTRAP :: int where "SIGTRAP = 5"
definition SIGSTOP :: int where "SIGSTOP = 19"
definition PTRACE_EVENT_FORK :: int where "PTRACE_EVENT_FORK = 1"
definition PTRACE_EVENT_VFORK :: int where "PTRACE_EVENT_VFORK = 2"
definition PTRACE_EVENT_CLONE :: int where "PTRACE_EVENT_CLONE = 3"

text \<open>
  \<open>ptrace_result\<close> is \<open>None\<close> for success and the error number otherwise; \<open>wait_for\<close> the status the
  \<open>waitpid\<close> in \<open>attach\<close> returns; \<open>event_msg\<close> what \<open>PTRACE_GETEVENTMSG\<close> stores.
\<close>

record kernel =
  ptrace_result :: "sys_call list \<Rightarrow> sys_call \<Rightarrow> errno option"
  wait_for :: "sys_call list \<Rightarrow> int \<Rightarrow> wait_status"
  event_msg :: "sys_call list \<Rightarrow> int \<Rightarrow> int"

record trace_thread =
  tt_pid :: int
  tt_tasks :: autopin_tid_list
  new_tasks :: autopin_tid_list
  exreq :: bool
  alarm_occured :: bool
  unlocks :: nat \<comment> \<open>how often the locked \<open>trace_mutex\<close> has been unlocked\<close>
  tt_signals :: "op_signal list"
  sys_calls :: "sys_call list"
  tt_context :: apcontext

definition TraceThread_new :: "apcontext \<Rightarrow> trace_thread" where
  "TraceThread_new c = \<lparr>tt_pid = -1, tt_tasks = {}, new_tasks = {}, exreq = False, alarm_occured = False,
     unlocks = 0, tt_signals = [], sys_calls = [], tt_context = c\<rparr>"

text \<open>\<open>init\<close>: the flag says whether the thread is started, with its mutex locked.\<close>

definition TraceThread_init :: "observed_process \<Rightarrow> trace_thread \<Rightarrow> bool \<times> trace_thread" where
  "TraceThread_init proc st = (\<not> isError (tt_context st), st\<lparr>tt_pid := op_pid proc\<rparr>)"

definition tt_report :: "autopin_errors \<Rightarrow> string \<Rightarrow> trace_thread \<Rightarrow> trace_thread" where
  "tt_report e opt st = st\<lparr>tt_context := report e opt (tt_context st)\<rparr>"

definition ptrace :: "kernel \<Rightarrow> sys_call \<Rightarrow> trace_thread \<Rightarrow> errno option \<times> trace_thread" where
  "ptrace k call st = (ptrace_result k (sys_calls st) call, st\<lparr>sys_calls := sys_calls st @ [call]\<rparr>)"

definition ptraceContinue :: "kernel \<Rightarrow> int \<Rightarrow> int \<Rightarrow> trace_thread \<Rightarrow> trace_thread" where
  "ptraceContinue k p sig st =
     (let (ret, st) = ptrace k (PTRACE_CONT p sig) st
      in if ret \<noteq> None then tt_report PROC_TRACE ''cont_failed'' st else st)"

definition newTask :: "kernel \<Rightarrow> int \<Rightarrow> trace_thread \<Rightarrow> trace_thread" where
  "newTask k p st =
     (if p \<in> new_tasks st then
        let st = st\<lparr>tt_signals := tt_signals st @ [Sig_TaskCreated p]\<rparr>;
            (ret, st) = ptrace k (PTRACE_SETOPTIONS p) st;
            st = (if ret \<noteq> None then tt_report PROC_TRACE ''set_options'' st else st);
            st = st\<lparr>new_tasks := new_tasks st - {p}, tt_tasks := insert p (tt_tasks st)\<rparr>
        in ptraceContinue k p 0 st
      else st\<lparr>new_tasks := insert p (new_tasks st)\<rparr>)"

subsection \<open>Attaching\<close>

text \<open>One task in the inner loop of \<open>attach\<close>; the flag is \<open>tasks_changed\<close>.\<close>

definition attach_task ::
  "kernel \<Rightarrow> int \<Rightarrow> bool \<times> autopin_tid_list \<times> trace_thread \<Rightarrow> bool \<times> autopin_tid_list \<times> trace_thread" where
  "attach_task k task = (\<lambda>(tasks_changed, no_trace, st).
     (if task \<in> tt_tasks st then (tasks_changed, no_trace, st)
      else if task \<in> no_trace then (tasks_changed, no_trace, st)
      else
        let (ret, st) = ptrace k (PTRACE_ATTACH task) st in
        case ret of
          Some e \<Rightarrow>
            if e = ESRCH \<or> e = EPERM
            then (True, insert task no_trace, tt_report PROC_TRACE ''cannot_trace'' st)
            else (True, no_trace, tt_report UNKNOWN ''PTRACE_ATTACH'' st)
        | None \<Rightarrow>
            (case wait_for k (sys_calls st) task of
               Exited _ \<Rightarrow> (True, no_trace, tt_report PROC_TRACE ''cannot_trace'' st)
             | _ \<Rightarrow>
                 let (ret, st) = ptrace k (PTRACE_SETOPTIONS task) st in
                 (case ret of
                    Some e \<Rightarrow>
                      let (no_trace, st) =
                            (if e = ESRCH \<or> e = EPERM
                             then (insert task no_trace, tt_report PROC_TRACE ''cannot_trace'' st)
                             else (no_trace, tt_report UNKNOWN ''PTRACE_SETOPTIONS'' st))
                      in (True, no_trace, snd (ptrace k (PTRACE_DETACH task) st))
                  | None \<Rightarrow> (True, no_trace, st\<lparr>tt_tasks := insert task (tt_tasks st)\<rparr>)))))"

text \<open>
  The outer loop; \<open>fs n\<close> is \<open>/proc\<close> in the \<open>n\<close>-th iteration and \<open>walk\<close> the fuel of the walk over it.
  \<open>None\<close>: not finished with this fuel.
\<close>

fun attach_loop ::
  "kernel \<Rightarrow> qt_conv \<Rightarrow> (nat \<Rightarrow> procfs) \<Rightarrow> nat \<Rightarrow> observed_process \<Rightarrow> nat \<Rightarrow> nat \<Rightarrow>
    autopin_tid_list \<Rightarrow> trace_thread \<Rightarrow> (autopin_tid_list \<times> trace_thread) option" where
  "attach_loop k qt fs walk proc 0 n no_trace st = None"
| "attach_loop k qt fs walk proc (Suc fuel) n no_trace st =
     (case getProcessTree qt (fs n) walk proc (tt_context st) of None \<Rightarrow> None
      | Some (tree, c) \<Rightarrow>
          let (tasks_changed, no_trace, st) =
                fold (attach_task k) (sorted_list_of_set (getAllTasks tree)) (False, no_trace, st\<lparr>tt_context := c\<rparr>)
          in if tasks_changed then attach_loop k qt fs walk proc fuel (n + 1) no_trace st
             else Some (no_trace, st))"

definition attach ::
  "kernel \<Rightarrow> qt_conv \<Rightarrow> (nat \<Rightarrow> procfs) \<Rightarrow> nat \<Rightarrow> observed_process \<Rightarrow> nat \<Rightarrow> trace_thread \<Rightarrow> trace_thread option" where
  "attach k qt fs walk proc fuel st =
     (case attach_loop k qt fs walk proc fuel 0 {} st of None \<Rightarrow> None
      | Some (no_trace, st) \<Rightarrow>
          let st = fold (\<lambda>elem. ptraceContinue k elem 0) (sorted_list_of_set (tt_tasks st)) st
          in Some (if exec proc then st\<lparr>sys_calls := sys_calls st @ [KILL (tt_pid st)]\<rparr> else st))"

subsection \<open>The main loop\<close>

text \<open>
  \<open>rets\<close>: the results of unmasking \<open>SIGALRM\<close> (0 if the three calls succeed) and of \<open>sigaction\<close>.
\<close>

definition setupSignalHandler :: "int \<times> int \<Rightarrow> trace_thread \<Rightarrow> trace_thread" where
  "setupSignalHandler rets st =
     (let st = (if fst rets \<noteq> 0 then tt_report SYSTEM ''sigset'' st else st)
      in if snd rets \<noteq> 0 then tt_report SYSTEM ''sigset'' st else st)"

definition alrmSignalHandler :: "trace_thread \<Rightarrow> trace_thread" where
  "alrmSignalHandler st = st\<lparr>alarm_occured := True\<rparr>"

text \<open>What \<open>run\<close> does before its loop.\<close>

definition run_start ::
  "kernel \<Rightarrow> qt_conv \<Rightarrow> (nat \<Rightarrow> procfs) \<Rightarrow> nat \<Rightarrow> observed_process \<Rightarrow> nat \<Rightarrow> int \<times> int \<Rightarrow> trace_thread \<Rightarrow>
    trace_thread option" where
  "run_start k qt fs walk proc fuel rets st =
     (let st = setupSignalHandler rets st
      in case attach k qt fs walk proc fuel st of None \<Rightarrow> None
         | Some st \<Rightarrow>
             let st = (if tt_pid st \<notin> tt_tasks st
                       then tt_report PROC_TRACE ''observed_process'' (st\<lparr>unlocks := unlocks st + 1\<rparr>) else st)
             in Some (st\<lparr>unlocks := unlocks st + 1\<rparr>))"

definition trace_stop :: "kernel \<Rightarrow> int \<Rightarrow> int \<Rightarrow> int \<Rightarrow> trace_thread \<Rightarrow> trace_thread" where
  "trace_stop k trace_pid sig event st =
     (if sig = SIGTRAP then
        let (ret, st) = ptrace k (PTRACE_GETEVENTMSG trace_pid) st;
            msg = event_msg k (sys_calls st) trace_pid;
            st = (if ret \<noteq> None then tt_report PROC_TRACE ''ptrace_eventmsg'' st else st);
            st = (if event = PTRACE_EVENT_CLONE \<or> event = PTRACE_EVENT_FORK \<or> event = PTRACE_EVENT_VFORK
                  then newTask k msg st else st)
        in ptraceContinue k trace_pid 0 st
      else if sig = SIGSTOP then
        if trace_pid \<in> tt_tasks st then ptraceContinue k trace_pid 0 st else newTask k trace_pid st
      else ptraceContinue k trace_pid sig st)"

text \<open>
  One iteration: \<open>waitpid\<close> has returned \<open>trace_pid\<close> and \<open>status\<close>, and the alarm went off in the
  meantime or not. The flag says whether the loop is left.
\<close>

definition run_step :: "kernel \<Rightarrow> int \<times> wait_status \<times> bool \<Rightarrow> trace_thread \<Rightarrow> bool \<times> trace_thread" where
  "run_step k = (\<lambda>(trace_pid, status, alarm) st.
     (let st = (if alarm then alrmSignalHandler st else st);
          rang = alarm_occured st;
          st = st\<lparr>alarm_occured := False\<rparr>
      in if rang \<and> exreq st then (True, st)
         else if rang \<and> trace_pid = -1 then (False, st)
         else if trace_pid = -1 then (False, tt_report PROC_TRACE ''waitpid'' st)
         else case status of
           Exited _ \<Rightarrow> (tt_pid st = trace_pid, st\<lparr>tt_tasks := tt_tasks st - {trace_pid},
             tt_signals := tt_signals st @ [Sig_TaskTerminated trace_pid]\<rparr>)
         | Signaled _ \<Rightarrow> (tt_pid st = trace_pid, st\<lparr>tt_tasks := tt_tasks st - {trace_pid},
             tt_signals := tt_signals st @ [Sig_TaskTerminated trace_pid]\<rparr>)
         | Stopped sig event \<Rightarrow> (False, trace_stop k trace_pid sig event st)
         | Other_status \<Rightarrow> (False, st)))"

fun run_loop :: "kernel \<Rightarrow> (int \<times> wait_status \<times> bool) list \<Rightarrow> trace_thread \<Rightarrow> bool \<times> trace_thread" where
  "run_loop k [] st = (False, st)"
| "run_loop k (w # ws) st =
     (let (left, st) = run_step k w st in if left then (True, st) else run_loop k ws st)"

definition deinit :: "trace_thread \<Rightarrow> trace_thread" where
  "deinit st = st\<lparr>exreq := True\<rparr>"

subsection \<open>The signals tell which tasks are traced\<close>

text \<open>The set of tasks a listener knows who follows the signals.\<close>

fun replay :: "op_signal list \<Rightarrow> int set \<Rightarrow> int set" where
  "replay [] A = A"
| "replay (Sig_TaskCreated t # sigs) A = replay sigs (insert t A)"
| "replay (Sig_TaskTerminated t # sigs) A = replay sigs (A - {t})"
| "replay (_ # sigs) A = replay sigs A"

lemma replay_append: "replay (a @ b) A = replay b (replay a A)"
  by (induction a A rule: replay.induct) auto

lemma tt_report_simps [simp]:
  "tt_tasks (tt_report e opt st) = tt_tasks st" "new_tasks (tt_report e opt st) = new_tasks st"
  "tt_signals (tt_report e opt st) = tt_signals st" "tt_pid (tt_report e opt st) = tt_pid st"
  "sys_calls (tt_report e opt st) = sys_calls st" "unlocks (tt_report e opt st) = unlocks st"
  "tt_context (tt_report e opt st) = report e opt (tt_context st)"
  by (simp_all add: tt_report_def)

lemma ptraceContinue_simps [simp]:
  "tt_tasks (ptraceContinue k p sig st) = tt_tasks st" "new_tasks (ptraceContinue k p sig st) = new_tasks st"
  "tt_signals (ptraceContinue k p sig st) = tt_signals st" "tt_pid (ptraceContinue k p sig st) = tt_pid st"
  "unlocks (ptraceContinue k p sig st) = unlocks st"
  by (simp_all add: ptraceContinue_def ptrace_def)

lemma newTask_simps:
  "tt_tasks (newTask k p st) = (if p \<in> new_tasks st then insert p (tt_tasks st) else tt_tasks st)"
  "tt_signals (newTask k p st) = tt_signals st @ (if p \<in> new_tasks st then [Sig_TaskCreated p] else [])"
  "new_tasks (newTask k p st) = (if p \<in> new_tasks st then new_tasks st - {p} else insert p (new_tasks st))"
  "tt_pid (newTask k p st) = tt_pid st"
  by (simp_all add: newTask_def ptrace_def Let_def)

lemma trace_stop_replay:
  "\<exists>sigs. tt_signals (trace_stop k p sig event st) = tt_signals st @ sigs \<and>
     tt_tasks (trace_stop k p sig event st) = replay sigs (tt_tasks st)"
  by (simp add: trace_stop_def ptrace_def Let_def newTask_simps)

lemma run_step_replay:
  "\<exists>sigs. tt_signals (snd (run_step k w st)) = tt_signals st @ sigs \<and>
     tt_tasks (snd (run_step k w st)) = replay sigs (tt_tasks st)"
proof -
  obtain trace_pid status alarm where w: "w = (trace_pid, status, alarm)" by (cases w)
  let ?st = "st\<lparr>alarm_occured := False\<rparr>"
  have a: "(if alarm then st\<lparr>alarm_occured := True\<rparr> else st)\<lparr>alarm_occured := False\<rparr> = ?st" by simp
  show ?thesis
    using trace_stop_replay[of k trace_pid _ _ ?st]
    by (auto simp: w run_step_def alrmSignalHandler_def Let_def a split: wait_status.splits intro: exI[of _ "[Sig_TaskTerminated trace_pid]"])
qed

text \<open>
  C21. Whatever the kernel reports, someone who follows the signals of the tracing thread knows
  exactly which tasks are traced: applying the signals emitted by any run of the main loop, in
  order, to the tasks traced before gives the tasks traced after it.
\<close>

theorem trace_signals_complete:
  "\<exists>sigs. tt_signals (snd (run_loop k ws st)) = tt_signals st @ sigs \<and>
     tt_tasks (snd (run_loop k ws st)) = replay sigs (tt_tasks st)"
proof (induction ws arbitrary: st)
  case Nil
  then show ?case by simp
next
  case (Cons w ws)
  obtain b st1 where st1: "run_step k w st = (b, st1)" by fastforce
  obtain s1 where s1: "tt_signals st1 = tt_signals st @ s1" "tt_tasks st1 = replay s1 (tt_tasks st)"
    using run_step_replay[of k w st] st1 by auto
  obtain s2 where s2: "tt_signals (snd (run_loop k ws st1)) = tt_signals st1 @ s2"
    "tt_tasks (snd (run_loop k ws st1)) = replay s2 (tt_tasks st1)" using Cons by blast
  show ?case
  proof (cases b)
    case True
    with s1 show ?thesis by (auto simp: st1)
  next
    case False
    then show ?thesis using s1 s2 by (auto simp: st1 replay_append intro!: exI[of _ "s1 @ s2"])
  qed
qed

definition clone_event :: "int \<Rightarrow> int \<Rightarrow> int \<times> wait_status \<times> bool" where
  "clone_event p event = (p, Stopped SIGTRAP event, False)"

definition stop_event :: "int \<Rightarrow> int \<times> wait_status \<times> bool" where
  "stop_event t = (t, Stopped SIGSTOP 0, False)"

text \<open>
  C22. A new task is announced exactly once, when both its parent's fork or clone event and its own
  stop have been seen, in whichever order the kernel delivers them; from then on it is traced.
\<close>

theorem new_task_announced_once:
  assumes "t \<notin> tt_tasks st" and "t \<notin> new_tasks st" and "\<not> alarm_occured st" and "p \<noteq> -1" and "t \<noteq> -1"
    and "\<And>cs. event_msg k cs p = t"
    and "event = PTRACE_EVENT_CLONE \<or> event = PTRACE_EVENT_FORK \<or> event = PTRACE_EVENT_VFORK"
    and "ws = [clone_event p event, stop_event t] \<or> ws = [stop_event t, clone_event p event]"
  shows "tt_signals (snd (run_step k (hd ws) st)) = tt_signals st \<and>
    tt_signals (snd (run_loop k ws st)) = tt_signals st @ [Sig_TaskCreated t] \<and>
    tt_tasks (snd (run_loop k ws st)) = insert t (tt_tasks st) \<and>
    new_tasks (snd (run_loop k ws st)) = new_tasks st \<and> \<not> fst (run_loop k ws st)"
proof -
  have sig: "SIGSTOP \<noteq> SIGTRAP" by (simp add: SIGSTOP_def SIGTRAP_def)
  have quiet: "\<not> alarm_occured (ptraceContinue k' p' s' st') \<longleftrightarrow> \<not> alarm_occured st'"
    "\<not> alarm_occured (newTask k' p' st') \<longleftrightarrow> \<not> alarm_occured st'"
    "\<not> alarm_occured (tt_report e' o' st') \<longleftrightarrow> \<not> alarm_occured st'" for k' p' s' st' e' o'
    by (simp_all add: ptraceContinue_def newTask_def ptrace_def tt_report_def Let_def)
  have clone: "run_step k (clone_event p event) st' = (False, trace_stop k p SIGTRAP event (st'\<lparr>alarm_occured := False\<rparr>))"
    if "\<not> alarm_occured st'" for st'
    using that assms(4) by (simp add: run_step_def clone_event_def Let_def)
  have stop: "run_step k (stop_event t) st' = (False, trace_stop k t SIGSTOP 0 (st'\<lparr>alarm_occured := False\<rparr>))"
    if "\<not> alarm_occured st'" for st'
    using that assms(5) by (simp add: run_step_def stop_event_def Let_def)
  from assms(8) show ?thesis
  proof
    assume ws: "ws = [clone_event p event, stop_event t]"
    let ?st = "trace_stop k p SIGTRAP event (st\<lparr>alarm_occured := False\<rparr>)"
    have "\<not> alarm_occured ?st"
      using assms(3) by (simp add: trace_stop_def ptrace_def Let_def quiet)
    moreover have "tt_signals ?st = tt_signals st" "tt_tasks ?st = tt_tasks st" "new_tasks ?st = insert t (new_tasks st)"
      using assms by (simp_all add: trace_stop_def ptrace_def Let_def newTask_simps)
    ultimately show ?thesis
      using assms(1-3) sig by (auto simp: ws clone stop trace_stop_def[of k t SIGSTOP] newTask_simps)
  next
    assume ws: "ws = [stop_event t, clone_event p event]"
    let ?st = "trace_stop k t SIGSTOP 0 (st\<lparr>alarm_occured := False\<rparr>)"
    have "\<not> alarm_occured ?st" using assms(3) sig by (simp add: trace_stop_def quiet)
    moreover have "tt_signals ?st = tt_signals st" "tt_tasks ?st = tt_tasks st" "new_tasks ?st = insert t (new_tasks st)"
      using assms sig by (simp_all add: trace_stop_def newTask_simps)
    ultimately show ?thesis
      using assms(1-3,6,7) by (auto simp: ws clone stop trace_stop_def[of k p SIGTRAP] ptrace_def Let_def newTask_simps)
  qed
qed

definition demo_kernel :: kernel where
  "demo_kernel = \<lparr>ptrace_result = (\<lambda>_ _. None), wait_for = (\<lambda>_ _. Stopped SIGSTOP 0), event_msg = (\<lambda>_ _. 8)\<rparr>"

definition demo_tracer :: trace_thread where
  "demo_tracer = \<lparr>tt_pid = 7, tt_tasks = {7}, new_tasks = {}, exreq = False, alarm_occured = False, unlocks = 0,
     tt_signals = [], sys_calls = [], tt_context = AutopinContext_new ''w''\<rparr>"

theorem new_task_announced_once_witness:
  "tt_signals (snd (run_loop demo_kernel [stop_event 8, clone_event 7 PTRACE_EVENT_CLONE] demo_tracer)) = [Sig_TaskCreated 8]"
  using new_task_announced_once[of 8 demo_tracer 7 demo_kernel PTRACE_EVENT_CLONE
      "[stop_event 8, clone_event 7 PTRACE_EVENT_CLONE]"]
  by (simp add: demo_tracer_def demo_kernel_def)

subsection \<open>Attaching ends\<close>

text \<open>A kernel that lets itself be attached to each task or refuses it for good.\<close>

definition answers :: "kernel \<Rightarrow> bool" where
  "answers k \<longleftrightarrow> (\<forall>cs t. ptrace_result k cs (PTRACE_ATTACH t) \<noteq> Some OTHER_ERRNO \<and>
     ptrace_result k cs (PTRACE_SETOPTIONS t) \<noteq> Some OTHER_ERRNO \<and> (\<forall>x. wait_for k cs t \<noteq> Exited x))"

lemma attach_task_known:
  assumes "answers k" and "attach_task k t (ch, nt, st) = (ch', nt', st')"
  shows "tt_tasks st' \<union> nt' = insert t (tt_tasks st \<union> nt) \<and> (ch' \<longleftrightarrow> ch \<or> t \<notin> tt_tasks st \<union> nt)"
proof -
  have "e = ESRCH \<or> e = EPERM" if "ptrace_result k cs (PTRACE_ATTACH t) = Some e \<or> ptrace_result k cs (PTRACE_SETOPTIONS t) = Some e" for cs e
    using assms(1) that by (cases e) (auto simp: answers_def)
  moreover have "wait_for k cs t \<noteq> Exited x" for cs x using assms(1) by (simp add: answers_def)
  ultimately show ?thesis
    using assms(2) by (auto simp: attach_task_def ptrace_def Let_def split: if_splits option.splits wait_status.splits)
qed

lemma attach_fold_known:
  assumes "answers k" and "fold (attach_task k) ts (ch, nt, st) = (ch', nt', st')"
  shows "tt_tasks st' \<union> nt' = set ts \<union> (tt_tasks st \<union> nt) \<and> (ch' \<longleftrightarrow> ch \<or> \<not> set ts \<subseteq> tt_tasks st \<union> nt)"
  using assms(2)
proof (induction ts arbitrary: ch nt st)
  case Nil
  then show ?case by auto
next
  case (Cons t ts)
  obtain ch1 nt1 st1 where s1: "attach_task k t (ch, nt, st) = (ch1, nt1, st1)" by (metis prod_cases3)
  from attach_task_known[OF assms(1) s1] Cons.IH[of ch1 nt1 st1] Cons.prems s1 show ?case by auto
qed

lemma attach_loop_terminates:
  assumes "answers k" and "finite U"
    and walk: "\<And>n c. \<exists>t c'. getProcessTree qt (fs n) walk proc c = Some (t, c') \<and> getAllTasks t \<subseteq> U"
    and "card (U - (tt_tasks st \<union> nt)) < fuel"
  shows "\<exists>i nt' st' c t c'. attach_loop k qt fs walk proc fuel n nt st = Some (nt', st') \<and> i < fuel \<and>
    getProcessTree qt (fs (n + i)) walk proc c = Some (t, c') \<and> getAllTasks t \<subseteq> tt_tasks st' \<union> nt'"
  using assms(4)
proof (induction fuel arbitrary: n nt st)
  case 0
  then show ?case by simp
next
  case (Suc fuel)
  obtain t c' where t: "getProcessTree qt (fs n) walk proc (tt_context st) = Some (t, c')" "getAllTasks t \<subseteq> U"
    using walk by blast
  have ts: "set (sorted_list_of_set (getAllTasks t)) = getAllTasks t"
    using t(2) assms(2) by (simp add: finite_subset)
  obtain ch nt1 st1 where f: "fold (attach_task k) (sorted_list_of_set (getAllTasks t)) (False, nt, st\<lparr>tt_context := c'\<rparr>)
      = (ch, nt1, st1)" by (metis prod_cases3)
  have known: "tt_tasks st1 \<union> nt1 = getAllTasks t \<union> (tt_tasks st \<union> nt)" "ch \<longleftrightarrow> \<not> getAllTasks t \<subseteq> tt_tasks st \<union> nt"
    using attach_fold_known[OF assms(1) f] by (auto simp: ts)
  show ?case
  proof (cases ch)
    case False
    then show ?thesis using t(1) f known by (intro exI[of _ 0]) auto
  next
    case True
    then have "U - (tt_tasks st1 \<union> nt1) \<subset> U - (tt_tasks st \<union> nt)" using known t(2) by blast
    then have "card (U - (tt_tasks st1 \<union> nt1)) < card (U - (tt_tasks st \<union> nt))"
      using assms(2) by (intro psubset_card_mono) auto
    with Suc.prems have "card (U - (tt_tasks st1 \<union> nt1)) < fuel" by simp
    from Suc.IH[OF this, of "n + 1"] obtain i nt' st' c t' c'' where
      "attach_loop k qt fs walk proc fuel (n + 1) nt1 st1 = Some (nt', st')" "i < fuel"
      "getProcessTree qt (fs (n + 1 + i)) walk proc c = Some (t', c'')" "getAllTasks t' \<subseteq> tt_tasks st' \<union> nt'"
      by blast
    with True t(1) f show ?thesis by (intro exI[of _ "Suc i"]) auto
  qed
qed


lemma demo_walks:
  "\<exists>t c'. getProcessTree demo_conv demo_fs 3 (demo_op\<lparr>running := False\<rparr>) c = Some (t, c') \<and> getAllTasks t \<subseteq> {0}"
  by (simp add: getProcessTree_def ProcessTree_empty_def ProcessTree_new_def)


text \<open>
  When the observed process cannot be traced, \<open>run\<close> unlocks the mutex twice: once before the report,
  which it does not return after, and once more where the successful case continues.
\<close>

theorem untraced_process_unlocks_twice:
  assumes "attach k qt fs walk proc fuel st = Some st'"
  shows "\<exists>st''. run_start k qt fs walk proc fuel (0, 0) st = Some st'' \<and>
    unlocks st'' = (if tt_pid st' \<in> tt_tasks st' then unlocks st' + 1 else unlocks st' + 2)"
  using assms by (simp add: run_start_def setupSignalHandler_def Let_def)

theorem untraced_process_unlocks_twice_witness:
  "\<exists>st''. run_start (demo_kernel\<lparr>ptrace_result := (\<lambda>_ _. Some EPERM)\<rparr>) demo_conv (\<lambda>_. demo_fs) 3
      (demo_op\<lparr>running := False\<rparr>) 2 (0, 0) (demo_tracer\<lparr>tt_tasks := {}\<rparr>) = Some st'' \<and> unlocks st'' = 2"
proof -
  let ?k = "demo_kernel\<lparr>ptrace_result := (\<lambda>_ _. Some EPERM)\<rparr>" and ?st = "demo_tracer\<lparr>tt_tasks := {}\<rparr>"
  have "\<exists>st'. attach ?k demo_conv (\<lambda>_. demo_fs) 3 (demo_op\<lparr>running := False\<rparr>) 2 ?st = Some st' \<and>
      tt_tasks st' = {} \<and> unlocks st' = 0"
    by (simp add: attach_def numeral_2_eq_2 getProcessTree_def ProcessTree_empty_def ProcessTree_new_def attach_task_def
        ptrace_def tt_report_def demo_tracer_def Let_def)
  then show ?thesis using untraced_process_unlocks_twice by fastforce
qed

end
