(* ===== verification/Comm_Channel.thy ===== *)
theory Comm_Channel
  imports Trace_Thread
begin

text \<open>
  The communication channel of \<open>src/AutopinPlus/OS/OSServices.cpp\<close> and \<open>ObservedProcess::start\<close>, which
  uses it. The socket calls are the record \<open>socket_env\<close>: the result for a given descriptor, and for
  each attempt the result of \<open>accept\<close>. \<open>None\<close> is a write beyond the end of \<open>sun_path\<close>.
\<close>

definition UNIX_PATH_MAX :: nat where "UNIX_PATH_MAX = 108"

record comm =
  server_socket :: int
  client_socket :: int
  socket_path :: QString
  comm_notifier :: bool \<comment> \<open>whether the notifier exists\<close>
  sent :: "(int \<times> autopin_msg) list"

definition comm_new :: comm where
  "comm_new = \<lparr>server_socket = -1, client_socket = -1, socket_path = [], comm_notifier = False, sent = []\<rparr>"

record socket_env =
  sys_socket :: int
  fcntl_getfl :: "int \<Rightarrow> int"
  fcntl_setfl :: "int \<Rightarrow> int"
  sys_bind :: "int \<Rightarrow> int"
  sys_listen :: "int \<Rightarrow> int"
  sys_accept :: "nat \<Rightarrow> int \<times> bool" \<comment> \<open>descriptor, and whether the error is \<open>EAGAIN\<close> or \<open>EWOULDBLOCK\<close>\<close>
  sys_send :: "int \<Rightarrow> int"

subsection \<open>Server side\<close>

text \<open>\<open>if (result == -1) { close(server_socket); server_socket = -1; report(COMM, "socket"); }\<close>\<close>

definition server_check :: "int \<Rightarrow> comm \<times> apcontext \<Rightarrow> comm \<times> apcontext" where
  "server_check result = (\<lambda>(cm, c).
     (if result = -1 then (cm\<lparr>server_socket := -1\<rparr>, report COMM ''socket'' c) else (cm, c)))"

definition initCommChannel :: "socket_env \<Rightarrow> QString \<Rightarrow> comm \<times> apcontext \<Rightarrow> (comm \<times> apcontext) option" where
  "initCommChannel env addr = (\<lambda>(cm, c).
     (let c = (if server_socket cm \<noteq> -1 then report COMM ''already_initialized'' c else c);
          cm = cm\<lparr>server_socket := sys_socket env\<rparr>;
          c = (if server_socket cm = -1 then report COMM ''socket'' c else c);
          (cm, c) = server_check (fcntl_getfl env (server_socket cm)) (cm, c);
          (cm, c) = server_check (fcntl_setfl env (server_socket cm)) (cm, c);
          cm = cm\<lparr>socket_path := addr\<rparr>;
          c = (if length (socket_path cm) + 1 > UNIX_PATH_MAX then report COMM ''comm_target'' c else c)
      in if length (socket_path cm) + 1 > UNIX_PATH_MAX then None
         else
           let (cm, c) = server_check (sys_bind env (server_socket cm)) (cm, c);
               (cm, c) = server_check (sys_listen env (server_socket cm)) (cm, c)
           in Some (cm, c)))"

definition deinitCommChannel :: "comm \<Rightarrow> int list \<times> comm" where \<comment> \<open>with the descriptors closed\<close>
  "deinitCommChannel cm =
     ((if client_socket cm \<noteq> -1 then [client_socket cm] else []) @
      (if server_socket cm \<noteq> -1 then [server_socket cm] else []), cm\<lparr>comm_notifier := False\<rparr>)"

subsection \<open>Waiting for the client\<close>

definition client_flags :: "socket_env \<Rightarrow> comm \<times> apcontext \<Rightarrow> comm \<times> apcontext" where
  "client_flags env = (\<lambda>(cm, c).
     (let (cm, c) = (if fcntl_getfl env (client_socket cm) = -1
                     then (cm\<lparr>client_socket := -1\<rparr>, report COMM ''socket'' c) else (cm, c))
      in if fcntl_setfl env (client_socket cm) = -1
         then (cm\<lparr>client_socket := -1\<rparr>, report COMM ''socket'' c) else (cm, c)))"

text \<open>The loop over the seconds \<open>i\<close> of the timeout, of which \<open>n\<close> are left.\<close>

fun accept_loop :: "socket_env \<Rightarrow> nat \<Rightarrow> nat \<Rightarrow> comm \<times> apcontext \<Rightarrow> comm \<times> apcontext" where
  "accept_loop env i 0 cmc = cmc"
| "accept_loop env i (Suc n) (cm, c) =
     (let (fd, again) = sys_accept env i;
          cm = cm\<lparr>client_socket := fd\<rparr>
      in if fd = -1 \<and> \<not> again then accept_loop env (i + 1) n (cm, report COMM ''connect'' c)
         else if fd \<noteq> -1 then client_flags env (cm, c)
         else accept_loop env (i + 1) n (cm, c))"

text \<open>Only \<open>event_id\<close> of the acknowledgement is set; the rest is what the stack holds (\<open>junk\<close>).\<close>

definition connectCommChannel :: "socket_env \<Rightarrow> autopin_msg \<Rightarrow> int \<Rightarrow> comm \<times> apcontext \<Rightarrow> comm \<times> apcontext" where
  "connectCommChannel env junk timeout = (\<lambda>(cm, c).
     (let c = (if server_socket cm = -1 then report COMM ''not_initialized'' c
               else if client_socket cm \<noteq> -1 then report COMM ''already_initialized'' c else c);
          (cm, c) = accept_loop env 0 (nat timeout) (cm, c)
      in if client_socket cm = -1 then (cm, report COMM ''connect'' c)
         else
           let cm = cm\<lparr>comm_notifier := True\<rparr>;
               ack = junk\<lparr>event_id := APP_READY\<rparr>;
               result = sys_send env (client_socket cm);
               cm = cm\<lparr>sent := sent cm @ [(client_socket cm, ack)]\<rparr>
           in (cm, if result = -1 then report COMM ''connect'' c else c)))"

definition sendMsg :: "socket_env \<Rightarrow> int \<Rightarrow> int \<Rightarrow> double \<Rightarrow> comm \<times> apcontext \<Rightarrow> comm \<times> apcontext" where
  "sendMsg env event arg v = (\<lambda>(cm, c).
     (let c = (if client_socket cm = -1 then report COMM ''not_initialized'' c else c);
          msg = \<lparr>event_id = word_of_int event, msg_arg = word_of_int arg, msg_val = v\<rparr>;
          result = sys_send env (client_socket cm);
          cm = cm\<lparr>sent := sent cm @ [(client_socket cm, msg)]\<rparr>
      in (cm, if result = -1 then report COMM ''send'' c else c)))"

text \<open>The messages \<open>recv\<close> returns until it fails go, in order, to \<open>slot_CommChannel\<close>.\<close>

fun slot_msgReceived :: "autopin_msg list \<Rightarrow> observed_process \<Rightarrow> observed_process \<times> op_signal list" where
  "slot_msgReceived [] op = (op, [])"
| "slot_msgReceived (msg # msgs) op =
     (let (op, sigs) = op_slot_CommChannel msg op;
          (op, sigs') = slot_msgReceived msgs op
      in (op, sigs @ sigs'))"

subsection \<open>Starting the observed process\<close>

definition setPid :: "int \<Rightarrow> apcontext \<Rightarrow> apcontext" where
  "setPid p c = c\<lparr>context_name := context_name c @ '' (pid: '' @ number p @ '')''\<rparr>"

text \<open>
  \<open>attachToProcess\<close>: the argument says whether the tracing thread runs and what blocking \<open>SIGALRM\<close>
  returns; the result whether \<open>tracer.init\<close> starts the thread.
\<close>

definition attachToProcess :: "bool \<Rightarrow> int \<Rightarrow> apcontext \<Rightarrow> bool \<times> apcontext" where
  "attachToProcess isRunning ret c =
     (let c = (if isRunning then report PROC_TRACE ''in_use'' c else c);
          c = (if ret \<noteq> 0 then report SYSTEM ''sigset'' c else c)
      in (\<not> isError c, c))"

text \<open>\<open>detachFromProcess\<close> and the destructor; the result lists the descriptors closed.\<close>

definition detachFromProcess :: "bool \<Rightarrow> trace_thread \<Rightarrow> trace_thread" where
  "detachFromProcess isRunning tr = (if \<not> isRunning then tr else deinit tr)"

definition OSServices_destroy :: "bool \<Rightarrow> trace_thread \<times> comm \<Rightarrow> int list \<times> trace_thread \<times> comm" where
  "OSServices_destroy isRunning = (\<lambda>(tr, cm).
     (let tr = detachFromProcess isRunning tr;
          (closed, cm) = deinitCommChannel cm
      in (closed, tr, cm)))"

record start_env =
  se_socket :: socket_env
  se_install :: int
  se_fork :: int
  se_restore :: int
  se_tracer :: bool
  se_sigmask :: int
  se_junk :: autopin_msg

definition ObservedProcess_start ::
  "start_env \<Rightarrow> observed_process \<times> comm \<times> apcontext \<Rightarrow> (op_signal list \<times> observed_process \<times> comm \<times> apcontext) option" where
  "ObservedProcess_start env = (\<lambda>(op, cm, c).
     (let c = (if running op then report PROCESS ''already_connected'' c else c) in
      case (if comm_addr op \<noteq> [] then initCommChannel (se_socket env) (comm_addr op) (cm, c) else Some (cm, c)) of
        None \<Rightarrow> None
      | Some (cm, c) \<Rightarrow>
          let (op, c) = (if op_pid op = -1 then
                           let (p, c) = createProcess (se_install env) (se_fork env) (se_restore env) (trace op) c
                           in (op\<lparr>op_pid := p\<rparr>, setPid p c)
                         else (op, c));
              op = op\<lparr>running := True\<rparr>;
              c = (if trace op then snd (attachToProcess (se_tracer env) (se_sigmask env) c) else c);
              (cm, c) = (if comm_addr op \<noteq> [] then connectCommChannel (se_socket env) (se_junk env) 60 (cm, c) else (cm, c))
          in Some ([Sig_TaskCreated (op_pid op)], op, cm, c)))"

subsection \<open>Properties\<close>

lemma fatal_COMM:
  "fatal COMM opt \<longleftrightarrow> opt \<in> {''default_addr'', ''not_initialized'', ''socket'', ''comm_target'', ''connect'', ''send''}"
  by (simp add: fatal_def fatal_reports_def)

text \<open>System calls on the invalid descriptor fail.\<close>

definition bad_fd_fails :: "socket_env \<Rightarrow> bool" where
  "bad_fd_fails env \<longleftrightarrow> fcntl_getfl env (-1) = -1 \<and> fcntl_setfl env (-1) = -1 \<and> sys_bind env (-1) = -1 \<and>
     sys_listen env (-1) = -1 \<and> sys_send env (-1) = -1"

text \<open>
  C35. Although \<open>initCommChannel\<close> goes on after every error, it ends consistently: with a path that fits
  the address structure it returns; the server socket is valid exactly when all five calls succeed,
  and otherwise the context is in the error state. A longer path is reported, and then copied beyond
  the end of the structure.
\<close>

theorem initCommChannel_consistent:
  assumes "bad_fd_fails env" and "\<not> isError c"
  shows "if length addr + 1 > UNIX_PATH_MAX then initCommChannel env addr (cm, c) = None
    else \<exists>cm' c'. initCommChannel env addr (cm, c) = Some (cm', c') \<and>
      (server_socket cm' \<noteq> -1 \<longleftrightarrow> \<not> isError c') \<and>
      (server_socket cm' \<noteq> -1 \<longleftrightarrow> (let fd = sys_socket env in fd \<noteq> -1 \<and> fcntl_getfl env fd \<noteq> -1 \<and>
         fcntl_setfl env fd \<noteq> -1 \<and> sys_bind env fd \<noteq> -1 \<and> sys_listen env fd \<noteq> -1))"
  using assms by (auto simp: initCommChannel_def server_check_def bad_fd_fails_def Let_def fatal_COMM)

definition demo_sockets :: socket_env where
  "demo_sockets = \<lparr>sys_socket = 3, fcntl_getfl = (\<lambda>fd. if fd = -1 then -1 else 0),
     fcntl_setfl = (\<lambda>fd. if fd = -1 then -1 else 0), sys_bind = (\<lambda>fd. if fd = -1 then -1 else 0),
     sys_listen = (\<lambda>fd. if fd = -1 then -1 else 0), sys_accept = (\<lambda>i. if i = 2 then (5, False) else (-1, True)),
     sys_send = (\<lambda>fd. if fd = -1 then -1 else 24)\<rparr>"

theorem initCommChannel_consistent_witness:
  "\<exists>cm' c'. initCommChannel demo_sockets ''/home/u/.autopin_socket'' (comm_new, AutopinContext_new ''w'') = Some (cm', c') \<and>
     server_socket cm' \<noteq> -1 \<and> \<not> isError c'"
  using initCommChannel_consistent[of demo_sockets "AutopinContext_new ''w''" "''/home/u/.autopin_socket''" comm_new]
  by (auto simp: bad_fd_fails_def demo_sockets_def UNIX_PATH_MAX_def)

end
