(* ===== verification/ClustSafe.thy ===== *)
theory ClustSafe
  imports Performance_Monitor Doubles "HOL-Library.Monad_Syntax"
begin

text \<open>
  \<open>src/AutopinPlus/Monitor/ClustSafe/Main.cpp\<close>: the monitor that reads the energy meters of a ClustSafe
  power distribution unit over UDP. All instances share the connection parameters, the timer and the
  map from instances to energy (the static members, record \<open>clust_static\<close>); an instance has its name
  and its set of threads. The device, the clock and the rounding of doubles are the record
  \<open>clust_env\<close>: the reply to a request may depend on all requests before it. An exception is the value
  \<open>None\<close> (\<open>False\<close> where nothing is returned). The mutex only serialises the static functions, which
  are the steps of the model.
\<close>

unbundle bit_operations_syntax

type_synonym QByteArray = "8 word list"

record clust_reply =
  connected :: bool \<comment> \<open>\<open>waitForConnected\<close>\<close>
  written :: int \<comment> \<open>the result of \<open>write\<close>\<close>
  readable :: bool \<comment> \<open>\<open>waitForReadyRead\<close>\<close>
  response :: QByteArray \<comment> \<open>\<open>readAll\<close>\<close>

record clust_env =
  device :: "QString \<Rightarrow> 16 word \<Rightarrow> QByteArray list \<Rightarrow> QByteArray \<Rightarrow> clust_reply"
  header_word :: "32 word" \<comment> \<open>the four bytes in front of the data of a byte array\<close>
  clock :: "nat \<Rightarrow> int" \<comment> \<open>milliseconds at the n-th use of the timer\<close>
  unstarted :: int \<comment> \<open>\<open>elapsed()\<close> of a timer that was never started\<close>
  rounded :: rounding

record clust_static =
  cs_host :: QString
  cs_port :: "16 word"
  cs_password :: QString
  cs_outlets :: "int list"
  timerStarted :: bool
  cs_timer :: "int option"
  instanceValueMap :: "nat \<rightharpoonup> 64 word"
  requests :: "QByteArray list"
  ticks :: nat

record clustsafe =
  cs_name :: QString
  address :: nat \<comment> \<open>the address of the object, its key in \<open>instanceValueMap\<close>\<close>
  threads :: "int set"

definition clust_static_new :: clust_static where
  "clust_static_new = \<lparr>cs_host = ''localhost'', cs_port = 2010, cs_password = [], cs_outlets = [1],
     timerStarted = False, cs_timer = None, instanceValueMap = Map.empty, requests = [], ticks = 0\<rparr>"

definition clustsafe_new :: "QString \<Rightarrow> nat \<Rightarrow> clustsafe" where
  "clustsafe_new name addr = \<lparr>cs_name = name, address = addr, threads = {}\<rparr>"

definition ttl :: int where "ttl = 10"

subsection \<open>Byte arrays\<close>

definition toUtf8 :: "QString \<Rightarrow> QByteArray" where
  "toUtf8 s = concat (map (\<lambda>c. let n = of_char c :: nat in
     if n < 128 then [word_of_nat n] else [word_of_nat (192 + n div 64), word_of_nat (128 + n mod 64)]) s)"

definition leftJustified :: "nat \<Rightarrow> QByteArray \<Rightarrow> QByteArray" where \<comment> \<open>filled with 0, truncated\<close>
  "leftJustified width a = take width a @ replicate (width - length a) 0"

definition byte_mid :: "QByteArray \<Rightarrow> int \<Rightarrow> int \<Rightarrow> QByteArray" where
  "byte_mid a pos len =
     (if pos > int (length a) then []
      else if len < 0 then drop (nat pos) a else take (nat len) (drop (nat pos) a))"

definition signature :: QByteArray where
  "signature = toUtf8 ''MEGware''"

definition toArray :: "16 word \<Rightarrow> QByteArray" where
  "toArray v = [ucast (drop_bit 8 v), ucast v]"

definition calculateChecksum :: "QByteArray \<Rightarrow> 8 word" where
  "calculateChecksum a = fold (\<lambda>v result. result + v) a 0"

definition checkAndDrop :: "QByteArray \<Rightarrow> QByteArray \<Rightarrow> QByteArray option" where
  "checkAndDrop a prefix = (if take (length prefix) a = prefix then Some (drop (length prefix) a) else None)"

subsection \<open>Talking to the device\<close>

definition length_field :: "QByteArray \<Rightarrow> QByteArray" where
  "length_field d = toArray (word_of_nat (length d))"

definition request_frame :: "QString \<Rightarrow> 16 word \<Rightarrow> QByteArray \<Rightarrow> QByteArray" where
  "request_frame password command d =
     signature @ [0] @ leftJustified 16 (toUtf8 password) @ toArray command @ length_field d @ take 0xFFFF d @
     [calculateChecksum (toArray command @ length_field d @ take 0xFFFF d)]"

definition parse_response :: "16 word \<Rightarrow> QByteArray \<Rightarrow> QByteArray option" where
  "parse_response command r = do {
     r \<leftarrow> checkAndDrop r signature;
     r \<leftarrow> checkAndDrop r [1];
     r \<leftarrow> checkAndDrop r [1];
     r \<leftarrow> checkAndDrop r (replicate 15 0);
     r \<leftarrow> checkAndDrop r (toArray command);
     let payload = byte_mid r 2 (int (length r) - 2 - 1);
     r \<leftarrow> checkAndDrop r (length_field payload);
     r \<leftarrow> checkAndDrop r payload;
     r \<leftarrow> checkAndDrop r [calculateChecksum (toArray command @ length_field payload @ payload)];
     Some payload
   }"

definition sendCommand ::
  "clust_env \<Rightarrow> 16 word \<Rightarrow> QByteArray \<Rightarrow> clust_static \<Rightarrow> QByteArray option \<times> clust_static" where
  "sendCommand env command d st =
     (let request = request_frame (cs_password st) command d;
          reply = device env (cs_host st) (cs_port st) (requests st) request
      in if \<not> connected reply then (None, st)
         else
           let st = st\<lparr>requests := requests st @ [request]\<rparr> in
           if written reply \<noteq> int (length request) then (None, st)
           else if \<not> readable reply then (None, st)
           else (parse_response command (response reply), st))"

text \<open>\<open>qFromBigEndian<qint32>\<close> of the four bytes of the outlet; index -1 is the word in front.\<close>

definition outlet_word :: "clust_env \<Rightarrow> QByteArray \<Rightarrow> int \<Rightarrow> 32 word" where
  "outlet_word env payload outlet =
     (if outlet < 0 then header_word env
      else let i = 4 * nat outlet in
        push_bit 24 (ucast (payload ! i)) OR push_bit 16 (ucast (payload ! (i + 1))) OR
        push_bit 8 (ucast (payload ! (i + 2))) OR ucast (payload ! (i + 3)))"

fun add_outlets :: "clust_env \<Rightarrow> QByteArray \<Rightarrow> int list \<Rightarrow> 64 word \<Rightarrow> 64 word option" where
  "add_outlets env payload [] v = Some v"
| "add_outlets env payload (outlet # os) v =
     (if (word_of_nat (length payload) :: 64 word) \<ge> word_of_int outlet * 4 + 4
      then add_outlets env payload os (v + scast (outlet_word env payload outlet)) else None)"

definition timer_elapsed :: "clust_env \<Rightarrow> clust_static \<Rightarrow> int \<times> clust_static" where
  "timer_elapsed env st =
     (signed_take_bit 31 (case cs_timer st of None \<Rightarrow> unstarted env | Some t0 \<Rightarrow> clock env (ticks st) - t0),
      st\<lparr>ticks := ticks st + 1\<rparr>)"

definition timer_start :: "clust_env \<Rightarrow> clust_static \<Rightarrow> clust_static" where
  "timer_start env st = st\<lparr>cs_timer := Some (clock env (ticks st)), ticks := ticks st + 1\<rparr>"

definition readValueFromDevice :: "clust_env \<Rightarrow> bool \<Rightarrow> clust_static \<Rightarrow> bool \<times> clust_static" where
  "readValueFromDevice env reset st =
     (let (timeElapsed, st) = timer_elapsed env st in
      if reset \<or> timeElapsed > 0 \<and> timeElapsed > ttl then
        case sendCommand env 0x010F [1] st of
          (None, st) \<Rightarrow> (False, st)
        | (Some payload, st) \<Rightarrow>
            (case add_outlets env payload (cs_outlets st) 0 of
               None \<Rightarrow> (False, st)
             | Some v \<Rightarrow>
                 let st = timer_start env st
                 in (True, st\<lparr>instanceValueMap := (\<lambda>i. map_option (\<lambda>x. x + v) (instanceValueMap st i))\<rparr>))
      else (True, st))"

subsection \<open>The shared functions\<close>

definition start_static :: "clust_env \<Rightarrow> nat \<Rightarrow> clust_static \<Rightarrow> bool \<times> clust_static" where
  "start_static env i st =
     (let (ok, st) = readValueFromDevice env True st in
      if \<not> ok then (False, st)
      else
        let st = st\<lparr>instanceValueMap := (instanceValueMap st)(i \<mapsto> 0)\<rparr>
        in (True, if \<not> timerStarted st then (timer_start env st)\<lparr>timerStarted := True\<rparr> else st))"

text \<open>\<open>instanceValueMap[i]\<close> inserts zero for an unknown instance.\<close>

definition map_access :: "nat \<Rightarrow> clust_static \<Rightarrow> 64 word \<times> clust_static" where
  "map_access i st =
     (case instanceValueMap st i of
        Some v \<Rightarrow> (v, st)
      | None \<Rightarrow> (0, st\<lparr>instanceValueMap := (instanceValueMap st)(i \<mapsto> 0)\<rparr>))"

definition value_static :: "clust_env \<Rightarrow> nat \<Rightarrow> clust_static \<Rightarrow> 64 word option \<times> clust_static" where
  "value_static env i st =
     (let (ok, st) = readValueFromDevice env False st in
      if \<not> ok then (None, st) else let (v, st) = map_access i st in (Some v, st))"

definition stop_static :: "clust_env \<Rightarrow> nat \<Rightarrow> clust_static \<Rightarrow> 64 word option \<times> clust_static" where
  "stop_static env i st =
     (let (ok, st) = readValueFromDevice env False st in
      if \<not> ok then (None, st)
      else let (v, st) = map_access i st in (Some v, st\<lparr>instanceValueMap := (instanceValueMap st)(i := None)\<rparr>))"

definition init_static :: "qt_conv \<Rightarrow> string_map \<Rightarrow> clust_static \<Rightarrow> clust_static" where
  "init_static qt config st =
     (let st = (if configOptionExists config ''clust.host'' > 0
                then st\<lparr>cs_host := getConfigOption config ''clust.host'' 0\<rparr> else st);
          st = (if configOptionExists config ''clust.port'' > 0
                then case readULong qt (getConfigOption config ''clust.port'' 0) of
                       Some p \<Rightarrow> st\<lparr>cs_port := ucast p\<rparr>
                     | None \<Rightarrow> st
                else st);
          st = (if configOptionExists config ''clust.password'' > 0
                then st\<lparr>cs_password := getConfigOption config ''clust.password'' 0\<rparr> else st)
      in if configOptionExists config ''clust.outlets'' > 0
         then case readInts qt (getConfigOptionList config ''clust.outlets'') of
                Some os \<Rightarrow> st\<lparr>cs_outlets := os\<rparr>
              | None \<Rightarrow> st
         else st)"

subsection \<open>The functions of an instance\<close>

definition clust_getConfigOpts :: "clustsafe \<Rightarrow> configopts" where
  "clust_getConfigOpts m = []"

definition clust_getUnit :: "clustsafe \<Rightarrow> QString" where
  "clust_getUnit m = ''Joules''"

definition clust_start ::
  "clust_env \<Rightarrow> int \<Rightarrow> (clustsafe \<times> clust_static) \<times> apcontext \<Rightarrow> (clustsafe \<times> clust_static) \<times> apcontext" where
  "clust_start env thread = (\<lambda>((m, st), c).
     (case start_static env (address m) st of
        (False, st) \<Rightarrow> ((m, st), report MONITOR ''start'' c)
      | (True, st) \<Rightarrow> ((m\<lparr>threads := insert thread (threads m)\<rparr>, st), c)))"

definition clust_value ::
  "clust_env \<Rightarrow> int \<Rightarrow> (clustsafe \<times> clust_static) \<times> apcontext \<Rightarrow> double \<times> (clustsafe \<times> clust_static) \<times> apcontext" where
  "clust_value env thread = (\<lambda>((m, st), c).
     (if thread \<notin> threads m then (Fin 0, (m, st), report MONITOR ''value'' c)
      else case value_static env (address m) st of
        (None, st) \<Rightarrow> (Fin 0, (m, st), report MONITOR ''value'' c)
      | (Some v, st) \<Rightarrow> (rounded env (real (unat v)), (m, st), c)))"

definition clust_clear ::
  "int \<Rightarrow> (clustsafe \<times> clust_static) \<times> apcontext \<Rightarrow> (clustsafe \<times> clust_static) \<times> apcontext" where
  "clust_clear thread = (\<lambda>((m, st), c). ((m\<lparr>threads := threads m - {thread}\<rparr>, st), c))"

definition clust_stop ::
  "clust_env \<Rightarrow> int \<Rightarrow> (clustsafe \<times> clust_static) \<times> apcontext \<Rightarrow> double \<times> (clustsafe \<times> clust_static) \<times> apcontext" where
  "clust_stop env thread = (\<lambda>((m, st), c).
     (case stop_static env (address m) st of
        (None, st) \<Rightarrow> (Fin 0, (m, st), report MONITOR ''stop'' c)
      | (Some v, st) \<Rightarrow>
          let (mst, c) = clust_clear thread ((m, st), c)
          in if isError c then (Fin 0, mst, report MONITOR ''stop'' c)
             else (rounded env (real (unat v)), mst, c)))"

definition clust_getMonitoredTasks :: "clustsafe \<times> clust_static \<Rightarrow> autopin_tid_list" where
  "clust_getMonitoredTasks mst = threads (fst mst)"

definition clust_ops :: "clust_env \<Rightarrow> (clustsafe \<times> clust_static) monitor_ops" where
  "clust_ops env = \<lparr>op_start = clust_start env, op_value = clust_value env, op_stop = clust_stop env,
     op_clear = clust_clear, op_getMonitoredTasks = clust_getMonitoredTasks\<rparr>"

subsection \<open>The frames\<close>

lemma checkAndDrop_iff: "checkAndDrop a p = Some r \<longleftrightarrow> a = p @ r"
  by (auto simp: checkAndDrop_def) (metis append_take_drop_id)

lemma length_toArray [simp]: "length (toArray v) = 2" "length (length_field d) = 2"
  by (simp_all add: toArray_def length_field_def)

text \<open>The frame a device answers with.\<close>

definition response_frame :: "16 word \<Rightarrow> QByteArray \<Rightarrow> QByteArray" where
  "response_frame command payload =
     signature @ [1, 1] @ replicate 15 0 @ toArray command @ length_field payload @ payload @
     [calculateChecksum (toArray command @ length_field payload @ payload)]"

lemma payload_length: "length (byte_mid r 2 (int (length r) - 2 - 1)) = length r - 3"
  by (auto simp: byte_mid_def)

lemma payload_between: "length a = 2 \<Longrightarrow> byte_mid (a @ p @ [x]) 2 (int (length (a @ p @ [x])) - 2 - 1) = p"
  by (simp add: byte_mid_def)

lemma parse_payload:
  "(\<exists>r'. r = length_field p @ p @ [x] @ r') \<and> p = byte_mid r 2 (int (length r) - 2 - 1) \<longleftrightarrow>
     r = length_field p @ p @ [x]"
proof
  assume "(\<exists>r'. r = length_field p @ p @ [x] @ r') \<and> p = byte_mid r 2 (int (length r) - 2 - 1)"
  then obtain r' where r: "r = length_field p @ p @ [x] @ r'" and p: "p = byte_mid r 2 (int (length r) - 2 - 1)"
    by blast
  have "length p = length r - 3" by (subst p) (rule payload_length)
  moreover have "length r = 3 + length p + length r'" using arg_cong[OF r, of length] by simp
  ultimately have "length r' = 0" by linarith
  with r show "r = length_field p @ p @ [x]" by simp
qed (use payload_between[of "length_field p" p x] in auto)

lemma parse_response_frame: "parse_response command r = Some payload \<longleftrightarrow> r = response_frame command payload"
proof -
  let ?x = "[calculateChecksum (toArray command @ length_field payload @ payload)]"
  have "parse_response command r = Some payload \<longleftrightarrow>
      (\<exists>u r'. r = signature @ [1] @ [1] @ replicate 15 0 @ toArray command @ u \<and>
         payload = byte_mid u 2 (int (length u) - 2 - 1) \<and> u = length_field payload @ payload @ ?x @ r')"
    by (simp add: parse_response_def Let_def bind_eq_Some_conv checkAndDrop_iff) metis
  also have "\<dots> \<longleftrightarrow> (\<exists>u. r = signature @ [1] @ [1] @ replicate 15 0 @ toArray command @ u \<and>
      u = length_field payload @ payload @ ?x)"
    using parse_payload[of _ payload "calculateChecksum (toArray command @ length_field payload @ payload)"] by blast
  finally show ?thesis by (simp add: response_frame_def)
qed

text \<open>
  C28. A response is accepted exactly when it is the frame of its payload: the signature, the device
  and status bytes, the padding, the command that was sent, the length of the payload, the payload
  and the checksum over the last three, and nothing after it. In particular, whatever a device frames
  is read back unchanged.
\<close>

theorem parse_response_iff: "parse_response command r = Some payload \<longleftrightarrow> r = response_frame command payload"
  by (rule parse_response_frame)

subsection \<open>The energy of an instance\<close>

text \<open>
  The energy the device reported in its answer to the n-th request, and in all answers so far. An
  answer that is refused counts as zero.
\<close>

definition reading :: "clust_env \<Rightarrow> clust_static \<Rightarrow> nat \<Rightarrow> 64 word" where
  "reading env st n =
     (let reply = device env (cs_host st) (cs_port st) (take n (requests st)) (requests st ! n) in
      if written reply \<noteq> int (length (requests st ! n)) \<or> \<not> readable reply then 0
      else case parse_response 0x010F (response reply) of None \<Rightarrow> 0
        | Some payload \<Rightarrow> (case add_outlets env payload (cs_outlets st) 0 of None \<Rightarrow> 0 | Some v \<Rightarrow> v))"

definition received :: "clust_env \<Rightarrow> clust_static \<Rightarrow> 64 word" where
  "received env st = (\<Sum>n<length (requests st). reading env st n)"

definition metered :: "clust_env \<Rightarrow> clust_static \<Rightarrow> clust_static \<Rightarrow> bool" where
  "metered env st st' \<longleftrightarrow> instanceValueMap st' =
     (\<lambda>i. map_option (\<lambda>x. x + (received env st' - received env st)) (instanceValueMap st i))"

lemma reading_cong:
  "requests st' = requests st \<Longrightarrow> cs_host st' = cs_host st \<Longrightarrow> cs_port st' = cs_port st \<Longrightarrow>
     cs_outlets st' = cs_outlets st \<Longrightarrow> reading env st' n = reading env st n"
  by (simp add: reading_def Let_def cong: option.case_cong)

lemma received_cong:
  "requests st' = requests st \<Longrightarrow> cs_host st' = cs_host st \<Longrightarrow> cs_port st' = cs_port st \<Longrightarrow>
     cs_outlets st' = cs_outlets st \<Longrightarrow> received env st' = received env st"
  using reading_cong[of st' st env] by (simp add: received_def)

lemma received_snoc:
  assumes "requests st' = requests st @ [q]" "cs_host st' = cs_host st" "cs_port st' = cs_port st"
    "cs_outlets st' = cs_outlets st"
  shows "received env st' = received env st + reading env st' (length (requests st))"
proof -
  have "reading env st' n = reading env st n" if "n < length (requests st)" for n
    using assms that by (simp add: reading_def nth_append Let_def cong: option.case_cong)
  then show ?thesis by (simp add: received_def assms(1))
qed

lemma timer_simps [simp]:
  "instanceValueMap (timer_start env st) = instanceValueMap st" "requests (timer_start env st) = requests st"
  "cs_host (timer_start env st) = cs_host st" "cs_port (timer_start env st) = cs_port st"
  "cs_outlets (timer_start env st) = cs_outlets st"
  by (simp_all add: timer_start_def)

lemma readValueFromDevice_metered:
  assumes "readValueFromDevice env reset st = (ok, st')"
  shows "metered env st st'"
proof -
  obtain el st1 where e: "timer_elapsed env st = (el, st1)" by fastforce
  then have st1: "st1 = st\<lparr>ticks := ticks st + 1\<rparr>" by (simp add: timer_elapsed_def)
  have r1: "received env st1 = received env st" by (rule received_cong) (simp_all add: st1)
  show ?thesis
  proof (cases "reset \<or> el > 0 \<and> el > ttl")
    case False
    with assms e st1 r1 show ?thesis by (auto simp: readValueFromDevice_def metered_def option.map_ident)
  next
    case True
    let ?q = "request_frame (cs_password st1) 0x010F [1]"
    let ?reply = "device env (cs_host st1) (cs_port st1) (requests st1) ?q"
    show ?thesis
    proof (cases "connected ?reply")
      case False
      with True assms e st1 r1 show ?thesis
        by (auto simp: readValueFromDevice_def sendCommand_def metered_def Let_def option.map_ident)
    next
      case conn: True
      have r: "received env st' = received env st + reading env st' (length (requests st))"
        using True conn assms e st1 by (intro received_snoc[where q = ?q])
          (auto simp: readValueFromDevice_def sendCommand_def Let_def split: if_splits option.splits)
      have "reading env st' (length (requests st)) = reading env (st1\<lparr>requests := requests st1 @ [?q]\<rparr>) (length (requests st))"
        using True conn assms e st1 by (intro reading_cong)
          (auto simp: readValueFromDevice_def sendCommand_def Let_def split: if_splits option.splits)
      with True conn assms e st1 r show ?thesis
        by (auto simp: readValueFromDevice_def sendCommand_def metered_def reading_def Let_def option.map_ident
            split: if_splits option.splits)
    qed
  qed
qed

lemma received_simps [simp]:
  "received env (st\<lparr>instanceValueMap := f\<rparr>) = received env st"
  "received env (st\<lparr>timerStarted := b\<rparr>) = received env st"
  "received env (timer_start env' st) = received env st"
  by (rule received_cong; simp)+

text \<open>The calls other instances make, in the order in which they get the mutex.\<close>

datatype clust_call = Start nat | Value nat | Stop nat

fun perform :: "clust_env \<Rightarrow> clust_call \<Rightarrow> clust_static \<Rightarrow> clust_static" where
  "perform env (Start i) st = snd (start_static env i st)"
| "perform env (Value i) st = snd (value_static env i st)"
| "perform env (Stop i) st = snd (stop_static env i st)"

definition clust_run :: "clust_env \<Rightarrow> clust_call list \<Rightarrow> clust_static \<Rightarrow> clust_static" where
  "clust_run env calls st = fold (perform env) calls st"

lemma metered_instance:
  "metered env st st' \<Longrightarrow> instanceValueMap st i = Some (received env st - b) \<Longrightarrow>
     instanceValueMap st' i = Some (received env st' - b)"
  by (simp add: metered_def)

text \<open>As long as the instance is neither started again nor stopped, its value is what came in since.\<close>

lemma clust_call_value:
  assumes "call \<noteq> Start i" "call \<noteq> Stop i" "instanceValueMap st i = Some (received env st - b)"
  shows "instanceValueMap (perform env call st) i = Some (received env (perform env call st) - b)"
proof -
  obtain ok st1 where r: "readValueFromDevice env (\<exists>j. call = Start j) st = (ok, st1)" by fastforce
  have v: "instanceValueMap st1 i = Some (received env st1 - b)"
    using metered_instance[OF readValueFromDevice_metered[OF r] assms(3)] .
  show ?thesis
    using assms(1,2) r v
    by (cases call)
      (auto simp: start_static_def value_static_def stop_static_def map_access_def Let_def split: option.splits)
qed

lemma clust_run_value:
  assumes "Start i \<notin> set calls" "Stop i \<notin> set calls" "instanceValueMap st i = Some (received env st - b)"
  shows "instanceValueMap (clust_run env calls st) i = Some (received env (clust_run env calls st) - b)"
  using assms
proof (induction calls arbitrary: st)
  case Nil
  then show ?case by (simp add: clust_run_def)
next
  case (Cons call calls)
  then have "instanceValueMap (perform env call st) i = Some (received env (perform env call st) - b)"
    by (intro clust_call_value) auto
  then show ?case using Cons by (simp add: clust_run_def)
qed

text \<open>
  C27. What an instance reports when it is stopped is the energy the device has reported, on the
  configured outlets, in all answers since the instance was started (modulo the width of the counter),
  whatever other instances start, read and stop in between: an answer is credited to every started
  instance, although reading the device resets its counters.
\<close>

theorem clustsafe_meters_energy:
  assumes "start_static env i st = (True, st1)" and "Start i \<notin> set calls" and "Stop i \<notin> set calls"
    and "stop_static env i (clust_run env calls st1) = (Some v, st2)"
  shows "v = received env st2 - received env st1 \<and> instanceValueMap st2 i = None"
proof -
  have "instanceValueMap st1 i = Some (received env st1 - received env st1)"
    using assms(1) by (auto simp: start_static_def Let_def split: prod.splits if_splits)
  from clust_run_value[OF assms(2,3) this]
  have run: "instanceValueMap (clust_run env calls st1) i = Some (received env (clust_run env calls st1) - received env st1)" .
  obtain st' where r: "readValueFromDevice env False (clust_run env calls st1) = (True, st')"
    using assms(4) by (auto simp: stop_static_def Let_def split: prod.splits if_splits)
  have st': "instanceValueMap st' i = Some (received env st' - received env st1)"
    by (rule metered_instance[OF readValueFromDevice_metered[OF r] run])
  then have st2: "st2 = st'\<lparr>instanceValueMap := (instanceValueMap st')(i := None)\<rparr>" and "v = received env st' - received env st1"
    using assms(4) r by (auto simp: stop_static_def map_access_def)
  moreover have "received env st2 = received env st'" by (rule received_cong) (simp_all add: st2)
  ultimately show ?thesis by simp
qed

text \<open>A device with two outlets that reports five Joules on the second one each time.\<close>

definition demo_device :: clust_env where
  "demo_device = \<lparr>device = (\<lambda>_ _ _ request. \<lparr>connected = True, written = int (length request), readable = True,
       response = response_frame 0x010F [0, 0, 0, 0, 0, 0, 0, 5]\<rparr>),
     header_word = 0, clock = (\<lambda>n. 100 * int n), unstarted = 0, rounded = Fin\<rparr>"

lemma demo_reply [simp]:
  "sendCommand demo_device 0x010F [1] st =
     (Some [0, 0, 0, 0, 0, 0, 0, 5], st\<lparr>requests := requests st @ [request_frame (cs_password st) 0x010F [1]]\<rparr>)"
  by (simp add: sendCommand_def demo_device_def parse_response_frame Let_def)

lemma demo_outlets [simp]: "outlet_word demo_device [0, 0, 0, 0, 0, 0, 0, 5] 1 = 5"
  by (simp add: outlet_word_def Let_def)

lemma demo_timer [simp]:
  "timer_start demo_device st = st\<lparr>cs_timer := Some (100 * int (ticks st)), ticks := ticks st + 1\<rparr>"
  "timer_elapsed demo_device st = (signed_take_bit 31 (case cs_timer st of None \<Rightarrow> 0 | Some t0 \<Rightarrow> 100 * int (ticks st) - t0),
     st\<lparr>ticks := ticks st + 1\<rparr>)"
  by (cases "cs_timer st"; simp add: timer_start_def timer_elapsed_def demo_device_def)+

lemma demo_calls:
  "fst (start_static demo_device 1 clust_static_new)"
  "fst (stop_static demo_device 1 (clust_run demo_device [Start 2] (snd (start_static demo_device 1 clust_static_new)))) = Some 10"
  by (simp_all add: start_static_def stop_static_def clust_run_def readValueFromDevice_def map_access_def
      clust_static_new_def ttl_def)

theorem clustsafe_meters_energy_witness:
  "\<exists>st1 st2. start_static demo_device 1 clust_static_new = (True, st1) \<and>
     stop_static demo_device 1 (clust_run demo_device [Start 2] st1) = (Some 10, st2) \<and>
     10 = received demo_device st2 - received demo_device st1"
proof -
  obtain st1 where st1: "start_static demo_device 1 clust_static_new = (True, st1)"
    using demo_calls(1) by (metis (full_types) prod.collapse)
  obtain st2 where st2: "stop_static demo_device 1 (clust_run demo_device [Start 2] st1) = (Some 10, st2)"
    using demo_calls(2) st1 by (metis prod.collapse snd_conv)
  from clustsafe_meters_energy[OF st1 _ _ st2] st1 st2 show ?thesis by simp
qed

subsection \<open>Which outlets are accepted\<close>

lemma outlet_bound:
  assumes "- (2 ^ 31) \<le> outlet" and "outlet < 2 ^ 31" and "length payload < 2 ^ 31"
  shows "(word_of_nat (length payload) :: 64 word) \<ge> word_of_int outlet * 4 + 4 \<longleftrightarrow>
    outlet = -1 \<or> 0 \<le> outlet \<and> 4 * outlet + 4 \<le> int (length payload)"
proof -
  have w: "word_of_int outlet * 4 + 4 = (word_of_int (4 * outlet + 4) :: 64 word)"
    by (simp add: algebra_simps)
  have l: "uint (word_of_nat (length payload) :: 64 word) = int (length payload)"
    using assms(3) by (simp add: unsigned_of_nat take_bit_nat_eq_self)
  have u: "uint (word_of_int (4 * outlet + 4) :: 64 word) = (4 * outlet + 4) mod 2 ^ 64"
    by (simp only: uint_word_of_int) simp
  consider "0 \<le> outlet" | "outlet = -1" | "outlet < -1" by linarith
  then show ?thesis
  proof cases
    case 1
    then have "(4 * outlet + 4) mod 2 ^ 64 = 4 * outlet + 4" using assms(2) by (intro mod_pos_pos_trivial) auto
    with 1 show ?thesis unfolding w word_le_def l u by auto
  next
    case 2
    then show ?thesis by simp
  next
    case 3
    have "(4 * outlet + 4 + 2 ^ 64) mod 2 ^ 64 = 4 * outlet + 4 + 2 ^ 64"
      using 3 assms(1) by (intro mod_pos_pos_trivial) auto
    then have "(4 * outlet + 4) mod 2 ^ 64 = 4 * outlet + 4 + 2 ^ 64" by (simp only: mod_add_self2)
    with 3 assms show ?thesis unfolding w word_le_def l u by auto
  qed
qed

text \<open>
  C38. The check before an outlet is read lets through exactly the outlets the payload has a value for
  and, because the bound is computed in an unsigned type, the outlet -1, for which the four bytes in
  front of the payload are added to the energy. All other outlets are refused.
\<close>

theorem outlet_check:
  assumes "\<forall>outlet\<in>set os. - (2 ^ 31) \<le> outlet \<and> outlet < 2 ^ 31" and "length payload < 2 ^ 31"
  shows "add_outlets env payload os v =
    (if \<forall>outlet\<in>set os. outlet = -1 \<or> 0 \<le> outlet \<and> 4 * outlet + 4 \<le> int (length payload)
     then Some (v + sum_list (map (\<lambda>outlet. scast (if outlet = -1 then header_word env else outlet_word env payload outlet)) os))
     else None)"
  using assms(1)
proof (induction os arbitrary: v)
  case Nil
  then show ?case by simp
next
  case (Cons outlet os)
  then have "(word_of_nat (length payload) :: 64 word) \<ge> word_of_int outlet * 4 + 4 \<longleftrightarrow>
      outlet = -1 \<or> 0 \<le> outlet \<and> 4 * outlet + 4 \<le> int (length payload)"
    using assms(2) by (intro outlet_bound) auto
  moreover have "outlet_word env payload (-1) = header_word env" by (simp add: outlet_word_def)
  ultimately show ?case using Cons by (auto simp: add.assoc)
qed

theorem outlet_check_witness:
  "add_outlets demo_device [0, 0, 0, 0, 0, 0, 0, 5] [1, -1] 0 = Some 5 \<and>
   add_outlets demo_device [0, 0, 0, 0, 0, 0, 0, 5] [2] 0 = None"
  using outlet_check[of "[1, -1]" "[0, 0, 0, 0, 0, 0, 0, 5]" demo_device 0]
    outlet_check[of "[2]" "[0, 0, 0, 0, 0, 0, 0, 5]" demo_device 0]
  by (simp add: demo_device_def outlet_word_def)

subsection \<open>The contract of a monitor\<close>

interpretation clustsafe: task_set_monitor "clust_ops env" "\<lambda>mst. finite (threads (fst mst))" for env
  by unfold_locales
    (auto simp: clust_ops_def clust_start_def clust_value_def clust_stop_def clust_clear_def clust_getMonitoredTasks_def
      Let_def fatal_def fatal_reports_def split: prod.splits bool.splits option.splits if_splits)

end
