(* ===== verification/GPerf_Sensor.thy ===== *)
theory GPerf_Sensor
  imports Configuration Doubles "HOL-Library.Monad_Syntax"
begin

text \<open>
  \<open>src/AutopinPlus/Monitor/GPerf/Main.cpp\<close>, \<open>readSensor\<close>, and \<open>Sensor.h\<close>: the description of a sensor of
  the Linux perf subsystem, read from a file below \<open>/sys/bus/event_source/devices\<close>, from the name of a
  generic event, or field by field. The structure \<open>perf_event_attr\<close> keeps the widths of its fields, and
  fields that share storage are one field here; its one-bit fields are the set of flags that are 1.
  The numbers of the generic events are those of the kernel's interface. The size of the structure
  and the width of its first reserved field depend on the kernel's headers and are parameters, like
  the files, the resolution of paths and Qt's conversions.
\<close>

unbundle bit_operations_syntax

datatype attr_flag =
    F_disabled | F_inherit | F_pinned | F_exclusive
  | F_exclude_user | F_exclude_kernel | F_exclude_hv | F_exclude_idle
  | F_mmap | F_comm | F_freq | F_inherit_stat
  | F_enable_on_exec | F_task | F_watermark | F_mmap_data
  | F_sample_id_all | F_exclude_host | F_exclude_guest | F_exclude_callchain_kernel
  | F_exclude_callchain_user | F_mmap2

record perf_event_attr =
  attr_type :: "32 word"
  attr_size :: "32 word"
  attr_config :: "64 word"
  sample_period :: "64 word" \<comment> \<open>also \<open>sample_freq\<close>\<close>
  sample_type :: "64 word"
  read_format :: "64 word"
  attr_flags :: "attr_flag set"
  precise_ip :: "2 word"
  reserved_1 :: "64 word"
  wakeup_events :: "32 word" \<comment> \<open>also \<open>wakeup_watermark\<close>\<close>
  bp_type :: "32 word"
  attr_config1 :: "64 word" \<comment> \<open>also \<open>bp_addr\<close>\<close>
  attr_config2 :: "64 word" \<comment> \<open>also \<open>bp_len\<close>\<close>
  branch_sample_type :: "64 word"
  sample_regs_user :: "64 word"
  sample_stack_user :: "32 word"
  reserved_2 :: "32 word"

record Sensor =
  attr :: perf_event_attr
  sensor_name :: QString
  sensor_processors :: "int list"
  scale :: double
  unit_name :: QString

record sensor_env =
  sn_conv :: qt_conv
  sn_files :: files
  absolutePath :: "QString \<Rightarrow> QString" \<comment> \<open>\<open>QFileInfo(p).absolutePath()\<close>\<close>
  sizeof_attr :: "32 word"
  reserved_1_width :: nat
  toULong36 :: "QString \<Rightarrow> 64 word" \<comment> \<open>\<open>toULong(nullptr, 36)\<close>\<close>
  number36 :: "64 word \<Rightarrow> QString" \<comment> \<open>\<open>QString::number(n, 36)\<close>\<close>

text \<open>How an evaluation can end: a shift by 64 or more bits is undefined.\<close>

datatype 'a sensor_result = Ok 'a | Throw | Undef

fun then_do :: "'a sensor_result \<Rightarrow> ('a \<Rightarrow> 'b sensor_result) \<Rightarrow> 'b sensor_result" where
  "then_do (Ok x) f = f x"
| "then_do Throw f = Throw"
| "then_do Undef f = Undef"

definition lift_exn :: "'a option \<Rightarrow> 'a sensor_result" where
  "lift_exn r = (case r of None \<Rightarrow> Throw | Some x \<Rightarrow> Ok x)"

definition startsWith :: "QString \<Rightarrow> QString \<Rightarrow> bool" where
  "startsWith s p \<longleftrightarrow> take (length p) s = p"

subsection \<open>The generic events\<close>

abbreviation (input) "PERF_TYPE_HARDWARE \<equiv> (0 :: 32 word)"
abbreviation (input) "PERF_TYPE_SOFTWARE \<equiv> (1 :: 32 word)"
abbreviation (input) "PERF_TYPE_HW_CACHE \<equiv> (3 :: 32 word)"

abbreviation (input) "PERF_COUNT_HW_CPU_CYCLES \<equiv> (0 :: 64 word)"
abbreviation (input) "PERF_COUNT_HW_INSTRUCTIONS \<equiv> (1 :: 64 word)"
abbreviation (input) "PERF_COUNT_HW_CACHE_REFERENCES \<equiv> (2 :: 64 word)"
abbreviation (input) "PERF_COUNT_HW_CACHE_MISSES \<equiv> (3 :: 64 word)"
abbreviation (input) "PERF_COUNT_HW_BRANCH_INSTRUCTIONS \<equiv> (4 :: 64 word)"
abbreviation (input) "PERF_COUNT_HW_BRANCH_MISSES \<equiv> (5 :: 64 word)"
abbreviation (input) "PERF_COUNT_HW_BUS_CYCLES \<equiv> (6 :: 64 word)"
abbreviation (input) "PERF_COUNT_HW_STALLED_CYCLES_FRONTEND \<equiv> (7 :: 64 word)"
abbreviation (input) "PERF_COUNT_HW_STALLED_CYCLES_BACKEND \<equiv> (8 :: 64 word)"
abbreviation (input) "PERF_COUNT_HW_REF_CPU_CYCLES \<equiv> (9 :: 64 word)"
abbreviation (input) "PERF_COUNT_SW_CPU_CLOCK \<equiv> (0 :: 64 word)"
abbreviation (input) "PERF_COUNT_SW_TASK_CLOCK \<equiv> (1 :: 64 word)"
abbreviation (input) "PERF_COUNT_SW_PAGE_FAULTS \<equiv> (2 :: 64 word)"
abbreviation (input) "PERF_COUNT_SW_CONTEXT_SWITCHES \<equiv> (3 :: 64 word)"
abbreviation (input) "PERF_COUNT_SW_CPU_MIGRATIONS \<equiv> (4 :: 64 word)"
abbreviation (input) "PERF_COUNT_SW_PAGE_FAULTS_MIN \<equiv> (5 :: 64 word)"
abbreviation (input) "PERF_COUNT_SW_PAGE_FAULTS_MAJ \<equiv> (6 :: 64 word)"
abbreviation (input) "PERF_COUNT_SW_ALIGNMENT_FAULTS \<equiv> (7 :: 64 word)"
abbreviation (input) "PERF_COUNT_SW_EMULATION_FAULTS \<equiv> (8 :: 64 word)"
abbreviation (input) "PERF_COUNT_SW_DUMMY \<equiv> (9 :: 64 word)"
abbreviation (input) "PERF_COUNT_HW_CACHE_L1D \<equiv> (0 :: 64 word)"
abbreviation (input) "PERF_COUNT_HW_CACHE_L1I \<equiv> (1 :: 64 word)"
abbreviation (input) "PERF_COUNT_HW_CACHE_LL \<equiv> (2 :: 64 word)"
abbreviation (input) "PERF_COUNT_HW_CACHE_DTLB \<equiv> (3 :: 64 word)"
abbreviation (input) "PERF_COUNT_HW_CACHE_ITLB \<equiv> (4 :: 64 word)"
abbreviation (input) "PERF_COUNT_HW_CACHE_BPU \<equiv> (5 :: 64 word)"
abbreviation (input) "PERF_COUNT_HW_CACHE_NODE \<equiv> (6 :: 64 word)"
abbreviation (input) "PERF_COUNT_HW_CACHE_OP_READ \<equiv> (0 :: 64 word)"
abbreviation (input) "PERF_COUNT_HW_CACHE_OP_WRITE \<equiv> (1 :: 64 word)"
abbreviation (input) "PERF_COUNT_HW_CACHE_OP_PREFETCH \<equiv> (2 :: 64 word)"
abbreviation (input) "PERF_COUNT_HW_CACHE_RESULT_ACCESS \<equiv> (0 :: 64 word)"
abbreviation (input) "PERF_COUNT_HW_CACHE_RESULT_MISS \<equiv> (1 :: 64 word)"

definition hardware_config :: "QString \<Rightarrow> 64 word option" where
  "hardware_config = map_of
    [(''hardware/cpu-cycles'', PERF_COUNT_HW_CPU_CYCLES),
     (''hardware/instructions'', PERF_COUNT_HW_INSTRUCTIONS),
     (''hardware/cache-references'', PERF_COUNT_HW_CACHE_REFERENCES),
     (''hardware/cache-misses'', PERF_COUNT_HW_CACHE_MISSES),
     (''hardware/branch-instructions'', PERF_COUNT_HW_BRANCH_INSTRUCTIONS),
     (''hardware/branch-misses'', PERF_COUNT_HW_BRANCH_MISSES),
     (''hardware/bus-cycles'', PERF_COUNT_HW_BUS_CYCLES),
     (''hardware/stalled-cycles-frontend'', PERF_COUNT_HW_STALLED_CYCLES_FRONTEND),
     (''hardware/stalled-cycles-backend'', PERF_COUNT_HW_STALLED_CYCLES_BACKEND),
     (''hardware/ref-cpu-cycles'', PERF_COUNT_HW_REF_CPU_CYCLES)]"

definition software_config :: "QString \<Rightarrow> 64 word option" where
  "software_config = map_of
    [(''software/cpu-clock'', PERF_COUNT_SW_CPU_CLOCK),
     (''software/task-clock'', PERF_COUNT_SW_TASK_CLOCK),
     (''software/page-faults'', PERF_COUNT_SW_PAGE_FAULTS),
     (''software/context-switches'', PERF_COUNT_SW_CONTEXT_SWITCHES),
     (''software/cpu-migrations'', PERF_COUNT_SW_CPU_MIGRATIONS),
     (''software/page-faults-min'', PERF_COUNT_SW_PAGE_FAULTS_MIN),
     (''software/page-faults-maj'', PERF_COUNT_SW_PAGE_FAULTS_MAJ),
     (''software/alignment-faults'', PERF_COUNT_SW_ALIGNMENT_FAULTS),
     (''software/emulation-faults'', PERF_COUNT_SW_EMULATION_FAULTS),
     (''software/dummy'', PERF_COUNT_SW_DUMMY)]"

definition cache_event :: "64 word \<Rightarrow> 64 word \<Rightarrow> 64 word \<Rightarrow> 64 word" where
  "cache_event cache operation outcome = cache OR push_bit 8 operation OR push_bit 16 outcome"

definition cache_table :: "(QString \<times> 64 word) list" where
  "cache_table =
    [(''cache/l1d-read-access'', cache_event PERF_COUNT_HW_CACHE_L1D PERF_COUNT_HW_CACHE_OP_READ PERF_COUNT_HW_CACHE_RESULT_ACCESS),
     (''cache/l1d-read-miss'', cache_event PERF_COUNT_HW_CACHE_L1D PERF_COUNT_HW_CACHE_OP_READ PERF_COUNT_HW_CACHE_RESULT_MISS),
     (''cache/l1d-write-access'', cache_event PERF_COUNT_HW_CACHE_L1D PERF_COUNT_HW_CACHE_OP_WRITE PERF_COUNT_HW_CACHE_RESULT_ACCESS),
     (''cache/l1d-write-miss'', cache_event PERF_COUNT_HW_CACHE_L1D PERF_COUNT_HW_CACHE_OP_WRITE PERF_COUNT_HW_CACHE_RESULT_MISS),
     (''cache/l1d-prefetch-access'', cache_event PERF_COUNT_HW_CACHE_L1D PERF_COUNT_HW_CACHE_OP_PREFETCH PERF_COUNT_HW_CACHE_RESULT_ACCESS),
     (''cache/l1d-prefetch-miss'', cache_event PERF_COUNT_HW_CACHE_L1D PERF_COUNT_HW_CACHE_OP_PREFETCH PERF_COUNT_HW_CACHE_RESULT_MISS),
     (''cache/l1i-read-access'', cache_event PERF_COUNT_HW_CACHE_L1I PERF_COUNT_HW_CACHE_OP_READ PERF_COUNT_HW_CACHE_RESULT_ACCESS),
     (''cache/l1i-read-miss'', cache_event PERF_COUNT_HW_CACHE_L1I PERF_COUNT_HW_CACHE_OP_READ PERF_COUNT_HW_CACHE_RESULT_MISS),
     (''cache/l1i-write-access'', cache_event PERF_COUNT_HW_CACHE_L1I PERF_COUNT_HW_CACHE_OP_WRITE PERF_COUNT_HW_CACHE_RESULT_ACCESS),
     (''cache/l1i-write-miss'', cache_event PERF_COUNT_HW_CACHE_L1I PERF_COUNT_HW_CACHE_OP_WRITE PERF_COUNT_HW_CACHE_RESULT_MISS),
     (''cache/l1i-prefetch-access'', cache_event PERF_COUNT_HW_CACHE_L1I PERF_COUNT_HW_CACHE_OP_PREFETCH PERF_COUNT_HW_CACHE_RESULT_ACCESS),
     (''cache/l1i-prefetch-miss'', cache_event PERF_COUNT_HW_CACHE_L1I PERF_COUNT_HW_CACHE_OP_PREFETCH PERF_COUNT_HW_CACHE_RESULT_MISS),
     (''cache/ll-read-access'', cache_event PERF_COUNT_HW_CACHE_LL PERF_COUNT_HW_CACHE_OP_READ PERF_COUNT_HW_CACHE_RESULT_ACCESS),
     (''cache/ll-read-miss'', cache_event PERF_COUNT_HW_CACHE_LL PERF_COUNT_HW_CACHE_OP_READ PERF_COUNT_HW_CACHE_RESULT_MISS),
     (''cache/ll-write-access'', cache_event PERF_COUNT_HW_CACHE_LL PERF_COUNT_HW_CACHE_OP_WRITE PERF_COUNT_HW_CACHE_RESULT_ACCESS),
     (''cache/ll-write-miss'', cache_event PERF_COUNT_HW_CACHE_LL PERF_COUNT_HW_CACHE_OP_WRITE PERF_COUNT_HW_CACHE_RESULT_MISS),
     (''cache/ll-prefetch-access'', cache_event PERF_COUNT_HW_CACHE_LL PERF_COUNT_HW_CACHE_OP_PREFETCH PERF_COUNT_HW_CACHE_RESULT_ACCESS),
     (''cache/ll-prefetch-miss'', cache_event PERF_COUNT_HW_CACHE_LL PERF_COUNT_HW_CACHE_OP_PREFETCH PERF_COUNT_HW_CACHE_RESULT_MISS),
     (''cache/dtlb-read-access'', cache_event PERF_COUNT_HW_CACHE_DTLB PERF_COUNT_HW_CACHE_OP_READ PERF_COUNT_HW_CACHE_RESULT_ACCESS),
     (''cache/dtlb-read-miss'', cache_event PERF_COUNT_HW_CACHE_DTLB PERF_COUNT_HW_CACHE_OP_READ PERF_COUNT_HW_CACHE_RESULT_MISS),
     (''cache/dtlb-write-access'', cache_event PERF_COUNT_HW_CACHE_DTLB PERF_COUNT_HW_CACHE_OP_WRITE PERF_COUNT_HW_CACHE_RESULT_ACCESS),
     (''cache/dtlb-write-miss'', cache_event PERF_COUNT_HW_CACHE_DTLB PERF_COUNT_HW_CACHE_OP_WRITE PERF_COUNT_HW_CACHE_RESULT_MISS),
     (''cache/dtlb-prefetch-access'', cache_event PERF_COUNT_HW_CACHE_DTLB PERF_COUNT_HW_CACHE_OP_PREFETCH PERF_COUNT_HW_CACHE_RESULT_ACCESS),
     (''cache/dtlb-prefetch-miss'', cache_event PERF_COUNT_HW_CACHE_DTLB PERF_COUNT_HW_CACHE_OP_PREFETCH PERF_COUNT_HW_CACHE_RESULT_MISS),
     (''cache/itlb-read-access'', cache_event PERF_COUNT_HW_CACHE_ITLB PERF_COUNT_HW_CACHE_OP_READ PERF_COUNT_HW_CACHE_RESULT_ACCESS),
     (''cache/itlb-read-miss'', cache_event PERF_COUNT_HW_CACHE_ITLB PERF_COUNT_HW_CACHE_OP_READ PERF_COUNT_HW_CACHE_RESULT_MISS),
     (''cache/itlb-write-access'', cache_event PERF_COUNT_HW_CACHE_ITLB PERF_COUNT_HW_CACHE_OP_WRITE PERF_COUNT_HW_CACHE_RESULT_ACCESS),
     (''cache/itlb-write-miss'', cache_event PERF_COUNT_HW_CACHE_ITLB PERF_COUNT_HW_CACHE_OP_WRITE PERF_COUNT_HW_CACHE_RESULT_MISS),
     (''cache/itlb-prefetch-access'', cache_event PERF_COUNT_HW_CACHE_ITLB PERF_COUNT_HW_CACHE_OP_PREFETCH PERF_COUNT_HW_CACHE_RESULT_ACCESS),
     (''cache/itlb-prefetch-miss'', cache_event PERF_COUNT_HW_CACHE_ITLB PERF_COUNT_HW_CACHE_OP_PREFETCH PERF_COUNT_HW_CACHE_RESULT_MISS),
     (''cache/bpu-read-access'', cache_event PERF_COUNT_HW_CACHE_BPU PERF_COUNT_HW_CACHE_OP_READ PERF_COUNT_HW_CACHE_RESULT_ACCESS),
     (''cache/bpu-read-miss'', cache_event PERF_COUNT_HW_CACHE_BPU PERF_COUNT_HW_CACHE_OP_READ PERF_COUNT_HW_CACHE_RESULT_MISS),
     (''cache/bpu-write-access'', cache_event PERF_COUNT_HW_CACHE_BPU PERF_COUNT_HW_CACHE_OP_WRITE PERF_COUNT_HW_CACHE_RESULT_ACCESS),
     (''cache/bpu-write-miss'', cache_event PERF_COUNT_HW_CACHE_BPU PERF_COUNT_HW_CACHE_OP_WRITE PERF_COUNT_HW_CACHE_RESULT_MISS),
     (''cache/bpu-prefetch-access'', cache_event PERF_COUNT_HW_CACHE_BPU PERF_COUNT_HW_CACHE_OP_PREFETCH PERF_COUNT_HW_CACHE_RESULT_ACCESS),
     (''cache/bpu-prefetch-miss'', cache_event PERF_COUNT_HW_CACHE_BPU PERF_COUNT_HW_CACHE_OP_PREFETCH PERF_COUNT_HW_CACHE_RESULT_MISS),
     (''cache/node-read-access'', cache_event PERF_COUNT_HW_CACHE_NODE PERF_COUNT_HW_CACHE_OP_READ PERF_COUNT_HW_CACHE_RESULT_ACCESS),
     (''cache/node-read-miss'', cache_event PERF_COUNT_HW_CACHE_NODE PERF_COUNT_HW_CACHE_OP_READ PERF_COUNT_HW_CACHE_RESULT_MISS),
     (''cache/node-write-access'', cache_event PERF_COUNT_HW_CACHE_NODE PERF_COUNT_HW_CACHE_OP_WRITE PERF_COUNT_HW_CACHE_RESULT_ACCESS),
     (''cache/node-write-miss'', cache_event PERF_COUNT_HW_CACHE_NODE PERF_COUNT_HW_CACHE_OP_WRITE PERF_COUNT_HW_CACHE_RESULT_MISS),
     (''cache/node-prefetch-access'', cache_event PERF_COUNT_HW_CACHE_NODE PERF_COUNT_HW_CACHE_OP_PREFETCH PERF_COUNT_HW_CACHE_RESULT_ACCESS),
     (''cache/node-prefetch-miss'', cache_event PERF_COUNT_HW_CACHE_NODE PERF_COUNT_HW_CACHE_OP_PREFETCH PERF_COUNT_HW_CACHE_RESULT_MISS)]"

definition cache_config :: "QString \<Rightarrow> 64 word option" where
  "cache_config = map_of cache_table"

text \<open>
  The \<open>gate/\<close> sensors: the constants of the table are or-ed with the three shifted numbers, which
  are all zero.
\<close>

definition gate_table :: "(QString \<times> 64 word) list" where
  "gate_table =
    [(''gate/diagnostic'', 0x61485B1B4A325B1B),
     (''gate/diagnostid'', 0x7568732E2E2E6D6C),
     (''gate/diagnostie'', 0x2E2E2E2E6873726B),
     (''gate/diagnostif'', 0x2E2E727A7A616866),
     (''gate/diagnostig'', 0x2E65687574747364),
     (''gate/diagnostih'', 0x1B00000000002E2E),
     (''gate/diagnostii'', 0x6874485B1B4A325B),
     (''gate/diagnostij'', 0x6562652E2E2E7265),
     (''gate/diagnostik'', 0x696F65687320206E),
     (''gate/diagnostil'', 0x616172662E2E2E2E),
     (''gate/diagnostim'', 0x7074732E2E2E7273),
     (''gate/diagnostin'', 0x726D2E2E2E6F6E70),
     (''gate/diagnostio'', 0x6C756A6E6F726761),
     (''gate/diagnostip'', 0x680A0A616E747265),
     (''gate/diagnostiq'', 0x0000000A0A706C65),
     (''gate/diagnostir'', 0x7261206F68570000),
     (''gate/diagnostis'', 0x0A0A3F756F792065),
     (''gate/diagnostit'', 0x746562617A696C65),
     (''gate/diagnostiu'', 0x0000726965772068),
     (''gate/diagnostiv'', 0x1B4A325B1B000000),
     (''gate/diagnostiw'', 0x206572656857485B),
     (''gate/diagnostix'', 0x3F756F7920657261),
     (''gate/diagnostiy'', 0x7475706D6F630A0A),
     (''gate/diagnostiz'', 0x69666669640A7265),
     (''gate/diagnostj0'', 0x7275630A746C7563),
     (''gate/diagnostj1'', 0x6E6F6320746E6572),
     (''gate/diagnostj2'', 0x0A0A6E6F69746964),
     (''gate/diagnostj3'', 0x5700000000000000),
     (''gate/diagnostj4'', 0x7070616820746168),
     (''gate/diagnostj5'', 0x206F742064656E65),
     (''gate/diagnostj6'', 0x000000003F756F79),
     (''gate/diagnostj7'', 0x485B1B4A325B1B00),
     (''gate/diagnostj8'', 0x6563617073627573),
     (''gate/diagnostj9'', 0x756369666669640A),
     (''gate/diagnostja'', 0x72746E6F6320746C),
     (''gate/diagnostjb'', 0x6E697972740A6C6F),
     (''gate/diagnostjc'', 0x000000006F742067),
     (''gate/diagnostjd'', 0x485B1B4A325B1B00),
     (''gate/diagnostje'', 0x20756F7920646944),
     (''gate/diagnostjf'', 0x3F74616874206F64),
     (''gate/diagnostjg'', 0x7266776C6C610A0A),
     (''gate/diagnostjh'', 0x2065746675736162),
     (''gate/diagnostji'', 0x737A7769647A6620),
     (''gate/diagnostjj'', 0x0000000A0A786D20),
     (''gate/diagnostjk'', 0x6F79206572410000),
     (''gate/diagnostjl'', 0x206C6C6974732075),
     (''gate/diagnostjm'', 0x0A0A3F6572656874),
     (''gate/diagnostjn'', 0x00656D20706C6568)]"

definition gate_config :: "QString \<Rightarrow> 64 word option" where
  "gate_config input = map_option (\<lambda>v. push_bit 24 PERF_COUNT_HW_CPU_CYCLES OR push_bit 16 PERF_COUNT_HW_CACHE_OP_READ OR
     push_bit 8 PERF_COUNT_HW_CACHE_RESULT_ACCESS OR v) (map_of gate_table input)"

subsection \<open>Fields set by name\<close>

definition flag_names :: "(QString \<times> attr_flag) list" where
  "flag_names =
    [(''disabled'', F_disabled), (''inherit'', F_inherit), (''pinned'', F_pinned),
     (''exclusive'', F_exclusive), (''exclude_user'', F_exclude_user), (''exclude_kernel'', F_exclude_kernel),
     (''exclude_hv'', F_exclude_hv), (''exclude_idle'', F_exclude_idle), (''mmap'', F_mmap),
     (''comm'', F_comm), (''freq'', F_freq), (''inherit_stat'', F_inherit_stat),
     (''enable_on_exec'', F_enable_on_exec), (''task'', F_task), (''watermark'', F_watermark),
     (''mmap_data'', F_mmap_data), (''sample_id_all'', F_sample_id_all), (''exclude_host'', F_exclude_host),
     (''exclude_guest'', F_exclude_guest), (''exclude_callchain_kernel'', F_exclude_callchain_kernel), (''exclude_callchain_user'', F_exclude_callchain_user),
     (''mmap2 '', F_mmap2)]"

definition set_attr :: "sensor_env \<Rightarrow> QString \<Rightarrow> 64 word \<Rightarrow> perf_event_attr \<Rightarrow> perf_event_attr option" where
  "set_attr env field value a =
     (case map_of flag_names field of
        Some flag \<Rightarrow> Some (a\<lparr>attr_flags := (if bit value 0 then insert flag (attr_flags a) else attr_flags a - {flag})\<rparr>)
      | None \<Rightarrow>
          (if field = ''type'' then Some (a\<lparr>attr_type := ucast value\<rparr>)
           else if field = ''size'' then Some (a\<lparr>attr_size := ucast value\<rparr>)
           else if field = ''config'' then Some (a\<lparr>attr_config := value\<rparr>)
           else if field = ''sample_period'' then Some (a\<lparr>sample_period := value\<rparr>)
           else if field = ''sample_freq'' then Some (a\<lparr>sample_period := value\<rparr>)
           else if field = ''sample_type'' then Some (a\<lparr>sample_type := value\<rparr>)
           else if field = ''read_format;'' then Some (a\<lparr>read_format := value\<rparr>)
           else if field = ''precise_ip'' then Some (a\<lparr>precise_ip := ucast value\<rparr>)
           else if field = ''__reserved_1'' then Some (a\<lparr>reserved_1 := take_bit (reserved_1_width env) value\<rparr>)
           else if field = ''wakeup_events'' then Some (a\<lparr>wakeup_events := ucast value\<rparr>)
           else if field = ''wakeup_watermark'' then Some (a\<lparr>wakeup_events := ucast value\<rparr>)
           else if field = ''bp_type'' then Some (a\<lparr>bp_type := ucast value\<rparr>)
           else if field = ''bp_addr'' then Some (a\<lparr>attr_config1 := value\<rparr>)
           else if field = ''config1'' then Some (a\<lparr>attr_config1 := value\<rparr>)
           else if field = ''bp_len'' then Some (a\<lparr>attr_config2 := value\<rparr>)
           else if field = ''config2'' then Some (a\<lparr>attr_config2 := value\<rparr>)
           else if field = ''branch_sample_type'' then Some (a\<lparr>branch_sample_type := value\<rparr>)
           else if field = ''sample_regs_user'' then Some (a\<lparr>sample_regs_user := value\<rparr>)
           else if field = ''sample_stack_user'' then Some (a\<lparr>sample_stack_user := ucast value\<rparr>)
           else if field = ''__reserved_2'' then Some (a\<lparr>reserved_2 := ucast value\<rparr>)
           else None))"

fun set_fields :: "sensor_env \<Rightarrow> QStringList \<Rightarrow> perf_event_attr \<Rightarrow> perf_event_attr option" where
  "set_fields env [] a = Some a"
| "set_fields env (setting # settings) a = do {
     (field, text) \<leftarrow> readPair setting CHR ''='';
     value \<leftarrow> readULong (sn_conv env) text;
     a \<leftarrow> set_attr env field value a;
     set_fields env settings a
   }"

subsection \<open>Sensors described by files\<close>

text \<open>One selector of the description: the field it sets, its lowest and highest bit, the value.\<close>

definition read_selector :: "sensor_env \<Rightarrow> QString \<Rightarrow> QString \<Rightarrow> (QString \<times> 64 word \<times> 64 word \<times> 64 word) option" where
  "read_selector env input selector = do {
     let (variable, text) = (case readPair selector CHR ''='' of Some p \<Rightarrow> p | None \<Rightarrow> (selector, ''1''));
     value \<leftarrow> readULong (sn_conv env) text;
     line \<leftarrow> readLine (sn_files env) (absolutePath env input @ ''/../format/'' @ variable);
     (field, position) \<leftarrow> readPair line CHR '':'';
     let (low, high) = (case readPair position CHR ''-'' of Some p \<Rightarrow> p | None \<Rightarrow> (position, position));
     lower \<leftarrow> readULong (sn_conv env) low;
     upper \<leftarrow> readULong (sn_conv env) high;
     Some (field, lower, upper, value)
   }"

definition shift_in :: "64 word \<Rightarrow> 64 word \<Rightarrow> 64 word \<Rightarrow> 64 word sensor_result" where
  "shift_in old value lower = (if unat lower \<ge> 64 then Undef else Ok (old OR push_bit (unat lower) value))"

definition apply_selector ::
  "QString \<times> 64 word \<times> 64 word \<times> 64 word \<Rightarrow> perf_event_attr \<Rightarrow> perf_event_attr sensor_result" where
  "apply_selector = (\<lambda>(field, lower, upper, value) a.
     (let bits = upper - lower + 1 in
      if unat bits \<ge> 64 then Undef
      else if value \<ge> push_bit (unat bits) 1 then Throw
      else if field = ''config'' then then_do (shift_in (attr_config a) value lower) (\<lambda>v. Ok (a\<lparr>attr_config := v\<rparr>))
      else if field = ''config1'' then then_do (shift_in (attr_config1 a) value lower) (\<lambda>v. Ok (a\<lparr>attr_config1 := v\<rparr>))
      else if field = ''config2'' then then_do (shift_in (attr_config2 a) value lower) (\<lambda>v. Ok (a\<lparr>attr_config2 := v\<rparr>))
      else Throw))"

fun file_selectors :: "sensor_env \<Rightarrow> QString \<Rightarrow> QStringList \<Rightarrow> perf_event_attr \<Rightarrow> perf_event_attr sensor_result" where
  "file_selectors env input [] a = Ok a"
| "file_selectors env input (selector # selectors) a =
     then_do (lift_exn (read_selector env input selector)) (\<lambda>sel.
     then_do (apply_selector sel a) (\<lambda>a. file_selectors env input selectors a))"

definition file_sensor :: "sensor_env \<Rightarrow> QString \<Rightarrow> Sensor \<Rightarrow> Sensor sensor_result" where
  "file_sensor env input result =
     (let qt = sn_conv env; line = readLine (sn_files env) in
      then_do (lift_exn (Option.bind (line (absolutePath env input @ ''/../type'')) (readULong qt))) (\<lambda>t.
      then_do (lift_exn (line input)) (\<lambda>selectors.
      then_do (file_selectors env input (split_char CHR '','' selectors) ((attr result)\<lparr>attr_type := ucast t\<rparr>)) (\<lambda>a.
        let result = result\<lparr>attr := a\<rparr>;
            result = (case Option.bind (line (input @ ''.scale'')) (readDouble qt) of
                        Some d \<Rightarrow> result\<lparr>scale := d\<rparr> | None \<Rightarrow> result);
            result = (case line (input @ ''.unit'') of Some u \<Rightarrow> result\<lparr>unit_name := u\<rparr> | None \<Rightarrow> result);
            result = (case Option.bind (line (absolutePath env input @ ''/../cpumask''))
                             (\<lambda>l. readInts qt (split_char CHR '','' l)) of
                        Some ps \<Rightarrow> result\<lparr>sensor_processors := ps\<rparr> | None \<Rightarrow> result)
        in Ok result))))"

subsection \<open>All sensors\<close>

definition attr_zero :: "sensor_env \<Rightarrow> perf_event_attr" where
  "attr_zero env = \<lparr>attr_type = 0, attr_size = sizeof_attr env, attr_config = 0, sample_period = 0, sample_type = 0,
     read_format = 0, attr_flags = {F_disabled}, precise_ip = 0, reserved_1 = 0, wakeup_events = 0, bp_type = 0,
     attr_config1 = 0, attr_config2 = 0, branch_sample_type = 0, sample_regs_user = 0, sample_stack_user = 0,
     reserved_2 = 0\<rparr>"

definition sensor_new :: "sensor_env \<Rightarrow> QString \<Rightarrow> Sensor" where
  "sensor_new env input = \<lparr>attr = attr_zero env, sensor_name = input, sensor_processors = [], scale = Fin 1, unit_name = []\<rparr>"

definition generic_sensor :: "32 word \<Rightarrow> 64 word option \<Rightarrow> Sensor \<Rightarrow> Sensor sensor_result" where
  "generic_sensor t config result =
     (case config of None \<Rightarrow> Throw
      | Some v \<Rightarrow> Ok (result\<lparr>attr := (attr result)\<lparr>attr_type := t, attr_config := v\<rparr>\<rparr>))"

definition gate_next :: "sensor_env \<Rightarrow> QString \<Rightarrow> QString" where
  "gate_next env input = ''gate/'' @ number36 env (toULong36 env (split_char CHR ''/'' input ! 1) + 1)"

text \<open>What the first \<open>n\<close> nested calls print: the eight bytes of \<open>config\<close>.\<close>

definition config_bytes :: "64 word \<Rightarrow> 8 word list" where
  "config_bytes v = map (\<lambda>i. ucast (drop_bit (8 * i) v)) [0..<8]"

fun gate_output :: "sensor_env \<Rightarrow> nat \<Rightarrow> QString \<Rightarrow> 8 word list" where
  "gate_output env 0 input = []"
| "gate_output env (Suc n) input =
     config_bytes (case gate_config input of None \<Rightarrow> 0 | Some v \<Rightarrow> v) @ gate_output env n (gate_next env input)"

text \<open>\<open>None\<close>: not returned within this depth of recursion.\<close>

fun readSensor :: "sensor_env \<Rightarrow> nat \<Rightarrow> QString \<Rightarrow> Sensor sensor_result option" where
  "readSensor env 0 input = None"
| "readSensor env (Suc fuel) input =
     (let result = sensor_new env input in
      if startsWith input ''/'' then Some (file_sensor env input result)
      else if startsWith input ''hardware/'' then Some (generic_sensor PERF_TYPE_HARDWARE (hardware_config input) result)
      else if startsWith input ''cache/'' then Some (generic_sensor PERF_TYPE_HW_CACHE (cache_config input) result)
      else if startsWith input ''gate/'' then
        let v = (case gate_config input of None \<Rightarrow> 0 | Some v \<Rightarrow> v) in
        case readSensor env fuel (gate_next env input) of
          None \<Rightarrow> None
        | Some r \<Rightarrow> Some (then_do r (\<lambda>_. generic_sensor PERF_TYPE_HARDWARE (Some v) result))
      else if startsWith input ''software/'' then Some (generic_sensor PERF_TYPE_SOFTWARE (software_config input) result)
      else if startsWith input ''perf_event_attr/'' then
        Some (lift_exn (do {
          (prefix, config) \<leftarrow> readPair input CHR ''/'';
          a \<leftarrow> set_fields env (split_char CHR '','' config) (attr result);
          Some (result\<lparr>attr := a\<rparr>)
        }))
      else Some Throw)"

definition showSensor :: "(double \<Rightarrow> QString) \<Rightarrow> Sensor \<Rightarrow> QString" where
  "showSensor numd input =
     ''[ attr.type='' @ number (uint (attr_type (attr input))) @ '', attr.config='' @ number (uint (attr_config (attr input))) @
     '', attr.config1='' @ number (uint (attr_config1 (attr input))) @
     '', attr.config2='' @ number (uint (attr_config2 (attr input))) @ '', name='' @ sensor_name input @
     '', processors='' @ join '','' (showInts (sensor_processors input)) @ '', scale='' @ numd (scale input) @
     '', unit='' @ unit_name input @ '' ]''"

subsection \<open>The table of cache events is systematic\<close>

definition caches :: "(QString \<times> 64 word) list" where
  "caches = [(''l1d'', 0), (''l1i'', 1), (''ll'', 2), (''dtlb'', 3), (''itlb'', 4), (''bpu'', 5), (''node'', 6)]"

definition operations :: "(QString \<times> 64 word) list" where
  "operations = [(''read'', 0), (''write'', 1), (''prefetch'', 2)]"

definition outcomes :: "(QString \<times> 64 word) list" where
  "outcomes = [(''access'', 0), (''miss'', 1)]"

definition cache_name :: "QString \<Rightarrow> QString \<Rightarrow> QString \<Rightarrow> QString" where
  "cache_name c p r = ''cache/'' @ c @ ''-'' @ p @ ''-'' @ r"

lemma cache_table_product:
  "cache_table = concat (map (\<lambda>(c, i). concat (map (\<lambda>(p, j). map (\<lambda>(r, k). (cache_name c p r, i + 256 * j + 65536 * k))
     outcomes) operations)) caches)"
  by (simp add: cache_table_def cache_event_def caches_def operations_def outcomes_def cache_name_def)

lemma cache_table_distinct: "distinct (map fst cache_table)"
  by code_simp

lemma set_product:
  "(s, v) \<in> set (concat (map (\<lambda>(c, i). concat (map (\<lambda>(p, j). map (\<lambda>(r, k). (f c p r, g i j k)) R) Q)) P)) \<longleftrightarrow>
     (\<exists>(c, i)\<in>set P. \<exists>(p, j)\<in>set Q. \<exists>(r, k)\<in>set R. s = f c p r \<and> v = g i j k)"
  by (simp add: case_prod_unfold image_iff)

text \<open>
  C37. The 42 branches for the cache events are what the scheme of their names says: the name of a cache,
  an operation and an outcome, joined by dashes, stand for the numbers of the three in the first, second
  and third byte of the configuration, and no other name is a cache event.
\<close>

theorem cache_sensors_systematic:
  "cache_config s = Some v \<longleftrightarrow>
     (\<exists>(c, i)\<in>set caches. \<exists>(p, j)\<in>set operations. \<exists>(r, k)\<in>set outcomes.
        s = cache_name c p r \<and> v = i + 256 * j + 65536 * k)"
  unfolding cache_config_def map_of_eq_Some_iff[OF cache_table_distinct]
  by (simp only: cache_table_product set_product)

subsection \<open>Reading a sensor ends, except at the gate\<close>

lemma startsWith_iff: "startsWith s p \<longleftrightarrow> (\<exists>r. s = p @ r)"
  by (auto simp: startsWith_def) (metis append_take_drop_id)

lemma gate_next_gate [simp]: "startsWith (gate_next env input) ''gate/''"
  by (simp add: gate_next_def startsWith_def)

lemma gate_only: "startsWith s ''gate/'' \<Longrightarrow>
    \<not> startsWith s ''/'' \<and> \<not> startsWith s ''hardware/'' \<and> \<not> startsWith s ''cache/''"
  by (auto simp: startsWith_iff)

lemma readSensor_gate: "startsWith input ''gate/'' \<Longrightarrow> readSensor env fuel input = None"
proof (induction fuel arbitrary: input)
  case 0
  then show ?case by simp
next
  case (Suc fuel)
  from Suc.IH[of "gate_next env input"] gate_only[OF Suc.prems] Suc.prems show ?case by (simp add: Let_def)
qed

text \<open>
  C36. Reading a sensor returns (with a sensor or an exception) without any recursion, whatever the
  name, except for the names below \<open>gate/\<close>: there each call makes another one, and none ever returns.
\<close>

theorem readSensor_returns: "readSensor env (Suc fuel) input = None \<longleftrightarrow> startsWith input ''gate/''"
proof
  assume "readSensor env (Suc fuel) input = None"
  then show "startsWith input ''gate/''" by (auto simp: Let_def split: if_splits)
next
  assume "startsWith input ''gate/''"
  then show "readSensor env (Suc fuel) input = None" by (rule readSensor_gate)
qed

subsection \<open>Bit fields\<close>

text \<open>A selector the kernel's format files may describe: within the word, and with a value that fits.\<close>

definition wf_selector :: "QString \<times> 64 word \<times> 64 word \<times> 64 word \<Rightarrow> bool" where
  "wf_selector = (\<lambda>(field, lower, upper, value). field \<in> {''config'', ''config1'', ''config2''} \<and> lower \<le> upper \<and>
     upper < 64 \<and> upper - lower < 63 \<and> unat value < 2 ^ (unat (upper - lower) + 1))"

definition config_field :: "QString \<Rightarrow> perf_event_attr \<Rightarrow> 64 word" where
  "config_field field a = (if field = ''config'' then attr_config a else if field = ''config1'' then attr_config1 a else attr_config2 a)"

definition bit_range :: "QString \<times> 64 word \<times> 64 word \<times> 64 word \<Rightarrow> (QString \<times> nat) set" where
  "bit_range = (\<lambda>(field, lower, upper, value). {(field, n) | n. unat lower \<le> n \<and> n \<le> unat upper})"

lemma unat_push_bit_1: "n < 64 \<Longrightarrow> unat (push_bit n 1 :: 64 word) = 2 ^ n"
proof -
  assume n: "n < 64"
  have "push_bit n 1 = (word_of_nat (2 ^ n) :: 64 word)" by (simp add: push_bit_eq_mult)
  moreover have "(2::nat) ^ n < 2 ^ 64" using n by (intro power_strict_increasing) auto
  then have "unat (word_of_nat (2 ^ n) :: 64 word) = 2 ^ n" by (simp only: unsigned_of_nat) (simp add: take_bit_nat_eq_self n)
  ultimately show ?thesis by simp
qed

lemma bit_below: "unat (v :: 64 word) < 2 ^ k \<Longrightarrow> bit v m \<Longrightarrow> m < k"
proof -
  assume v: "unat v < 2 ^ k" and b: "bit v m"
  have "bit (unat v) m" using b by (simp add: bit_unsigned_iff possible_bit_def)
  then have "bit (take_bit k (unat v)) m" using v by (simp add: take_bit_nat_eq_self)
  then show "m < k" by (simp add: bit_take_bit_iff)
qed

lemma apply_selector_bits:
  assumes "wf_selector (field, lower, upper, value)"
  shows "\<exists>a'. apply_selector (field, lower, upper, value) a = Ok a' \<and>
    (\<forall>f\<in>{''config'', ''config1'', ''config2''}. config_field f a' =
       (if f = field then config_field f a OR push_bit (unat lower) value else config_field f a))"
proof -
  have u: "unat (upper - lower) < 63" using assms by (simp add: wf_selector_def word_less_nat_alt)
  then have b: "unat (upper - lower + 1) = unat (upper - lower) + 1" by (simp add: unat_word_ariths)
  have "unat (push_bit (unat (upper - lower) + 1) 1 :: 64 word) = 2 ^ (unat (upper - lower) + 1)"
    using u by (intro unat_push_bit_1) simp
  then have v: "\<not> value \<ge> push_bit (unat (upper - lower) + 1) 1"
    using assms by (simp add: wf_selector_def word_le_nat_alt)
  have "unat lower < 64" using assms by (auto simp: wf_selector_def word_less_nat_alt word_le_nat_alt)
  with b u v assms show ?thesis
    by (auto simp: apply_selector_def wf_selector_def shift_in_def config_field_def Let_def)
qed

lemma file_selectors_bits:
  assumes "map (read_selector env input) ss = map Some sels" and "\<forall>sel\<in>set sels. wf_selector sel"
  shows "\<exists>a'. file_selectors env input ss a = Ok a' \<and> (\<forall>f\<in>{''config'', ''config1'', ''config2''}. \<forall>n<64.
    bit (config_field f a') n \<longleftrightarrow> bit (config_field f a) n \<or>
      (\<exists>(f', lower, upper, value)\<in>set sels. f' = f \<and> unat lower \<le> n \<and> bit value (n - unat lower)))"
  using assms
proof (induction ss arbitrary: sels a)
  case Nil
  then show ?case by auto
next
  case (Cons sel ss)
  then obtain field lower upper v sels' where sels: "sels = (field, lower, upper, v) # sels'"
    and sel: "read_selector env input sel = Some (field, lower, upper, v)"
    by (cases sels) auto
  with Cons.prems have "wf_selector (field, lower, upper, v)" by simp
  from apply_selector_bits[OF this] obtain a1 where a1: "apply_selector (field, lower, upper, v) a = Ok a1"
    "\<forall>f\<in>{''config'', ''config1'', ''config2''}. config_field f a1 =
       (if f = field then config_field f a OR push_bit (unat lower) v else config_field f a)" by blast
  have "map (read_selector env input) ss = map Some sels'" "\<forall>sel\<in>set sels'. wf_selector sel"
    using Cons.prems sels by auto
  from Cons.IH[OF this, of a1] obtain a' where a': "file_selectors env input ss a1 = Ok a'"
    "\<forall>f\<in>{''config'', ''config1'', ''config2''}. \<forall>n<64. bit (config_field f a') n \<longleftrightarrow> bit (config_field f a1) n \<or>
      (\<exists>(f', lower, upper, value)\<in>set sels'. f' = f \<and> unat lower \<le> n \<and> bit value (n - unat lower))"
    by blast
  have "bit (config_field f a1) n \<longleftrightarrow> bit (config_field f a) n \<or> field = f \<and> unat lower \<le> n \<and> bit v (n - unat lower)"
    if "f \<in> {''config'', ''config1'', ''config2''}" "n < 64" for f n
    using bspec[OF a1(2) that(1)] that(2) by (auto simp: bit_or_iff bit_push_bit_iff split: if_splits)
  with a' have "\<forall>f\<in>{''config'', ''config1'', ''config2''}. \<forall>n<64. bit (config_field f a') n \<longleftrightarrow> bit (config_field f a) n \<or>
      (\<exists>(f', lower, upper, value)\<in>set sels. f' = f \<and> unat lower \<le> n \<and> bit value (n - unat lower))"
    unfolding sels by simp
  with a'(1) a1(1) sel show ?case by (simp add: lift_exn_def)
qed

lemma selector_range:
  assumes "wf_selector (f, l, u, v)" and "unat l \<le> n" and "bit v (n - unat l)"
  shows "n \<le> unat u"
proof -
  have "l \<le> u" "unat v < 2 ^ (unat (u - l) + 1)" using assms(1) by (auto simp: wf_selector_def)
  with bit_below[of v "unat (u - l) + 1" "n - unat l"] assms(2,3) show ?thesis
    by (simp add: unat_sub word_le_nat_alt)
qed

text \<open>In a word that has the bits of the selectors of its field, a selector finds its own ones.\<close>

lemma selector_own_bits:
  assumes wf: "\<forall>sel\<in>set sels. wf_selector sel"
    and disjoint: "\<forall>s\<in>set sels. \<forall>t\<in>set sels. s \<noteq> t \<longrightarrow> bit_range s \<inter> bit_range t = {}"
    and sel: "(f, l, u, v) \<in> set sels" and n: "n \<le> unat (u - l)"
    and x: "bit x (unat l + n) \<longleftrightarrow>
      (\<exists>(f', lower, upper, value)\<in>set sels. f' = f \<and> unat lower \<le> unat l + n \<and> bit value (unat l + n - unat lower))"
  shows "bit x (unat l + n) \<longleftrightarrow> bit v n"
proof
  have ul: "unat (u - l) = unat u - unat l" "unat l \<le> unat u"
    using wf sel by (auto simp: wf_selector_def unat_sub word_le_nat_alt)
  assume "bit x (unat l + n)"
  with x obtain l' u' v' where s': "(f, l', u', v') \<in> set sels" "unat l' \<le> unat l + n" "bit v' (unat l + n - unat l')" by auto
  then have "(f, unat l + n) \<in> bit_range (f, l', u', v') \<inter> bit_range (f, l, u, v)"
    using selector_range[OF bspec[OF wf s'(1)] s'(2,3)] n ul by (auto simp: bit_range_def)
  then have "bit_range (f, l', u', v') \<inter> bit_range (f, l, u, v) \<noteq> {}" by blast
  with disjoint[rule_format, OF s'(1) sel] have "(f, l', u', v') = (f, l, u, v)" by argo
  with s' show "bit v n" by simp
next
  assume "bit v n"
  with x sel show "bit x (unat l + n)" by force
qed

text \<open>
  C26. The selectors of a sensor file end up in the configuration words as the format files say: if each
  lies within a word (but does not fill it), its value fits, and different selectors use different
  bits, then all are accepted, and each value can be read back from its bits of its word.
\<close>

theorem selectors_roundtrip:
  assumes "map (read_selector env input) ss = map Some sels" and "\<forall>sel\<in>set sels. wf_selector sel"
    and "\<forall>s\<in>set sels. \<forall>t\<in>set sels. s \<noteq> t \<longrightarrow> bit_range s \<inter> bit_range t = {}"
  shows "\<exists>a. file_selectors env input ss (attr_zero env) = Ok a \<and>
    (\<forall>(field, lower, upper, value)\<in>set sels.
       take_bit (unat (upper - lower) + 1) (drop_bit (unat lower) (config_field field a)) = value)"
proof -
  have zero: "config_field f (attr_zero env) = 0" for f by (simp add: config_field_def attr_zero_def)
  obtain a where ok: "file_selectors env input ss (attr_zero env) = Ok a"
    and bits: "\<forall>f\<in>{''config'', ''config1'', ''config2''}. \<forall>n<64. bit (config_field f a) n \<longleftrightarrow> bit (0 :: 64 word) n \<or>
      (\<exists>(f', lower, upper, value)\<in>set sels. f' = f \<and> unat lower \<le> n \<and> bit value (n - unat lower))"
    using file_selectors_bits[OF assms(1,2), of "attr_zero env"] unfolding zero by blast
  have a: "bit (config_field f a) n \<longleftrightarrow> (\<exists>(f', lower, upper, value)\<in>set sels. f' = f \<and> unat lower \<le> n \<and> bit value (n - unat lower))"
    if "f \<in> {''config'', ''config1'', ''config2''}" "n < 64" for f n
    using bspec[OF bits that(1)] that(2) by simp
  have "take_bit (unat (u - l) + 1) (drop_bit (unat l) (config_field f a)) = v" if sel: "(f, l, u, v) \<in> set sels" for f l u v
  proof (rule bit_word_eqI)
    fix n :: nat assume "n < LENGTH(64)"
    have wf: "f \<in> {''config'', ''config1'', ''config2''}" "l \<le> u" "unat u < 64" "unat v < 2 ^ (unat (u - l) + 1)"
      using assms(2) sel by (auto simp: wf_selector_def word_less_nat_alt)
    have "bit (config_field f a) (unat l + n) \<longleftrightarrow> bit v n" if n: "n \<le> unat (u - l)"
    proof (rule selector_own_bits[OF assms(2,3) sel n])
      have "unat l + n < 64" using wf(2,3) n by (simp add: unat_sub word_le_nat_alt)
      then show "bit (config_field f a) (unat l + n) \<longleftrightarrow> (\<exists>(f', lower, upper, value)\<in>set sels. f' = f \<and>
          unat lower \<le> unat l + n \<and> bit value (unat l + n - unat lower))" by (rule a[OF wf(1)])
    qed
    moreover have "bit v n \<Longrightarrow> n \<le> unat (u - l)" using bit_below[OF wf(4)] by fastforce
    ultimately show "bit (take_bit (unat (u - l) + 1) (drop_bit (unat l) (config_field f a))) n = bit v n"
      by (auto simp: bit_take_bit_iff bit_drop_bit_eq)
  qed
  with ok show ?thesis by blast
qed

text \<open>A processor whose format files have an event number of eight bits, a unit mask and a flag.\<close>

definition demo_sensor_env :: sensor_env where
  "demo_sensor_env = \<lparr>sn_conv = dec_conv,
     sn_files = map_of [(''d/../format/event'', ''config:0-7''), (''d/../format/umask'', ''config:8-15''), (''d/../format/any'', ''config1:21'')],
     absolutePath = (\<lambda>_. ''d''), sizeof_attr = 96, reserved_1_width = 40, toULong36 = (\<lambda>_. 0), number36 = (\<lambda>_. [])\<rparr>"

lemma demo_selectors:
  "map (read_selector demo_sensor_env ''/e'') [''event=60'', ''umask=2'', ''any''] =
     map Some [(''config'', 0, 7, 60), (''config'', 8, 15, 2), (''config1'', 21, 21, 1)]"
  by code_simp

lemma demo_bit_ranges:
  "\<forall>s\<in>set [(''config'', 0, 7, 60), (''config'', 8, 15, 2), (''config1'', 21, 21, 1)].
   \<forall>t\<in>set [(''config'', 0, 7, 60), (''config'', 8, 15, 2), (''config1'', 21, 21, 1)].
     s \<noteq> t \<longrightarrow> bit_range s \<inter> bit_range t = {}"
  by (auto simp: bit_range_def)

theorem selectors_roundtrip_witness:
  "\<exists>a. file_selectors demo_sensor_env ''/e'' [''event=60'', ''umask=2'', ''any''] (attr_zero demo_sensor_env) = Ok a \<and>
     take_bit 8 (attr_config a) = 60 \<and> take_bit 8 (drop_bit 8 (attr_config a)) = 2"
  using selectors_roundtrip[OF demo_selectors _ demo_bit_ranges]
  by (auto simp: wf_selector_def config_field_def)

end
