(* ===== verification/GPerf.thy ===== *)
theory GPerf
  imports GPerf_Sensor Performance_Monitor
begin

text \<open>
  \<open>src/AutopinPlus/Monitor/GPerf/Main.cpp\<close> without \<open>readSensor\<close>: the monitor that counts events of the Linux perf
  subsystem. For each thread it keeps the descriptors of its counters. The system calls are logged
  with their results; what the kernel answers is the record \<open>perf_kernel\<close>, a function of the log.
\<close>

datatype ioctl_request = PERF_EVENT_IOC_DISABLE | PERF_EVENT_IOC_RESET | PERF_EVENT_IOC_ENABLE

datatype perf_call =
    Perf_open perf_event_attr int int int \<comment> \<open>attributes, thread, processor, result\<close>
  | Perf_ioctl int ioctl_request int
  | Perf_read int "64 word option"
  | Perf_close int int

record perf_kernel =
  k_open :: "perf_call list \<Rightarrow> perf_event_attr \<Rightarrow> int \<Rightarrow> int \<Rightarrow> int"
  k_ioctl :: "perf_call list \<Rightarrow> int \<Rightarrow> ioctl_request \<Rightarrow> int"
  k_read :: "perf_call list \<Rightarrow> int \<Rightarrow> 64 word option" \<comment> \<open>\<open>None\<close> for -1\<close>
  k_close :: "perf_call list \<Rightarrow> int \<Rightarrow> int"

record gperf =
  gp_name :: QString
  gp_valtype :: montype
  gp_processors :: "int list"
  gp_sensor :: Sensor
  gp_threads :: "int \<rightharpoonup> int list"
  gp_calls :: "perf_call list"

text \<open>The sensor is not initialised by the constructor (\<open>junk\<close>).\<close>

definition gperf_new :: "Sensor \<Rightarrow> QString \<Rightarrow> gperf" where
  "gperf_new junk name = \<lparr>gp_name = name, gp_valtype = MIN_type, gp_processors = [], gp_sensor = junk,
     gp_threads = Map.empty, gp_calls = []\<rparr>"

text \<open>\<open>None\<close>: \<open>readSensor\<close> does not return or is undefined.\<close>

definition init_valtype :: "string_map \<Rightarrow> gperf \<times> apcontext \<Rightarrow> gperf \<times> apcontext" where
  "init_valtype config = (\<lambda>(m, c).
     (if configOptionExists config (gp_name m @ ''.valtype'') > 0
      then case readMontype (getConfigOption config (gp_name m @ ''.valtype'') 0) of
             Some t \<Rightarrow> (m\<lparr>gp_valtype := t\<rparr>, c)
           | None \<Rightarrow> (m, report BAD_CONFIG ''option_format'' c)
      else (m, c)))"

definition init_sensor :: "sensor_env \<Rightarrow> nat \<Rightarrow> string_map \<Rightarrow> gperf \<times> apcontext \<Rightarrow> (gperf \<times> apcontext) option" where
  "init_sensor env fuel config = (\<lambda>(m, c).
     (if configOptionExists config (gp_name m @ ''.sensor'') > 0
      then case readSensor env fuel (getConfigOption config (gp_name m @ ''.sensor'') 0) of
             None \<Rightarrow> None
           | Some Undef \<Rightarrow> None
           | Some Throw \<Rightarrow> Some (m, report BAD_CONFIG ''option_format'' c)
           | Some (Ok s) \<Rightarrow> Some (init_valtype config (m\<lparr>gp_sensor := s\<rparr>, c))
      else Some (m, report BAD_CONFIG ''option_missing'' c)))"

definition gperf_init :: "sensor_env \<Rightarrow> nat \<Rightarrow> string_map \<Rightarrow> gperf \<times> apcontext \<Rightarrow> (gperf \<times> apcontext) option" where
  "gperf_init env fuel config = (\<lambda>(m, c).
     (if configOptionExists config (gp_name m @ ''.processors'') > 0
      then case readInts (sn_conv env) (getConfigOptionList config (gp_name m @ ''.processors'')) of
             Some ps \<Rightarrow> init_sensor env fuel config (m\<lparr>gp_processors := ps\<rparr>, c)
           | None \<Rightarrow> Some (m, report BAD_CONFIG ''option_format'' c)
      else init_sensor env fuel config (m, c)))"

definition gperf_getConfigOpts :: "gperf \<Rightarrow> configopts" where
  "gperf_getConfigOpts m =
     [(''sensor'', [sensor_name (gp_sensor m)])] @
     (if gp_processors m \<noteq> [] then [(''processors'', showInts (gp_processors m))] else []) @
     (if gp_valtype m \<noteq> UNKNOWN_type then [(''valtype'', [showMontype (gp_valtype m)])] else [])"

definition gperf_getUnit :: "gperf \<Rightarrow> QString" where
  "gperf_getUnit m = unit_name (gp_sensor m)"

subsection \<open>Counting\<close>

definition perf_event_open :: "perf_kernel \<Rightarrow> int \<Rightarrow> int \<Rightarrow> gperf \<Rightarrow> int \<times> gperf" where
  "perf_event_open kern p cpu m =
     (let fd = k_open kern (gp_calls m) (attr (gp_sensor m)) p cpu
      in (fd, m\<lparr>gp_calls := gp_calls m @ [Perf_open (attr (gp_sensor m)) p cpu fd]\<rparr>))"

text \<open>A loop over descriptors that is left at the first failure; the flag says whether there was none.\<close>

fun ioctl_all :: "perf_kernel \<Rightarrow> ioctl_request \<Rightarrow> int list \<Rightarrow> gperf \<Rightarrow> bool \<times> gperf" where
  "ioctl_all kern req [] m = (True, m)"
| "ioctl_all kern req (fd # fds) m =
     (let ret = k_ioctl kern (gp_calls m) fd req;
          m = m\<lparr>gp_calls := gp_calls m @ [Perf_ioctl fd req ret]\<rparr>
      in if ret = -1 then (False, m) else ioctl_all kern req fds m)"

definition append_fd :: "int \<Rightarrow> int \<Rightarrow> gperf \<Rightarrow> gperf" where \<comment> \<open>\<open>threads[thread].append(fd)\<close>\<close>
  "append_fd thread fd m = m\<lparr>gp_threads := (gp_threads m)(thread \<mapsto>
     (case gp_threads m thread of None \<Rightarrow> [] | Some fds \<Rightarrow> fds) @ [fd])\<rparr>"

fun open_all :: "perf_kernel \<Rightarrow> int \<Rightarrow> int list \<Rightarrow> gperf \<Rightarrow> bool \<times> gperf" where
  "open_all kern thread [] m = (True, m)"
| "open_all kern thread (processor # ps) m =
     (let (fd, m) = perf_event_open kern thread processor m in
      if fd \<ge> 0 then open_all kern thread ps (append_fd thread fd m)
      else
        let (fd, m) = perf_event_open kern (-1) processor m in
        if fd \<ge> 0 then open_all kern thread ps (append_fd thread fd m) else (False, m))"

definition monitored_processors :: "gperf \<Rightarrow> int list" where
  "monitored_processors m =
     (if gp_processors m \<noteq> [] then gp_processors m
      else if sensor_processors (gp_sensor m) \<noteq> [] then sensor_processors (gp_sensor m) else [-1])"

definition gperf_start :: "perf_kernel \<Rightarrow> int \<Rightarrow> gperf \<times> apcontext \<Rightarrow> gperf \<times> apcontext" where
  "gperf_start kern thread = (\<lambda>(m, c).
     (case gp_threads m thread of
        Some fds \<Rightarrow>
          let (ok, m) = ioctl_all kern PERF_EVENT_IOC_DISABLE fds m in
          if \<not> ok then (m, report MONITOR ''reset'' c)
          else let (ok, m) = ioctl_all kern PERF_EVENT_IOC_RESET fds m in
          if \<not> ok then (m, report MONITOR ''reset'' c)
          else let (ok, m) = ioctl_all kern PERF_EVENT_IOC_ENABLE fds m in
          if \<not> ok then (m, report MONITOR ''reset'' c) else (m, c)
      | None \<Rightarrow>
          let (ok, m) = open_all kern thread (monitored_processors m) m in
          if \<not> ok then (m, report MONITOR ''create'' c)
          else let (ok, m) = ioctl_all kern PERF_EVENT_IOC_ENABLE (the (gp_threads m thread)) m in
          if \<not> ok then (m, report MONITOR ''start'' c) else (m, c)))"

fun read_all :: "rounding \<Rightarrow> perf_kernel \<Rightarrow> int list \<Rightarrow> double \<Rightarrow> gperf \<Rightarrow> double option \<times> gperf" where
  "read_all rnd kern [] result m = (Some result, m)"
| "read_all rnd kern (fd # fds) result m =
     (let raw = k_read kern (gp_calls m) fd;
          m = m\<lparr>gp_calls := gp_calls m @ [Perf_read fd raw]\<rparr>
      in case raw of None \<Rightarrow> (None, m)
         | Some v \<Rightarrow> read_all rnd kern fds
             (dadd rnd result (dmul rnd (rnd (real (unat v))) (scale (gp_sensor m)))) m)"

definition gperf_value :: "rounding \<Rightarrow> perf_kernel \<Rightarrow> int \<Rightarrow> gperf \<times> apcontext \<Rightarrow> double \<times> gperf \<times> apcontext" where
  "gperf_value rnd kern thread = (\<lambda>(m, c).
     (case gp_threads m thread of
        None \<Rightarrow> (Fin 0, m, report MONITOR ''value'' c)
      | Some fds \<Rightarrow>
          (case read_all rnd kern fds (Fin 0) m of
             (None, m) \<Rightarrow> (Fin 0, m, report MONITOR ''value'' c)
           | (Some result, m) \<Rightarrow> (result, m, c))))"

fun close_all :: "perf_kernel \<Rightarrow> int list \<Rightarrow> gperf \<Rightarrow> bool \<times> gperf" where
  "close_all kern [] m = (True, m)"
| "close_all kern (fd # fds) m =
     (let ret = k_close kern (gp_calls m) fd;
          m = m\<lparr>gp_calls := gp_calls m @ [Perf_close fd ret]\<rparr>
      in if ret = -1 then (False, m) else close_all kern fds m)"

definition gperf_clear :: "perf_kernel \<Rightarrow> int \<Rightarrow> gperf \<times> apcontext \<Rightarrow> gperf \<times> apcontext" where
  "gperf_clear kern thread = (\<lambda>(m, c).
     (case gp_threads m thread of
        None \<Rightarrow> (m, c)
      | Some fds \<Rightarrow>
          let (ok, m) = close_all kern fds m
          in if \<not> ok then (m, report MONITOR ''stop'' c) else (m\<lparr>gp_threads := (gp_threads m)(thread := None)\<rparr>, c)))"

definition gperf_stop :: "rounding \<Rightarrow> perf_kernel \<Rightarrow> int \<Rightarrow> gperf \<times> apcontext \<Rightarrow> double \<times> gperf \<times> apcontext" where
  "gperf_stop rnd kern thread mc =
     (let (result, m, c) = gperf_value rnd kern thread mc in
      if isError c then (Fin 0, m, report MONITOR ''stop'' c)
      else let (m, c) = gperf_clear kern thread (m, c) in
      if isError c then (Fin 0, m, report MONITOR ''stop'' c) else (result, m, c))"

definition gperf_getMonitoredTasks :: "gperf \<Rightarrow> autopin_tid_list" where
  "gperf_getMonitoredTasks m = dom (gp_threads m)"

definition gperf_ops :: "rounding \<Rightarrow> perf_kernel \<Rightarrow> gperf monitor_ops" where
  "gperf_ops rnd kern = \<lparr>op_start = gperf_start kern, op_value = gperf_value rnd kern, op_stop = gperf_stop rnd kern,
     op_clear = gperf_clear kern, op_getMonitoredTasks = gperf_getMonitoredTasks\<rparr>"

subsection \<open>What the loops change\<close>

lemma ioctl_all_frame:
  "ioctl_all kern req fds m = (ok, m') \<Longrightarrow> gp_threads m' = gp_threads m \<and>
     (\<exists>cs. gp_calls m' = gp_calls m @ cs \<and> (\<forall>c\<in>set cs. \<exists>fd\<in>set fds. \<exists>r. c = Perf_ioctl fd req r))"
proof (induction kern req fds m rule: ioctl_all.induct)
  case (1 kern req m)
  then show ?case by auto
next
  case (2 kern req fd fds m)
  then show ?case by (fastforce simp: Let_def split: if_splits)
qed

lemma read_all_frame:
  "read_all rnd kern fds result m = (r, m') \<Longrightarrow> gp_threads m' = gp_threads m \<and>
     (\<exists>cs. gp_calls m' = gp_calls m @ cs \<and> (\<forall>c\<in>set cs. \<exists>fd\<in>set fds. \<exists>v. c = Perf_read fd v))"
proof (induction rnd kern fds result m rule: read_all.induct)
  case (1 rnd kern result m)
  then show ?case by auto
next
  case (2 rnd kern fd fds result m)
  then show ?case by (fastforce simp: Let_def split: option.splits)
qed

lemma close_all_threads: "close_all kern fds m = (ok, m') \<Longrightarrow> gp_threads m' = gp_threads m"
  by (induction kern fds m rule: close_all.induct) (auto simp: Let_def split: if_splits)

lemma perf_event_open_threads [simp]:
  "perf_event_open kern p cpu m = (fd, m') \<Longrightarrow> gp_threads m' = gp_threads m"
  by (auto simp: perf_event_open_def Let_def)

lemma append_fd_dom [simp]: "dom (gp_threads (append_fd thread fd m)) = insert thread (dom (gp_threads m))"
  by (simp add: append_fd_def)

text \<open>The loop goes on with one more descriptor for the thread, or stops.\<close>

lemma open_all_cases:
  assumes "open_all kern thread (processor # ps) m = (ok, m')"
  obtains (opened) p m1 fd m2 where "m1 = m \<or> (\<exists>e. e < 0 \<and> perf_event_open kern thread processor m = (e, m1))"
      "perf_event_open kern p processor m1 = (fd, m2)" "fd \<ge> 0"
      "open_all kern thread ps (append_fd thread fd m2) = (ok, m')"
  | (failed) e m1 e2 where "e < 0" "perf_event_open kern thread processor m = (e, m1)" "e2 < 0"
      "perf_event_open kern (-1) processor m1 = (e2, m')" "\<not> ok"
proof -
  obtain e m1 where m1: "perf_event_open kern thread processor m = (e, m1)" by fastforce
  obtain e2 m2 where m2: "perf_event_open kern (-1) processor m1 = (e2, m2)" by fastforce
  show thesis
  proof (cases "e \<ge> 0")
    case True
    with assms m1 show thesis by (intro opened[of m thread e m1]) auto
  next
    case False
    with assms m1 m2 show thesis
      by (cases "e2 \<ge> 0") (auto intro: opened[of m1 "-1" e2 m2] failed[of e m1 e2])
  qed
qed

lemma open_all_threads:
  "open_all kern thread ps m = (ok, m') \<Longrightarrow> dom (gp_threads m) \<subseteq> dom (gp_threads m') \<and>
     dom (gp_threads m') \<subseteq> insert thread (dom (gp_threads m)) \<and> (ok \<and> ps \<noteq> [] \<longrightarrow> thread \<in> dom (gp_threads m'))"
proof (induction ps arbitrary: m)
  case Nil
  then show ?case by auto
next
  case (Cons processor ps)
  from Cons.prems show ?case
  proof (cases rule: open_all_cases)
    case (opened p m1 fd m2)
    then have "gp_threads m2 = gp_threads m" by auto
    with Cons.IH[OF opened(4)] show ?thesis by auto
  next
    case (failed e m1 e2)
    then show ?thesis by auto
  qed
qed

lemma fatal_MONITOR: "fatal MONITOR opt \<longleftrightarrow> opt \<in> {''init'', ''start'', ''value'', ''stop'', ''create'', ''destroy''}"
  by (simp add: fatal_def fatal_reports_def)

lemma monitored_processors_not_Nil [simp]: "monitored_processors m \<noteq> []"
  by (simp add: monitored_processors_def)

lemma gperf_start_tasks:
  assumes "gperf_start kern t (m, c) = (m', c')"
  shows "dom (gp_threads m') \<subseteq> insert t (dom (gp_threads m)) \<and>
    (\<not> isError c' \<longrightarrow> \<not> isError c \<and> dom (gp_threads m') = insert t (dom (gp_threads m)))"
proof (cases "gp_threads m t")
  case (Some fds)
  then have "t \<in> dom (gp_threads m)" by blast
  moreover have "gp_threads m' = gp_threads m" and "\<not> isError c' \<longrightarrow> \<not> isError c"
    using assms Some by (auto simp: gperf_start_def dest!: ioctl_all_frame split: prod.splits if_splits)
  ultimately show ?thesis by auto
next
  case None
  obtain ok m1 where m1: "open_all kern t (monitored_processors m) m = (ok, m1)" by fastforce
  obtain ok2 m2 where m2: "ioctl_all kern PERF_EVENT_IOC_ENABLE (the (gp_threads m1 t)) m1 = (ok2, m2)" by fastforce
  from open_all_threads[OF m1] ioctl_all_frame[OF m2] assms None m1 m2 show ?thesis
    by (auto simp: gperf_start_def fatal_MONITOR split: if_splits)
qed

lemma gperf_value_tasks:
  assumes "gperf_value rnd kern t (m, c) = (v, m', c')"
  shows "gp_threads m' = gp_threads m \<and> (\<not> isError c' \<longrightarrow> \<not> isError c \<and> c' = c \<and> t \<in> dom (gp_threads m))"
  using assms read_all_frame[of rnd kern _ "Fin 0" m]
  by (fastforce simp: gperf_value_def fatal_MONITOR split: option.splits prod.splits)

lemma gperf_clear_tasks:
  assumes "gperf_clear kern t (m, c) = (m', c')"
  shows "dom (gp_threads m') \<subseteq> dom (gp_threads m) \<and>
    (\<not> isError c' \<longrightarrow> \<not> isError c \<and> dom (gp_threads m') = dom (gp_threads m) - {t})"
  using assms close_all_threads[of kern _ m]
  by (auto simp: gperf_clear_def fatal_MONITOR split: option.splits prod.splits if_splits)

lemma gperf_stop_tasks:
  assumes "gperf_stop rnd kern t (m, c) = (v, m', c')"
  shows "dom (gp_threads m') \<subseteq> dom (gp_threads m) \<and>
    (\<not> isError c' \<longrightarrow> \<not> isError c \<and> dom (gp_threads m') = dom (gp_threads m) - {t})"
proof -
  obtain r m1 c1 where v: "gperf_value rnd kern t (m, c) = (r, m1, c1)" by (metis prod_cases3)
  obtain m2 c2 where cl: "gperf_clear kern t (m1, c1) = (m2, c2)" by fastforce
  from gperf_value_tasks[OF v] gperf_clear_tasks[OF cl] assms v cl show ?thesis
    by (auto simp: gperf_stop_def fatal_MONITOR split: if_splits)
qed

interpretation gperf: task_set_monitor "gperf_ops rnd kern" "\<lambda>m. finite (dom (gp_threads m))" for rnd kern
proof (unfold_locales, goal_cases)
  case (1 m t c m' c')
  then have "gperf_start kern t (m, c) = (m', c')" by (simp add: gperf_ops_def)
  from gperf_start_tasks[OF this] 1(1) show ?case
    by (auto simp: gperf_ops_def gperf_getMonitoredTasks_def intro: finite_subset)
next
  case (2 m t c v m' c')
  then have "gperf_value rnd kern t (m, c) = (v, m', c')" by (simp add: gperf_ops_def)
  from gperf_value_tasks[OF this] 2(1) show ?case by (auto simp: gperf_ops_def gperf_getMonitoredTasks_def)
next
  case (3 m t c v m' c')
  then have "gperf_stop rnd kern t (m, c) = (v, m', c')" by (simp add: gperf_ops_def)
  from gperf_stop_tasks[OF this] 3(1) show ?case
    by (auto simp: gperf_ops_def gperf_getMonitoredTasks_def intro: finite_subset)
next
  case (4 m t c m' c')
  then have "gperf_clear kern t (m, c) = (m', c')" by (simp add: gperf_ops_def)
  from gperf_clear_tasks[OF this] 4(1) show ?case
    by (auto simp: gperf_ops_def gperf_getMonitoredTasks_def intro: finite_subset)
next
  case (5 m)
  then show ?case by (simp add: gperf_ops_def gperf_getMonitoredTasks_def)
qed

subsection \<open>Descriptors\<close>

text \<open>
  The descriptors that are open after a log of system calls, from those that are open before it;
  \<open>None\<close> when a call is made on a descriptor that is not open.
\<close>

fun use_fds :: "perf_call list \<Rightarrow> int set \<Rightarrow> int set option" where
  "use_fds [] S = Some S"
| "use_fds (Perf_open a p cpu fd # cs) S = use_fds cs (if fd \<ge> 0 then insert fd S else S)"
| "use_fds (Perf_ioctl fd req r # cs) S = (if fd \<in> S then use_fds cs S else None)"
| "use_fds (Perf_read fd v # cs) S = (if fd \<in> S then use_fds cs S else None)"
| "use_fds (Perf_close fd r # cs) S = (if fd \<in> S then use_fds cs (if r = -1 then S else S - {fd}) else None)"

lemma use_fds_append: "use_fds (a @ b) S = Option.bind (use_fds a S) (use_fds b)"
  by (induction a S rule: use_fds.induct) auto

text \<open>A kernel that returns a descriptor that is not open yet, and closes one that is.\<close>

definition honest :: "perf_kernel \<Rightarrow> bool" where
  "honest kern \<longleftrightarrow> (\<forall>h S. use_fds h {} = Some S \<longrightarrow>
     (\<forall>a p cpu. k_open kern h a p cpu \<notin> S) \<and> (\<forall>fd\<in>S. k_close kern h fd \<noteq> -1))"

definition fds_of :: "gperf \<Rightarrow> int \<Rightarrow> int list" where
  "fds_of m t = (case gp_threads m t of None \<Rightarrow> [] | Some fds \<Rightarrow> fds)"

definition fds_inv :: "gperf \<Rightarrow> bool" where
  "fds_inv m \<longleftrightarrow> use_fds (gp_calls m) {} = Some (\<Union>t. set (fds_of m t)) \<and> (\<forall>t. distinct (fds_of m t)) \<and>
     (\<forall>t u. t \<noteq> u \<longrightarrow> set (fds_of m t) \<inter> set (fds_of m u) = {})"

lemma fds_inv_touch:
  assumes "fds_inv m" and "gp_threads m' = gp_threads m" and "gp_calls m' = gp_calls m @ cs"
    and "\<And>S. set (fds_of m t) \<subseteq> S \<Longrightarrow> use_fds cs S = Some S"
  shows "fds_inv m'"
proof -
  have "fds_of m' = fds_of m" using assms(2) by (simp add: fds_of_def fun_eq_iff)
  moreover have "use_fds cs (\<Union>t. set (fds_of m t)) = Some (\<Union>t. set (fds_of m t))" by (rule assms(4)) blast
  ultimately show ?thesis using assms(1,3) by (simp add: fds_inv_def use_fds_append)
qed

lemma use_fds_same:
  assumes "\<forall>c\<in>set cs. \<exists>fd\<in>F. (\<exists>r. c = Perf_ioctl fd req r) \<or> (\<exists>v. c = Perf_read fd v)" and "F \<subseteq> S"
  shows "use_fds cs S = Some S"
  using assms(1)
proof (induction cs)
  case Nil
  then show ?case by simp
next
  case (Cons c cs)
  then obtain fd where "fd \<in> S" "(\<exists>r. c = Perf_ioctl fd req r) \<or> (\<exists>v. c = Perf_read fd v)" using assms(2) by auto
  with Cons show ?case by auto
qed

lemma fds_inv_ioctl:
  assumes "fds_inv m" and "gp_threads m t = Some fds" and "ioctl_all kern req fds m = (ok, m')"
  shows "fds_inv m' \<and> gp_threads m' = gp_threads m"
proof -
  from ioctl_all_frame[OF assms(3)] obtain cs where cs: "gp_threads m' = gp_threads m" "gp_calls m' = gp_calls m @ cs"
    "\<forall>c\<in>set cs. \<exists>fd\<in>set fds. \<exists>r. c = Perf_ioctl fd req r" by blast
  then have "use_fds cs S = Some S" if "set (fds_of m t) \<subseteq> S" for S
    using that assms(2) by (intro use_fds_same[where F = "set fds" and req = req]) (auto simp: fds_of_def)
  from fds_inv_touch[OF assms(1) cs(1,2) this] cs(1) show ?thesis by simp
qed

lemma fds_inv_read:
  assumes "fds_inv m" and "gp_threads m t = Some fds" and "read_all rnd kern fds v m = (r, m')"
  shows "fds_inv m'"
proof -
  from read_all_frame[OF assms(3)] obtain cs where cs: "gp_threads m' = gp_threads m" "gp_calls m' = gp_calls m @ cs"
    "\<forall>c\<in>set cs. \<exists>fd\<in>set fds. \<exists>v. c = Perf_read fd v" by blast
  then have "use_fds cs S = Some S" if "set (fds_of m t) \<subseteq> S" for S
    using that assms(2) by (intro use_fds_same[where F = "set fds"]) (auto simp: fds_of_def)
  from fds_inv_touch[OF assms(1) cs(1,2) this] show ?thesis .
qed

lemma fds_inv_opened:
  assumes "honest kern" and "fds_inv m" and "perf_event_open kern p cpu m = (fd, m')"
  shows "if fd \<ge> 0 then fds_inv (append_fd t fd m') else fds_inv m'"
proof -
  let ?fd = "k_open kern (gp_calls m) (attr (gp_sensor m)) p cpu"
  have fd: "fd = ?fd" and "m' = m\<lparr>gp_calls := gp_calls m @ [Perf_open (attr (gp_sensor m)) p cpu ?fd]\<rparr>"
    using assms(3) unfolding perf_event_open_def Let_def prod.inject by blast+
  then have m': "gp_calls m' = gp_calls m @ [Perf_open (attr (gp_sensor m)) p cpu fd]" "gp_threads m' = gp_threads m"
    by simp_all
  have inv: "use_fds (gp_calls m) {} = Some (\<Union>t. set (fds_of m t))" "\<forall>t. distinct (fds_of m t)"
    "\<forall>t u. t \<noteq> u \<longrightarrow> set (fds_of m t) \<inter> set (fds_of m u) = {}"
    using assms(2) by (simp_all add: fds_inv_def)
  have "?fd \<notin> (\<Union>t. set (fds_of m t))" using assms(1) inv(1) unfolding honest_def by blast
  then have fresh: "fd \<notin> set (fds_of m u)" for u using fd by blast
  have same: "fds_of m' = fds_of m" using m'(2) by (simp add: fds_of_def fun_eq_iff)
  show ?thesis
  proof (cases "fd \<ge> 0")
    case False
    with inv m'(1) same show ?thesis by (simp add: fds_inv_def use_fds_append)
  next
    case True
    let ?m = "append_fd t fd m'"
    have f: "fds_of ?m u = (if u = t then fds_of m t @ [fd] else fds_of m u)" for u
      using m'(2) by (simp add: fds_of_def append_fd_def)
    have "gp_calls ?m = gp_calls m'" by (simp add: append_fd_def)
    moreover have "(\<Union>u. set (fds_of ?m u)) = insert fd (\<Union>u. set (fds_of m u))" by (auto simp: f split: if_splits)
    ultimately have "use_fds (gp_calls ?m) {} = Some (\<Union>u. set (fds_of ?m u))"
      using True inv(1) m'(1) by (simp add: use_fds_append)
    moreover have "distinct (fds_of ?m u)" for u using inv(2) fresh by (simp add: f)
    moreover have "set (fds_of ?m u) \<inter> set (fds_of ?m v) = {}" if "u \<noteq> v" for u v
      using inv(3) fresh that by (simp add: f)
    ultimately show ?thesis using True by (simp add: fds_inv_def)
  qed
qed

lemma fds_inv_open_all:
  assumes "honest kern" and "fds_inv m" and "open_all kern t ps m = (ok, m')"
  shows "fds_inv m'"
  using assms(2,3)
proof (induction ps arbitrary: m)
  case Nil
  then show ?case by simp
next
  case (Cons processor ps)
  from Cons.prems(2) show ?case
  proof (cases rule: open_all_cases)
    case (opened p m1 fd m2)
    have "fds_inv m1" using opened(1) Cons.prems(1) fds_inv_opened[OF assms(1) Cons.prems(1), of t processor] by force
    with fds_inv_opened[OF assms(1) _ opened(2), of t] opened(3) have "fds_inv (append_fd t fd m2)" by simp
    from Cons.IH[OF this opened(4)] show ?thesis .
  next
    case (failed e m1 e2)
    then have "fds_inv m1" using fds_inv_opened[OF assms(1) Cons.prems(1) failed(2)] by auto
    with fds_inv_opened[OF assms(1) _ failed(4)] failed(3) show ?thesis by auto
  qed
qed

lemma close_all_fds:
  assumes "honest kern" and "use_fds (gp_calls m) {} = Some S" and "distinct fds" and "set fds \<subseteq> S"
  shows "\<exists>m'. close_all kern fds m = (True, m') \<and> use_fds (gp_calls m') {} = Some (S - set fds)"
  using assms(2-4)
proof (induction fds arbitrary: m S)
  case Nil
  then show ?case by simp
next
  case (Cons fd fds)
  let ?m = "m\<lparr>gp_calls := gp_calls m @ [Perf_close fd (k_close kern (gp_calls m) fd)]\<rparr>"
  have ok: "k_close kern (gp_calls m) fd \<noteq> -1" using assms(1) Cons.prems by (auto simp: honest_def)
  have "use_fds (gp_calls ?m) {} = Some (S - {fd})" using Cons.prems ok by (simp add: use_fds_append)
  from Cons.IH[OF this] Cons.prems obtain m' where "close_all kern fds ?m = (True, m')"
    "use_fds (gp_calls m') {} = Some (S - {fd} - set fds)" by fastforce
  moreover have "S - {fd} - set fds = S - set (fd # fds)" by auto
  ultimately show ?case using ok by simp
qed

lemma fds_inv_clear:
  assumes "honest kern" and "fds_inv m" and "gperf_clear kern t (m, c) = (m', c')"
  shows "fds_inv m'"
proof (cases "gp_threads m t")
  case None
  with assms show ?thesis by (simp add: gperf_clear_def)
next
  case (Some fds)
  have inv: "use_fds (gp_calls m) {} = Some (\<Union>t. set (fds_of m t))" "\<forall>t. distinct (fds_of m t)"
    "\<forall>t u. t \<noteq> u \<longrightarrow> set (fds_of m t) \<inter> set (fds_of m u) = {}"
    using assms(2) by (simp_all add: fds_inv_def)
  have fds: "fds_of m t = fds" using Some by (simp add: fds_of_def)
  obtain m1 where m1: "close_all kern fds m = (True, m1)" "use_fds (gp_calls m1) {} = Some ((\<Union>t. set (fds_of m t)) - set fds)"
    using close_all_fds[OF assms(1) inv(1), of fds] inv(2) fds by blast
  then have m': "m' = m1\<lparr>gp_threads := (gp_threads m)(t := None)\<rparr>"
    using assms(3) Some close_all_threads[OF m1(1)] by (auto simp: gperf_clear_def)
  have f: "fds_of m' u = (if u = t then [] else fds_of m u)" for u by (simp add: m' fds_of_def)
  have "(\<Union>u. set (fds_of m' u)) = (\<Union>u. set (fds_of m u)) - set fds"
  proof -
    have "x \<notin> set fds" if "u \<noteq> t" "x \<in> set (fds_of m u)" for u x using inv(3) that fds by blast
    then show ?thesis using fds by (auto simp: f split: if_splits)
  qed
  with m1(2) inv(2,3) f show ?thesis by (simp add: fds_inv_def m')
qed

lemma fds_inv_start:
  assumes "honest kern" and "fds_inv m" and "gperf_start kern t (m, c) = (m', c')"
  shows "fds_inv m'"
proof (cases "gp_threads m t")
  case (Some fds)
  obtain ok1 m1 where m1: "ioctl_all kern PERF_EVENT_IOC_DISABLE fds m = (ok1, m1)" by fastforce
  obtain ok2 m2 where m2: "ioctl_all kern PERF_EVENT_IOC_RESET fds m1 = (ok2, m2)" by fastforce
  obtain ok3 m3 where m3: "ioctl_all kern PERF_EVENT_IOC_ENABLE fds m2 = (ok3, m3)" by fastforce
  have "fds_inv m1" "gp_threads m1 t = Some fds" using fds_inv_ioctl[OF assms(2) Some m1] Some by simp_all
  moreover from this have "fds_inv m2" "gp_threads m2 t = Some fds" using fds_inv_ioctl[OF _ _ m2] by simp_all
  moreover from this have "fds_inv m3" using fds_inv_ioctl[OF _ _ m3] by simp
  ultimately show ?thesis using assms(3) Some m1 m2 m3 by (auto simp: gperf_start_def split: if_splits)
next
  case None
  obtain ok1 m1 where m1: "open_all kern t (monitored_processors m) m = (ok1, m1)" by fastforce
  obtain ok2 m2 where m2: "ioctl_all kern PERF_EVENT_IOC_ENABLE (the (gp_threads m1 t)) m1 = (ok2, m2)" by fastforce
  have inv1: "fds_inv m1" by (rule fds_inv_open_all[OF assms(1,2) m1])
  show ?thesis
  proof (cases ok1)
    case True
    then obtain fds where fds: "gp_threads m1 t = Some fds" using open_all_threads[OF m1] by auto
    with fds_inv_ioctl[OF inv1 fds, of kern PERF_EVENT_IOC_ENABLE ok2 m2] m2 have "fds_inv m2" by simp
    with assms(3) None m1 m2 True show ?thesis by (auto simp: gperf_start_def split: if_splits)
  next
    case False
    with inv1 assms(3) None m1 show ?thesis by (auto simp: gperf_start_def)
  qed
qed

lemma fds_inv_value:
  assumes "fds_inv m" and "gperf_value rnd kern t (m, c) = (v, m', c')"
  shows "fds_inv m'"
  using assms fds_inv_read[OF assms(1), of t]
  by (auto simp: gperf_value_def split: option.splits prod.splits)

lemma fds_inv_stop:
  assumes "honest kern" and "fds_inv m" and "gperf_stop rnd kern t (m, c) = (v, m', c')"
  shows "fds_inv m'"
proof -
  obtain r m1 c1 where m1: "gperf_value rnd kern t (m, c) = (r, m1, c1)" by (metis prod_cases3)
  obtain m2 c2 where m2: "gperf_clear kern t (m1, c1) = (m2, c2)" by fastforce
  have "fds_inv m1" by (rule fds_inv_value[OF assms(2) m1])
  moreover from fds_inv_clear[OF assms(1) this m2] have "fds_inv m2" .
  ultimately show ?thesis using assms(3) m1 m2 by (auto simp: gperf_stop_def split: if_splits)
qed

datatype monitor_call = Call_start int | Call_value int | Call_stop int | Call_clear int

fun gperf_call :: "rounding \<Rightarrow> perf_kernel \<Rightarrow> monitor_call \<Rightarrow> gperf \<times> apcontext \<Rightarrow> gperf \<times> apcontext" where
  "gperf_call rnd kern (Call_start t) mc = gperf_start kern t mc"
| "gperf_call rnd kern (Call_value t) mc = snd (gperf_value rnd kern t mc)"
| "gperf_call rnd kern (Call_stop t) mc = snd (gperf_stop rnd kern t mc)"
| "gperf_call rnd kern (Call_clear t) mc = gperf_clear kern t mc"

lemma fds_inv_call:
  assumes "honest kern" and "fds_inv (fst mc)"
  shows "fds_inv (fst (gperf_call rnd kern call mc))"
proof (cases call)
  case (Call_start t)
  with assms fds_inv_start show ?thesis by (metis gperf_call.simps(1) prod.collapse)
next
  case (Call_value t)
  with assms fds_inv_value show ?thesis by (metis gperf_call.simps(2) prod.collapse)
next
  case (Call_stop t)
  with assms fds_inv_stop show ?thesis by (metis gperf_call.simps(3) prod.collapse)
next
  case (Call_clear t)
  with assms fds_inv_clear show ?thesis by (metis gperf_call.simps(4) prod.collapse)
qed


text \<open>A kernel that hands out ever larger descriptors.\<close>

fun next_fd :: "perf_call list \<Rightarrow> int" where
  "next_fd [] = 3"
| "next_fd (Perf_open a p cpu fd # cs) = max (fd + 1) (next_fd cs)"
| "next_fd (_ # cs) = next_fd cs"

definition demo_perf :: perf_kernel where
  "demo_perf = \<lparr>k_open = (\<lambda>h _ _ _. next_fd h), k_ioctl = (\<lambda>_ _ _. 0), k_read = (\<lambda>_ _. Some 7), k_close = (\<lambda>_ _. 0)\<rparr>"

lemma next_fd_fresh: "use_fds h S = Some S' \<Longrightarrow> x \<in> S' \<Longrightarrow> x \<in> S \<or> x < next_fd h"
  by (induction h S rule: use_fds.induct) (auto split: if_splits)

lemma demo_perf_honest: "honest demo_perf"
  using next_fd_fresh[of _ "{}"] by (fastforce simp: honest_def demo_perf_def)

definition demo_sensor :: Sensor where
  "demo_sensor = (sensor_new demo_sensor_env ''hardware/cpu-cycles'')\<lparr>sensor_processors := [0, 1]\<rparr>"

definition demo_gperf :: gperf where
  "demo_gperf = fst (fold (gperf_call Fin demo_perf) [Call_start 7, Call_start 8, Call_stop 7]
     (gperf_new demo_sensor ''g'', AutopinContext_new ''w''))"


end
