(* ===== verification/Page_Migrate.thy ===== *)
theory Page_Migrate
  imports Performance_Monitor Doubles
begin

text \<open>
  \<open>src/AutopinPlus/Monitor/PageMigrate/Main.cpp\<close>: the monitor that starts the page migration of the
  bundled library \<open>spm\<close>. What \<open>init_spm\<close> makes of the settings is a parameter, and so are the metrics
  the sampling thread of the library has stored when a value is asked for. \<open>None\<close> is an index outside
  the array of the metrics.
\<close>

record sampling_settings =
  ll_sampling_period :: int
  ll_weight_threshold :: int
  spm_measure_time :: int
  pid_uo :: int
  end_recording :: bool
  n_cores :: int

record spm_metrics =
  number_pf_samples :: int
  running_accum :: "int list option" \<comment> \<open>\<open>None\<close> for the null pointer\<close>

record page_migrate =
  pm_name :: QString
  pm_valtype :: montype
  pm_period :: int
  min_weight :: int
  sensing_time :: int
  pm_rands :: "int \<rightharpoonup> double"
  monitored_pid :: int
  spm_st :: sampling_settings

definition settings_zero :: sampling_settings where \<comment> \<open>\<open>memset\<close>\<close>
  "settings_zero = \<lparr>ll_sampling_period = 0, ll_weight_threshold = 0, spm_measure_time = 0, pid_uo = 0,
     end_recording = False, n_cores = 0\<rparr>"

text \<open>The settings and the process id are not initialised by the constructor (\<open>junk\<close>).\<close>

definition page_migrate_new :: "sampling_settings \<Rightarrow> int \<Rightarrow> QString \<Rightarrow> page_migrate" where
  "page_migrate_new junk p name = \<lparr>pm_name = name, pm_valtype = UNKNOWN_type, pm_period = 100, min_weight = 50,
     sensing_time = 30, pm_rands = Map.empty, monitored_pid = p, spm_st = junk\<rparr>"

definition page_migrate_init :: "qt_conv \<Rightarrow> string_map \<Rightarrow> page_migrate \<Rightarrow> page_migrate" where
  "page_migrate_init qt config m =
     (let name = pm_name m;
          m = m\<lparr>pm_valtype := MAX_type\<rparr>;
          m = (if configOptionExists config (name @ ''.sampling_period'') = 1
               then m\<lparr>pm_period := getConfigOptionInt qt config (name @ ''.sampling_period'') 0\<rparr> else m);
          m = (if configOptionExists config (name @ ''.min_weight'') = 1
               then m\<lparr>min_weight := getConfigOptionInt qt config (name @ ''.min_weight'') 0\<rparr> else m);
          m = (if configOptionExists config (name @ ''.sensing_time'') = 1
               then m\<lparr>sensing_time := getConfigOptionInt qt config (name @ ''.sensing_time'') 0\<rparr> else m)
      in m\<lparr>spm_st := (spm_st m)\<lparr>pid_uo := -1\<rparr>\<rparr>)"

definition page_migrate_getConfigOpts :: "page_migrate \<Rightarrow> configopts" where
  "page_migrate_getConfigOpts m = [(''valtype'', [''MAX''])]"

definition page_migrate_start :: "(sampling_settings \<Rightarrow> sampling_settings) \<Rightarrow> int \<Rightarrow> page_migrate \<Rightarrow> page_migrate" where
  "page_migrate_start init_spm tid m =
     (if pid_uo (spm_st m) \<noteq> -1 then m
      else
        let st = settings_zero\<lparr>ll_sampling_period := pm_period m, ll_weight_threshold := min_weight m,
                   spm_measure_time := sensing_time m, pid_uo := monitored_pid m\<rparr>
        in m\<lparr>spm_st := init_spm st\<rparr>)"

text \<open>The logical negation of a number is 1 for 0 and 0 otherwise.\<close>

definition page_migrate_value :: "rounding \<Rightarrow> spm_metrics \<Rightarrow> int \<Rightarrow> page_migrate \<Rightarrow> double option" where
  "page_migrate_value rnd metrics tid m =
     (if number_pf_samples metrics = 0 then Some (Fin 0)
      else case running_accum metrics of
        None \<Rightarrow> Some (Fin 0)
      | Some acc \<Rightarrow>
          (case vec_at acc 2 of
             None \<Rightarrow> None
           | Some a \<Rightarrow>
               if a = 0 then Some (Fin 0)
               else Some (ddiv rnd (Fin (real_of_int a))
                 (Fin (real_of_int (n_cores (spm_st m) * (if number_pf_samples metrics = 0 then 1 else 0)))))))"

definition page_migrate_stop :: "int \<Rightarrow> page_migrate \<Rightarrow> double \<times> page_migrate" where
  "page_migrate_stop tid m = (Fin 0, m\<lparr>spm_st := (spm_st m)\<lparr>end_recording := True\<rparr>\<rparr>)"

definition page_migrate_clear :: "int \<Rightarrow> page_migrate \<Rightarrow> page_migrate" where
  "page_migrate_clear tid m = m\<lparr>pm_rands := (pm_rands m)(tid := None)\<rparr>"

definition page_migrate_getMonitoredTasks :: "page_migrate \<Rightarrow> autopin_tid_list" where
  "page_migrate_getMonitoredTasks m = {}"

definition setObservedProcessPid :: "int \<Rightarrow> page_migrate \<Rightarrow> page_migrate" where
  "setObservedProcessPid p m = m\<lparr>monitored_pid := p\<rparr>"

subsection \<open>The value carries no information\<close>

text \<open>
  The value of the page migration monitor is never a number of instructions: once there are samples,
  their number is negated before it is used as a divisor, so the result is an infinity with the sign
  of the accumulated count whenever that is not zero, and zero in all other cases, whatever the number
  of cores and samples.
\<close>

theorem page_migrate_value_infinite:
  "page_migrate_value rnd metrics tid m =
     (case running_accum metrics of
        Some acc \<Rightarrow> if number_pf_samples metrics = 0 then Some (Fin 0)
          else map_option (\<lambda>a. if a = 0 then Fin 0 else if a < 0 then NInf else PInf) (vec_at acc 2)
      | None \<Rightarrow> Some (Fin 0))"
  by (simp add: page_migrate_value_def signed_inf_def split: option.split)

text \<open>The library is started once, for the first task after \<open>init\<close>, unless it resets the process id.\<close>

lemma page_migrate_starts_once:
  assumes "pid_uo (init_spm (settings_zero\<lparr>ll_sampling_period := pm_period m, ll_weight_threshold := min_weight m,
      spm_measure_time := sensing_time m, pid_uo := monitored_pid m\<rparr>)) \<noteq> -1"
  shows "page_migrate_start init_spm t2 (page_migrate_start init_spm t1 m) = page_migrate_start init_spm t1 m"
  using assms by (simp add: page_migrate_start_def Let_def)

end
