(* ===== verification/External_Logger.thy ===== *)
theory External_Logger
  imports Random_Monitor
begin

text \<open>
  \<open>src/AutopinPlus/Logger/External/Main.cpp\<close> with the base class \<open>src/AutopinPlus/DataLogger.cpp\<close>: the data
  logger that periodically sends the values of all monitors to a program. A monitor is its operations
  with its name, its unit and its state; the program is the text written to it. Printing of doubles
  and the elapsed time are arguments. The mutex only keeps out a nested call of the slot.
\<close>

record external =
  command :: QStringList
  log_interval :: int
  systemwide :: bool
  logger_started :: bool \<comment> \<open>whether the program and the timer run\<close>
  written_text :: string
  log_locked :: bool

record 'm logged_monitor =
  lm_name :: QString
  lm_unit :: QString
  lm_state :: 'm

definition external_new :: external where
  "external_new = \<lparr>command = [''cat''], log_interval = 100, systemwide = False, logger_started = False,
     written_text = [], log_locked = False\<rparr>"

definition getName :: "external \<Rightarrow> QString" where
  "getName l = ''external''"

text \<open>\<open>started\<close>: the result of \<open>waitForStarted\<close>. \<open>None\<close>: the first element of an empty list.\<close>

definition external_init :: "qt_conv \<Rightarrow> string_map \<Rightarrow> (QStringList \<Rightarrow> bool) \<Rightarrow> external \<times> apcontext \<Rightarrow> (external \<times> apcontext) option" where
  "external_init qt config started = (\<lambda>(l, c).
     (let l = (if configOptionExists config ''external.command'' > 0
               then l\<lparr>command := getConfigOptionList config ''external.command''\<rparr> else l) in
      case (if configOptionExists config ''external.interval'' > 0
            then readInt qt (getConfigOption config ''external.interval'' 0) else Some (log_interval l)) of
        None \<Rightarrow> Some (l, report BAD_CONFIG ''option_format'' c)
      | Some v \<Rightarrow>
          let l = l\<lparr>log_interval := v\<rparr>;
              l = (if configOptionExists config ''external.systemwide'' > 0
                   then l\<lparr>systemwide := getConfigOptionBool qt config ''external.systemwide'' 0\<rparr> else l)
          in if command l = [] then None
             else if \<not> started (command l) then Some (l, report BAD_CONFIG ''option_format'' c)
             else Some (l\<lparr>logger_started := True\<rparr>, c)))"

definition external_getConfigOpts :: "external \<Rightarrow> configopts" where
  "external_getConfigOpts l =
     [(''command'', command l), (''interval'', [number (log_interval l)]),
      (''interval'', [if systemwide l then ''true'' else ''false''])]"

definition data_line :: "(double \<Rightarrow> string) \<Rightarrow> double \<Rightarrow> QString \<Rightarrow> int \<Rightarrow> double \<Rightarrow> QString \<Rightarrow> string" where
  "data_line fixed time name task v un =
     name @ [CHR 0x09] @ number task @ [CHR 0x09] @ fixed time @ [CHR 0x09] @ fixed v @ [CHR 0x09] @
     (if un = [] then ''none'' else un) @ [CHR 0x0A]"

text \<open>The loop over the tasks of one monitor; \<open>time n\<close> is the time at the n-th data point.\<close>

fun log_tasks ::
  "'m monitor_ops \<Rightarrow> (double \<Rightarrow> string) \<Rightarrow> (nat \<Rightarrow> double) \<Rightarrow> bool \<Rightarrow> QString \<Rightarrow> QString \<Rightarrow> int list \<Rightarrow>
    nat \<times> string \<times> 'm \<times> apcontext \<Rightarrow> nat \<times> string \<times> 'm \<times> apcontext" where
  "log_tasks ops fixed time wide name un [] s = s"
| "log_tasks ops fixed time wide name un (task # tids) (n, out, m, c) =
     (let (v, m, c) = op_value ops task (m, c);
          s = (n + 1, out @ data_line fixed (time n) name task v un, m, c)
      in if wide then s else log_tasks ops fixed time wide name un tids s)"

fun log_monitors ::
  "'m monitor_ops \<Rightarrow> (double \<Rightarrow> string) \<Rightarrow> (nat \<Rightarrow> double) \<Rightarrow> bool \<Rightarrow> 'm logged_monitor list \<Rightarrow>
    nat \<times> string \<times> apcontext \<Rightarrow> 'm logged_monitor list \<times> nat \<times> string \<times> apcontext" where
  "log_monitors ops fixed time wide [] s = ([], s)"
| "log_monitors ops fixed time wide (mon # mons) (n, out, c) =
     (let (n, out, m, c) = log_tasks ops fixed time wide (lm_name mon) (lm_unit mon)
            (sorted_list_of_set (op_getMonitoredTasks ops (lm_state mon))) (n, out, lm_state mon, c);
          (mons, s) = log_monitors ops fixed time wide mons (n, out, c)
      in (mon\<lparr>lm_state := m\<rparr> # mons, s))"

definition slot_logDataPoint ::
  "'m monitor_ops \<Rightarrow> (double \<Rightarrow> string) \<Rightarrow> (nat \<Rightarrow> double) \<Rightarrow> external \<times> 'm logged_monitor list \<times> apcontext \<Rightarrow>
    external \<times> 'm logged_monitor list \<times> apcontext" where
  "slot_logDataPoint ops fixed time = (\<lambda>(l, mons, c).
     (if log_locked l then (l, mons, c)
      else
        let (mons, n, out, c) = log_monitors ops fixed time (systemwide l) mons (0, [], c)
        in (l\<lparr>written_text := written_text l @ out\<rparr>, mons, c)))"

subsection \<open>What is sent\<close>

text \<open>The data points of the monitors, and the text for a list of data points from the n-th on.\<close>

definition data_points ::
  "('m \<Rightarrow> autopin_tid_list) \<Rightarrow> ('m \<Rightarrow> int \<Rightarrow> double) \<Rightarrow> bool \<Rightarrow> 'm logged_monitor list \<Rightarrow>
    (QString \<times> int \<times> double \<times> QString) list" where
  "data_points monitored measured wide mons = concat (map (\<lambda>mon.
     (let tids = sorted_list_of_set (monitored (lm_state mon)) in
      map (\<lambda>t. (lm_name mon, t, measured (lm_state mon) t, lm_unit mon)) (if wide then take 1 tids else tids))) mons)"

fun data_text :: "(double \<Rightarrow> string) \<Rightarrow> (nat \<Rightarrow> double) \<Rightarrow> nat \<Rightarrow> (QString \<times> int \<times> double \<times> QString) list \<Rightarrow> string" where
  "data_text fixed time n [] = []"
| "data_text fixed time n ((name, t, v, un) # ps) = data_line fixed (time n) name t v un @ data_text fixed time (n + 1) ps"

lemma data_text_append: "data_text fixed time n (a @ b) = data_text fixed time n a @ data_text fixed time (n + length a) b"
  by (induction fixed time n a rule: data_text.induct) auto

context task_monitor
begin

lemma log_tasks_eq:
  assumes "inv m" and "set tids \<subseteq> op_getMonitoredTasks ops m"
  shows "log_tasks ops fixed time wide name un tids (n, out, m, c) =
    (let ps = map (\<lambda>t. (name, t, measured m t, un)) (if wide then take 1 tids else tids)
     in (n + length ps, out @ data_text fixed time n ps, m, c))"
  using assms(2)
proof (induction tids arbitrary: n out)
  case Nil
  then show ?case by simp
next
  case (Cons t tids)
  then show ?case using valued[OF assms(1), of t c] by (cases wide) (simp_all add: Let_def)
qed

lemma log_monitors_eq:
  assumes "\<forall>mon\<in>set mons. inv (lm_state mon)"
  shows "log_monitors ops fixed time wide mons (n, out, c) =
    (let ps = data_points (op_getMonitoredTasks ops) measured wide mons
     in (mons, n + length ps, out @ data_text fixed time n ps, c))"
  using assms
proof (induction mons arbitrary: n out)
  case Nil
  then show ?case by (simp add: data_points_def)
next
  case (Cons mon mons)
  let ?tids = "sorted_list_of_set (op_getMonitoredTasks ops (lm_state mon))"
  have m: "inv (lm_state mon)" using Cons.prems by simp
  have "set ?tids \<subseteq> op_getMonitoredTasks ops (lm_state mon)" using set_finite[OF m] by simp
  note eq = log_tasks_eq[OF m this, of fixed time wide "lm_name mon" "lm_unit mon" n out c]
  have "data_points (op_getMonitoredTasks ops) measured wide (mon # mons) =
      map (\<lambda>t. (lm_name mon, t, measured (lm_state mon) t, lm_unit mon)) (if wide then take 1 ?tids else ?tids) @
      data_points (op_getMonitoredTasks ops) measured wide mons"
    by (simp add: data_points_def Let_def)
  with Cons eq show ?case by (simp add: Let_def data_text_append)
qed

lemma logDataPoint_eq:
  assumes "\<forall>mon\<in>set mons. inv (lm_state mon)" and "\<not> log_locked l"
  shows "slot_logDataPoint ops fixed time (l, mons, c) =
    (l\<lparr>written_text := written_text l @ data_text fixed time 0
       (data_points (op_getMonitoredTasks ops) measured (systemwide l) mons)\<rparr>, mons, c)"
  using log_monitors_eq[OF assms(1), of fixed time "systemwide l" 0 "[]" c] assms(2)
  by (simp add: slot_logDataPoint_def Let_def)

end



subsection \<open>Process\<close>

text \<open>
  \<open>src/AutopinPlus/Logger/External/Process.cpp\<close>: the process object of the logger, with what its destructor touches. The
  destructor of the base class \<open>QProcess\<close> runs afterwards; it kills a process that is still in the state
  \<open>Starting\<close> or \<open>Running\<close> and waits for it.
\<close>

datatype ProcessState = NotRunning | Starting | Running

record qprocess =
  qp_state :: ProcessState
  qp_channels :: "bool \<times> bool \<times> bool" \<comment> \<open>standard output, standard error and standard input are open\<close>
  qp_killed :: bool

definition Process_destroy :: "qprocess \<Rightarrow> qprocess" where
  "Process_destroy p =
     (let p = p\<lparr>qp_channels := (False, snd (qp_channels p))\<rparr>;
          p = p\<lparr>qp_channels := (fst (qp_channels p), False, snd (snd (qp_channels p)))\<rparr>;
          p = p\<lparr>qp_channels := (fst (qp_channels p), fst (snd (qp_channels p)), False)\<rparr>
      in p\<lparr>qp_state := NotRunning\<rparr>)"

definition QProcess_destroy :: "qprocess \<Rightarrow> qprocess" where
  "QProcess_destroy p = (if qp_state p = NotRunning then p else p\<lparr>qp_state := NotRunning, qp_killed := True\<rparr>)"

text \<open>The program of the logger sees the end of its input and is not killed; a plain \<open>QProcess\<close> would kill it.\<close>

lemma logger_program_survives:
  "QProcess_destroy (Process_destroy p) = p\<lparr>qp_state := NotRunning, qp_channels := (False, False, False)\<rparr>"
  "qp_state p = Running \<Longrightarrow> qp_killed (QProcess_destroy p)"
  by (simp_all add: QProcess_destroy_def Process_destroy_def Let_def)

end
