(* ===== verification/Dispatch.thy ===== *)
theory Dispatch
  imports Observed_Process
begin

text \<open>
  The two sources of events outside a watchdog: \<open>src/AutopinPlus/OS/SignalDispatcher.cpp\<close>, which turns the
  termination of child processes into signals in the event loop, and \<open>src/AutopinPlus/MQTTClient.cpp\<close>,
  which receives configurations from an MQTT broker. The socket pair is the list of entries written
  and not yet read. The results of \<open>waitpid\<close> are the input of the signal handler: the children it
  reaps before the call that returns no more. The functions of the mosquitto library are the record
  \<open>mosquitto\<close>.
\<close>

subsection \<open>SignalDispatcher\<close>

record dispatcher =
  sigchld_pipe :: "(int \<times> int) list" \<comment> \<open>process id and status\<close>
  proc_terminated :: "(int \<times> int) list" \<comment> \<open>the signals \<open>sig_ProcTerminated\<close> emitted\<close>
  exit_requested :: bool \<comment> \<open>\<open>QCoreApplication::exit(1)\<close>\<close>
  notifier_set :: bool

definition dispatcher_new :: dispatcher where
  "dispatcher_new = \<lparr>sigchld_pipe = [], proc_terminated = [], exit_requested = False, notifier_set = False\<rparr>"

definition dispatcher_init :: "int \<Rightarrow> dispatcher \<Rightarrow> int \<times> dispatcher" where
  "dispatcher_init socketpair d = (if socketpair \<noteq> 0 then (-1, d) else (0, d\<lparr>notifier_set := True\<rparr>))"

text \<open>The results of \<open>sigemptyset\<close> and \<open>sigaction\<close> are collected but not looked at.\<close>

definition setupSignalHandler_chld :: "int \<times> int \<Rightarrow> int \<Rightarrow> dispatcher \<Rightarrow> int \<times> dispatcher" where
  "setupSignalHandler_chld rets socketpair d = dispatcher_init socketpair d"

text \<open>\<open>ok n\<close>: whether the \<open>n\<close>-th write succeeds.\<close>

fun chldSignalHandler :: "(nat \<Rightarrow> bool) \<Rightarrow> nat \<Rightarrow> (int \<times> int) list \<Rightarrow> dispatcher \<Rightarrow> dispatcher" where
  "chldSignalHandler ok n [] d = d"
| "chldSignalHandler ok n (info # infos) d =
     chldSignalHandler ok (n + 1) infos
       (if ok n then d\<lparr>sigchld_pipe := sigchld_pipe d @ [info]\<rparr> else d\<lparr>exit_requested := True\<rparr>)"

text \<open>
  The notifier calls this slot when there is something to read. A failed read leaves the buffer
  uninitialised (\<open>junk\<close>), and it is emitted nevertheless.
\<close>

definition slot_handleSigChld :: "int \<times> int \<Rightarrow> bool \<Rightarrow> dispatcher \<Rightarrow> dispatcher" where
  "slot_handleSigChld junk ok d =
     (case (ok, sigchld_pipe d) of
        (True, info # infos) \<Rightarrow> d\<lparr>sigchld_pipe := infos, proc_terminated := proc_terminated d @ [info]\<rparr>
      | _ \<Rightarrow> d\<lparr>exit_requested := True, proc_terminated := proc_terminated d @ [junk]\<rparr>)"

text \<open>What happens, in order: the handler runs with some children to reap, or the slot is called.\<close>

datatype dispatch_event = Reap "(int \<times> int) list" | Activated

text \<open>The notifier is only activated when there is data.\<close>

fun dispatch_run :: "dispatch_event list \<Rightarrow> dispatcher \<Rightarrow> dispatcher" where
  "dispatch_run [] d = d"
| "dispatch_run (Reap infos # es) d = dispatch_run es (chldSignalHandler (\<lambda>_. True) 0 infos d)"
| "dispatch_run (Activated # es) d =
     dispatch_run es (if sigchld_pipe d = [] then d else slot_handleSigChld (0, 0) True d)"

fun reaped :: "dispatch_event list \<Rightarrow> (int \<times> int) list" where
  "reaped [] = []"
| "reaped (Reap infos # es) = infos @ reaped es"
| "reaped (Activated # es) = reaped es"

lemma chldSignalHandler_ok:
  "chldSignalHandler (\<lambda>_. True) n infos d = d\<lparr>sigchld_pipe := sigchld_pipe d @ infos\<rparr>"
  by (induction infos arbitrary: n d) simp_all

lemma slot_handleSigChld_ok:
  "sigchld_pipe d \<noteq> [] \<Longrightarrow> slot_handleSigChld junk True d =
     d\<lparr>sigchld_pipe := tl (sigchld_pipe d), proc_terminated := proc_terminated d @ [hd (sigchld_pipe d)]\<rparr>"
  by (cases "sigchld_pipe d") (simp_all add: slot_handleSigChld_def)

lemma dispatch_run_fifo:
  "proc_terminated (dispatch_run es d) @ sigchld_pipe (dispatch_run es d) =
     proc_terminated d @ sigchld_pipe d @ reaped es \<and>
   exit_requested (dispatch_run es d) = exit_requested d"
  by (induction es d rule: dispatch_run.induct) (simp_all add: chldSignalHandler_ok slot_handleSigChld_ok)

text \<open>
  C29. As long as the socket pair works, no termination is lost, repeated or reordered: at any moment the
  signals emitted so far, followed by the entries still in the socket pair, are exactly the children
  reaped so far, in the order in which they were reaped, and nothing asks the application to exit.
\<close>

theorem sigchld_exactly_once:
  "proc_terminated (dispatch_run es dispatcher_new) @ sigchld_pipe (dispatch_run es dispatcher_new) = reaped es \<and>
   \<not> exit_requested (dispatch_run es dispatcher_new)"
  using dispatch_run_fifo[of es dispatcher_new] by (simp add: dispatcher_new_def)

subsection \<open>MQTTClient\<close>

record mosquitto =
  mosquitto_new :: bool \<comment> \<open>not the null pointer\<close>
  mosquitto_connect :: "QString \<Rightarrow> int \<Rightarrow> bool" \<comment> \<open>\<open>MOSQ_ERR_SUCCESS\<close>\<close>
  mosquitto_loop_start :: bool
  mosquitto_subscribe :: "QString \<Rightarrow> bool"

definition mqtt_commands :: "string list" where
  "mqtt_commands = [''AddProcess'']"

definition baseSuscriptionTopic :: "QString \<Rightarrow> string" where
  "baseSuscriptionTopic hostname = ''AutopinPlus/'' @ hostname @ ''/''"

fun subscribe_all :: "mosquitto \<Rightarrow> QString \<Rightarrow> string list \<Rightarrow> bool" where
  "subscribe_all lib hostname [] = True"
| "subscribe_all lib hostname (command # commands) =
     (if mosquitto_subscribe lib (baseSuscriptionTopic hostname @ command) then subscribe_all lib hostname commands else False)"

text \<open>The result is the error message, empty for success; \<open>self\<close> is the name of this host.\<close>

definition mqtt_init :: "mosquitto \<Rightarrow> qt_conv \<Rightarrow> QString \<Rightarrow> string_map \<Rightarrow> string" where
  "mqtt_init lib qt self config =
     (let hostname = getConfigOption config ''mqtt.hostname'' 0;
          hostname = (if hostname = [] then ''localhost'' else hostname);
          port = getConfigOptionInt qt config ''mqtt.port'' 0;
          port = (if port = 0 then 1883 else port)
      in if \<not> mosquitto_new lib then ''Cannot initalize MQTT client''
         else if \<not> mosquitto_connect lib hostname port then ''Cannot connect to MQTT broker on host '' @ hostname
         else if \<not> mosquitto_loop_start lib then ''Cannot initalize MQTT loop''
         else if \<not> subscribe_all lib self mqtt_commands then ''Cannot suscripe to MQTT topics''
         else [])"

text \<open>The payload is emitted as a process configuration when the topic ends with the command.\<close>

definition messageCallback :: "string \<Rightarrow> string \<Rightarrow> QString option" where
  "messageCallback topic payload =
     (let command = hd mqtt_commands in
      if length topic \<ge> length command \<and> drop (length topic - length command) topic = command
      then Some payload else None)"

text \<open>A message on the topic the client has subscribed to is accepted.\<close>

lemma messageCallback_subscribed:
  "messageCallback (baseSuscriptionTopic hostname @ ''AddProcess'') payload = Some payload"
  by (simp add: messageCallback_def mqtt_commands_def)

lemma mqtt_init_ok_iff:
  "mqtt_init lib qt self config = [] \<longleftrightarrow>
     mosquitto_new lib \<and> mosquitto_loop_start lib \<and> mosquitto_subscribe lib (''AutopinPlus/'' @ self @ ''/AddProcess'') \<and>
     mosquitto_connect lib
       (if getConfigOption config ''mqtt.hostname'' 0 = [] then ''localhost'' else getConfigOption config ''mqtt.hostname'' 0)
       (if getConfigOptionInt qt config ''mqtt.port'' 0 = 0 then 1883 else getConfigOptionInt qt config ''mqtt.port'' 0)"
  by (auto simp: mqtt_init_def Let_def mqtt_commands_def baseSuscriptionTopic_def)

end
