(* ===== verification/Watchdog.thy ===== *)
theory Watchdog
  imports Autopin1 Compact Scatter Noop Comm_Channel ClustSafe GPerf Page_Migrate External_Logger Dispatch
begin

text \<open>
  \<open>src/AutopinPlus/Watchdog.cpp\<close>: a watchdog creates the components for one configuration, initialises them,
  connects them and starts the observed process. The components are those of the other theories: a
  monitor is one of the four kinds, a strategy one of the four strategies. What they need of the
  system is gathered in \<open>wd_env\<close>. \<open>None\<close> is undefined behaviour of a component or a sensor that is
  never read completely.
\<close>

datatype any_monitor =
  ClustSafe_monitor clustsafe | GPerf_monitor gperf | Random_monitor random | PageMigrate_monitor page_migrate

datatype any_strategy =
  Autopin1_strategy autopin1 | Noop_strategy strategy | Compact_strategy compact | Scatter_strategy scatter

fun monitor_id :: "any_monitor \<Rightarrow> QString" where
  "monitor_id (ClustSafe_monitor m) = cs_name m"
| "monitor_id (GPerf_monitor m) = gp_name m"
| "monitor_id (Random_monitor m) = monitor_name m"
| "monitor_id (PageMigrate_monitor m) = pm_name m"

fun monitor_valtype :: "any_monitor \<Rightarrow> montype" where
  "monitor_valtype (ClustSafe_monitor m) = MIN_type"
| "monitor_valtype (GPerf_monitor m) = gp_valtype m"
| "monitor_valtype (Random_monitor m) = valtype m"
| "monitor_valtype (PageMigrate_monitor m) = pm_valtype m"

record wd_env =
  wd_qt :: qt_conv
  wd_fs :: procfs
  wd_home :: "QString option"
  wd_cpus :: nat
  wd_topology :: cpu_info
  wd_sensors :: sensor_env
  wd_fuel :: nat
  wd_spawns :: "QStringList \<Rightarrow> bool"
  wd_start :: start_env
  wd_address :: "nat \<Rightarrow> nat" \<comment> \<open>where the n-th monitor is allocated\<close>
  wd_junk :: "Sensor \<times> sampling_settings \<times> int \<times> bool" \<comment> \<open>the members constructors leave uninitialised\<close>

record watchdog =
  wd_monitors :: "any_monitor list"
  wd_process :: observed_process
  wd_strategy :: "any_strategy option"
  wd_loggers :: "external list"
  wd_comm :: comm
  wd_emitted :: "op_signal list" \<comment> \<open>emitted by the process while it is started\<close>
  wd_ready :: bool \<comment> \<open>whether \<open>sig_watchdogReady\<close> was emitted\<close>

subsection \<open>Creating the components\<close>

definition createContext :: "string_map \<Rightarrow> nat \<Rightarrow> apcontext \<times> nat" where
  "createContext config counter =
     (AutopinContext_new (if configOptionExists config ''Name'' \<noteq> 0 then getConfigOption config ''Name'' 0
        else ''Watchdog '' @ number (int counter)), counter + 1)"

text \<open>The body of the loop in \<open>createPerformanceMonitors\<close>; \<open>existing_ids\<close> is never extended.\<close>

definition create_monitor ::
  "wd_env \<Rightarrow> string_map \<Rightarrow> QStringList \<Rightarrow> QString \<Rightarrow> any_monitor list \<times> apcontext \<Rightarrow> any_monitor list \<times> apcontext" where
  "create_monitor env config existing_ids current_monitor = (\<lambda>(ms, c).
     (let c = (if current_monitor \<in> set existing_ids then report BAD_CONFIG ''inconsistent'' c else c);
          numtypes = configOptionExists config (current_monitor @ ''.type'');
          c = (if numtypes \<le> 0 then report BAD_CONFIG ''option_missing'' c
               else if numtypes > 1 then report BAD_CONFIG ''inconsistent'' c else c);
          current_type = getConfigOption config (current_monitor @ ''.type'') 0
      in if current_type = ''clustsafe''
         then (ms @ [ClustSafe_monitor (clustsafe_new current_monitor (wd_address env (length ms)))], c)
         else if current_type = ''gperf''
         then (ms @ [GPerf_monitor (gperf_new (fst (wd_junk env)) current_monitor)], c)
         else if current_type = ''random''
         then (ms @ [Random_monitor (random_new current_monitor)], c)
         else if current_type = ''pagemigrate''
         then (ms @ [PageMigrate_monitor (page_migrate_new (fst (snd (wd_junk env))) (fst (snd (snd (wd_junk env)))) current_monitor)], c)
         else (ms, report UNSUPPORTED ''critical'' c)))"

definition createPerformanceMonitors :: "wd_env \<Rightarrow> string_map \<Rightarrow> apcontext \<Rightarrow> any_monitor list \<times> apcontext" where
  "createPerformanceMonitors env config c =
     (let config_monitors = getConfigOptionList config ''PerformanceMonitors'';
          existing_ids = [];
          c = (if config_monitors = [] then report BAD_CONFIG ''option_missing'' c else c)
      in fold (create_monitor env config existing_ids) config_monitors ([], c))"

definition createControlStrategy :: "string_map \<Rightarrow> apcontext \<Rightarrow> any_strategy option \<times> apcontext" where
  "createControlStrategy config c =
     (let optcount = configOptionExists config ''ControlStrategy'';
          c = (if optcount \<le> 0 then report BAD_CONFIG ''option_missing'' c else c);
          c = (if optcount > 1 then report BAD_CONFIG ''inconsistent'' c else c);
          strategy_config = getConfigOption config ''ControlStrategy'' 0
      in if strategy_config = ''autopin1'' then (Some (Autopin1_strategy autopin1_new), c)
         else if strategy_config = ''noop'' then (Some (Noop_strategy ControlStrategy_new), c)
         else if strategy_config = ''compact'' then (Some (Compact_strategy compact_new), c)
         else if strategy_config = ''scatter'' then (Some (Scatter_strategy scatter_new), c)
         else (None, report UNSUPPORTED ''critical'' c))"

fun create_loggers :: "QStringList \<Rightarrow> external list \<times> apcontext \<Rightarrow> external list \<times> apcontext" where
  "create_loggers [] lc = lc"
| "create_loggers (logger # loggers) (ls, c) =
     (if logger = ''external'' then create_loggers loggers (ls @ [external_new], c)
      else (ls, report UNSUPPORTED ''critical'' c))"

definition createDataLoggers :: "string_map \<Rightarrow> apcontext \<Rightarrow> external list \<times> apcontext" where
  "createDataLoggers config c = create_loggers (getConfigOptionList config ''DataLoggers'') ([], c)"

subsection \<open>Initialising them\<close>

fun init_monitor :: "wd_env \<Rightarrow> string_map \<Rightarrow> any_monitor \<times> apcontext \<Rightarrow> (any_monitor \<times> apcontext) option" where
  "init_monitor env config (ClustSafe_monitor m, c) = Some (ClustSafe_monitor m, c)"
| "init_monitor env config (GPerf_monitor m, c) =
     map_option (\<lambda>(m, c). (GPerf_monitor m, c)) (gperf_init (wd_sensors env) (wd_fuel env) config (m, c))"
| "init_monitor env config (Random_monitor m, c) = Some (Random_monitor (random_init (wd_qt env) config m), c)"
| "init_monitor env config (PageMigrate_monitor m, c) = Some (PageMigrate_monitor (page_migrate_init (wd_qt env) config m), c)"

fun init_monitors :: "wd_env \<Rightarrow> string_map \<Rightarrow> any_monitor list \<times> apcontext \<Rightarrow> (any_monitor list \<times> apcontext) option" where
  "init_monitors env config ([], c) = Some ([], c)"
| "init_monitors env config (m # ms, c) =
     (case init_monitor env config (m, c) of None \<Rightarrow> None
      | Some (m, c) \<Rightarrow> map_option (\<lambda>(ms, c). (m # ms, c)) (init_monitors env config (ms, c)))"

fun init_strategy :: "wd_env \<Rightarrow> string_map \<Rightarrow> montype list \<Rightarrow> any_strategy \<times> world \<Rightarrow> any_strategy \<times> world" where
  "init_strategy env config types (Autopin1_strategy s, w) =
     map_prod Autopin1_strategy id (autopin1_init (wd_qt env) config (wd_cpus env) types (s, w))"
| "init_strategy env config types (Noop_strategy s, w) =
     map_prod Noop_strategy id (noop_init (wd_qt env) config (wd_cpus env) (s, w))"
| "init_strategy env config types (Compact_strategy s, w) =
     map_prod Compact_strategy id (compact_init (wd_qt env) config (wd_cpus env) (s, w))"
| "init_strategy env config types (Scatter_strategy s, w) =
     map_prod Scatter_strategy id (scatter_init (wd_qt env) config (wd_cpus env) (wd_topology env) (s, w))"

fun init_loggers :: "wd_env \<Rightarrow> string_map \<Rightarrow> external list \<times> apcontext \<Rightarrow> (external list \<times> apcontext) option" where
  "init_loggers env config ([], c) = Some ([], c)"
| "init_loggers env config (l # ls, c) =
     (case external_init (wd_qt env) config (wd_spawns env) (l, c) of None \<Rightarrow> None
      | Some (l, c) \<Rightarrow> map_option (\<lambda>(ls, c). (l # ls, c)) (init_loggers env config (ls, c)))"

fun set_pid :: "int \<Rightarrow> any_monitor \<Rightarrow> any_monitor" where
  "set_pid p (PageMigrate_monitor m) = PageMigrate_monitor (setObservedProcessPid p m)"
| "set_pid p m = m"

subsection \<open>Running\<close>

text \<open>The components after the constructors, without an observed process.\<close>

definition createComponents :: "wd_env \<Rightarrow> string_map \<Rightarrow> apcontext \<Rightarrow> watchdog \<times> apcontext" where
  "createComponents env config c =
     (let (ms, c) = createPerformanceMonitors env config c;
          op = ObservedProcess_new (snd (snd (snd (wd_junk env))));
          (s, c) = createControlStrategy config c;
          (ls, c) = createDataLoggers config c
      in (\<lparr>wd_monitors = ms, wd_process = op, wd_strategy = s, wd_loggers = ls, wd_comm = comm_new, wd_emitted = [], wd_ready = False\<rparr>, c))"

definition initComponents :: "wd_env \<Rightarrow> string_map \<Rightarrow> watchdog \<times> world \<Rightarrow> (watchdog \<times> world) option" where
  "initComponents env config = (\<lambda>(d, w). do {
     (ms, c) \<leftarrow> init_monitors env config (wd_monitors d, runtime w);
     let (op, c) = ObservedProcess_init (wd_qt env) (wd_fs env) (wd_home env) config (wd_process d, c);
     s \<leftarrow> wd_strategy d;
     let (s, w) = init_strategy env config (map monitor_valtype ms) (s, w\<lparr>runtime := c\<rparr>);
     (ls, c) \<leftarrow> init_loggers env config (wd_loggers d, runtime w);
     Some (d\<lparr>wd_monitors := ms, wd_process := op, wd_strategy := Some s, wd_loggers := ls\<rparr>, w\<lparr>runtime := c\<rparr>)
   })"

definition startComponents :: "wd_env \<Rightarrow> string_map \<Rightarrow> watchdog \<times> world \<Rightarrow> (watchdog \<times> world) option" where
  "startComponents env config = (\<lambda>(d, w). do {
     (sigs, op, cm, c) \<leftarrow> ObservedProcess_start (wd_start env) (wd_process d, wd_comm d, runtime w);
     (ms, c) \<leftarrow> init_monitors env config (wd_monitors d, c);
     Some (d\<lparr>wd_monitors := map (set_pid (op_pid op)) ms, wd_process := op, wd_comm := cm, wd_emitted := sigs, wd_ready := True\<rparr>,
       w\<lparr>runtime := c\<rparr>)
   })"

definition slot_watchdogRun ::
  "wd_env \<Rightarrow> string_map \<Rightarrow> nat \<Rightarrow> world \<Rightarrow> (nat \<times> watchdog \<times> world) option" where
  "slot_watchdogRun env config counter w =
     (let (c, counter) = createContext config counter;
          (d, c) = createComponents env config c;
          w = w\<lparr>runtime := c\<rparr>
      in if isError (runtime w) then Some (counter, d, w)
         else do {
           (d, w) \<leftarrow> initComponents env config (d, w);
           if isError (runtime w) then Some (counter, d, w)
           else map_option (Pair counter) (startComponents env config (d, w))
         })"

subsection \<open>Connections\<close>

text \<open>The connections of \<open>createComponentConnections\<close> as what each object's signal triggers.\<close>

datatype wd_slot =
    Process_ProcTerminated int int | Process_TaskCreated int | Process_TaskTerminated int | Process_CommChannel autopin_msg
  | Strategy_TaskCreated int | Strategy_TaskTerminated int | Strategy_UserMessage int double | Strategy_watchdogReady
  | Emit_watchdogStop

datatype wd_signal =
    Dispatcher_ProcTerminated int int | Service_TaskCreated int | Service_TaskTerminated int | Service_CommChannel autopin_msg
  | Process_signal op_signal | Watchdog_ready | Context_error

fun createComponentConnections :: "wd_signal \<Rightarrow> wd_slot list" where
  "createComponentConnections (Dispatcher_ProcTerminated p status) = [Process_ProcTerminated p status]"
| "createComponentConnections (Service_TaskCreated t) = [Process_TaskCreated t]"
| "createComponentConnections (Service_TaskTerminated t) = [Process_TaskTerminated t]"
| "createComponentConnections (Service_CommChannel msg) = [Process_CommChannel msg]"
| "createComponentConnections (Process_signal (Sig_TaskCreated t)) = [Strategy_TaskCreated t]"
| "createComponentConnections (Process_signal (Sig_TaskTerminated t)) = [Strategy_TaskTerminated t]"
| "createComponentConnections (Process_signal (Sig_UserMessage arg v)) = [Strategy_UserMessage arg v]"
| "createComponentConnections (Process_signal (Sig_PhaseChanged p)) = []"
| "createComponentConnections (Process_signal Sig_ProcTerminated) = [Emit_watchdogStop]"
| "createComponentConnections Watchdog_ready = [Strategy_watchdogReady]"
| "createComponentConnections Context_error = [Emit_watchdogStop]"

subsection \<open>Which monitors are created\<close>

fun monitor_type_name :: "any_monitor \<Rightarrow> QString" where
  "monitor_type_name (ClustSafe_monitor m) = ''clustsafe''"
| "monitor_type_name (GPerf_monitor m) = ''gperf''"
| "monitor_type_name (Random_monitor m) = ''random''"
| "monitor_type_name (PageMigrate_monitor m) = ''pagemigrate''"

definition type_of :: "string_map \<Rightarrow> QString \<Rightarrow> QString" where
  "type_of config name = getConfigOption config (name @ ''.type'') 0"

definition supported_monitors :: "QString set" where
  "supported_monitors = {''clustsafe'', ''gperf'', ''random'', ''pagemigrate''}"

lemma fatal_config [simp]:
  "fatal BAD_CONFIG ''option_missing''" "fatal BAD_CONFIG ''inconsistent''" "fatal UNSUPPORTED ''critical''"
  by (simp_all add: fatal_def fatal_reports_def)

lemma create_monitor_effect:
  assumes "create_monitor env config [] name (ms, c) = (ms', c')"
  shows "map (\<lambda>m. (monitor_id m, monitor_type_name m)) ms' = map (\<lambda>m. (monitor_id m, monitor_type_name m)) ms @
      (if type_of config name \<in> supported_monitors then [(name, type_of config name)] else []) \<and>
    (isError c' \<longleftrightarrow> isError c \<or> configOptionExists config (name @ ''.type'') \<noteq> 1 \<or> type_of config name \<notin> supported_monitors)"
  using assms
  by (auto simp: create_monitor_def Let_def type_of_def supported_monitors_def clustsafe_new_def gperf_new_def
      random_new_def page_migrate_new_def split: if_splits)

lemma create_monitors_effect:
  assumes "fold (create_monitor env config []) names (ms, c) = (ms', c')"
  shows "map (\<lambda>m. (monitor_id m, monitor_type_name m)) ms' = map (\<lambda>m. (monitor_id m, monitor_type_name m)) ms @
      map (\<lambda>n. (n, type_of config n)) (filter (\<lambda>n. type_of config n \<in> supported_monitors) names) \<and>
    (isError c' \<longleftrightarrow> isError c \<or>
       (\<exists>n\<in>set names. configOptionExists config (n @ ''.type'') \<noteq> 1 \<or> type_of config n \<notin> supported_monitors))"
  using assms
proof (induction names arbitrary: ms c)
  case Nil
  then show ?case by simp
next
  case (Cons name names)
  obtain ms1 c1 where m1: "create_monitor env config [] name (ms, c) = (ms1, c1)" by fastforce
  from create_monitor_effect[OF m1] Cons.IH[of ms1 c1] Cons.prems m1 show ?case by auto
qed

text \<open>
  C30. The monitors of a watchdog are those of the option \<open>PerformanceMonitors\<close>, in its order, each of the
  type that is configured for it, except those whose type is not supported. The watchdog enters the
  error state exactly when no monitor is configured, or one of them has no type, more than one type
  or one that is not supported. An identifier that is listed twice is not an error.
\<close>

theorem monitors_created:
  assumes "\<not> isError c" and "createPerformanceMonitors env config c = (ms, c')"
  shows "let names = getConfigOptionList config ''PerformanceMonitors'' in
    map (\<lambda>m. (monitor_id m, monitor_type_name m)) ms =
      map (\<lambda>n. (n, type_of config n)) (filter (\<lambda>n. type_of config n \<in> supported_monitors) names) \<and>
    (isError c' \<longleftrightarrow> names = [] \<or>
       (\<exists>n\<in>set names. configOptionExists config (n @ ''.type'') \<noteq> 1 \<or> type_of config n \<notin> supported_monitors))"
proof -
  let ?names = "getConfigOptionList config ''PerformanceMonitors''"
  have f: "fold (create_monitor env config []) ?names ([], if ?names = [] then report BAD_CONFIG ''option_missing'' c else c) = (ms, c')"
    using assms(2) by (simp add: createPerformanceMonitors_def Let_def)
  show ?thesis using create_monitors_effect[OF f] assms(1) by (auto simp: Let_def)
qed

text \<open>The configuration of a program run by noop and watched by a random monitor.\<close>

definition demo_config :: string_map where
  "demo_config = [''PerformanceMonitors'' \<mapsto> [''r''], ''r.type'' \<mapsto> [''random''], ''ControlStrategy'' \<mapsto> [''noop''], ''Exec'' \<mapsto> [''true'']]"

definition demo_wd_env :: wd_env where
  "demo_wd_env = \<lparr>wd_qt = dec_conv, wd_fs = demo_fs, wd_home = None, wd_cpus = 2, wd_topology = two_cpus,
     wd_sensors = demo_sensor_env, wd_fuel = 1, wd_spawns = (\<lambda>_. True),
     wd_start = \<lparr>se_socket = demo_sockets, se_install = 0, se_fork = 42, se_restore = 0, se_tracer = False, se_sigmask = 0,
       se_junk = \<lparr>event_id = 0, msg_arg = 0, msg_val = Fin 0\<rparr>\<rparr>,
     wd_address = id, wd_junk = (demo_sensor, settings_zero, 0, False)\<rparr>"

theorem monitors_created_witness:
  "map monitor_id (fst (createPerformanceMonitors demo_wd_env demo_config (AutopinContext_new ''w''))) = [''r''] \<and>
   \<not> isError (snd (createPerformanceMonitors demo_wd_env demo_config (AutopinContext_new ''w'')))"
proof -
  obtain ms c' where m: "createPerformanceMonitors demo_wd_env demo_config (AutopinContext_new ''w'') = (ms, c')" by fastforce
  from monitors_created[OF _ m] have
    "map (\<lambda>m. (monitor_id m, monitor_type_name m)) ms = [(''r'', ''random'')] \<and> \<not> isError c'"
    by (simp add: demo_config_def getConfigOptionList_def configOptionExists_def type_of_def getConfigOption_def supported_monitors_def)
  then show ?thesis by (auto simp: m)
qed

subsection \<open>Either an error or a running process\<close>

lemma init_comm_addr_running: "init_comm_addr qt config home (op, c) = (op', c') \<Longrightarrow> running op' = running op"
  by (auto simp: init_comm_addr_def Let_def split: if_splits prod.splits)

lemma init_process_running: "init_process qt fs config (op, c) = (op', c') \<Longrightarrow> running op' = running op"
  by (auto simp: init_process_def Let_def split: if_splits prod.splits)

lemma ObservedProcess_init_running:
  assumes "ObservedProcess_init qt fs home config (op, c) = (op', c')"
  shows "running op' = running op"
proof -
  obtain op1 c1 where c1: "init_comm_addr qt config home (op\<lparr>trace := getConfigOptionBool qt config ''Trace'' 0\<rparr>, c) = (op1, c1)"
    by fastforce
  have "running (init_timeout qt config op1) = running op1" by (simp add: init_timeout_def)
  moreover have "init_process qt fs config (init_timeout qt config op1, c1) = (op', c')"
    using assms c1 by (simp add: ObservedProcess_init_def Let_def)
  ultimately show ?thesis using init_comm_addr_running[OF c1] init_process_running by fastforce
qed

lemma initComponents_frame:
  assumes "initComponents env config (d, w) = Some (d', w')"
  shows "running (wd_process d') = running (wd_process d) \<and> wd_emitted d' = wd_emitted d \<and> wd_ready d' = wd_ready d"
proof -
  from assms obtain c where d': "wd_process d' = fst (ObservedProcess_init (wd_qt env) (wd_fs env) (wd_home env) config (wd_process d, c))"
    "wd_emitted d' = wd_emitted d" "wd_ready d' = wd_ready d"
    by (auto simp: initComponents_def Let_def bind_eq_Some_conv case_prod_unfold)
  obtain op c' where "ObservedProcess_init (wd_qt env) (wd_fs env) (wd_home env) config (wd_process d, c) = (op, c')" by fastforce
  with ObservedProcess_init_running[OF this] d' show ?thesis by simp
qed

lemma start_announces:
  assumes "ObservedProcess_start env (op, cm, c) = Some (sigs, op', cm', c')"
  shows "running op' \<and> sigs = [Sig_TaskCreated (op_pid op')]"
  using assms by (auto simp: ObservedProcess_start_def Let_def split: option.splits prod.splits if_splits)

subsection \<open>When running returns\<close>

fun is_gperf :: "any_monitor \<Rightarrow> bool" where
  "is_gperf (GPerf_monitor m) \<longleftrightarrow> True"
| "is_gperf _ \<longleftrightarrow> False"

lemma init_monitor_gperf: "init_monitor env config (m, c) = Some (m', c') \<Longrightarrow> is_gperf m' = is_gperf m"
  by (cases m) auto

lemma init_monitors_gperf:
  "init_monitors env config (ms, c) = Some (ms', c') \<Longrightarrow> map is_gperf ms' = map is_gperf ms"
  by (induction ms arbitrary: c ms' c') (auto split: option.splits dest: init_monitor_gperf)

lemma init_monitor_returns: "\<not> is_gperf m \<Longrightarrow> init_monitor env config (m, c) \<noteq> None"
  by (cases m) simp_all

lemma init_monitors_returns:
  "\<forall>m\<in>set ms. \<not> is_gperf m \<Longrightarrow> init_monitors env config (ms, c) \<noteq> None"
proof (induction ms arbitrary: c)
  case (Cons m ms)
  then obtain m' c' where "init_monitor env config (m, c) = Some (m', c')" using init_monitor_returns[of m env config c] by auto
  with Cons.IH[of c'] Cons.prems show ?case by simp
qed simp

lemma external_init_returns: "command l \<noteq> [] \<Longrightarrow> external_init qt config started (l, c) \<noteq> None"
  by (auto simp: external_init_def configOptionExists_def Let_def split: option.split)

lemma init_loggers_returns: "\<forall>l\<in>set ls. command l \<noteq> [] \<Longrightarrow> init_loggers env config (ls, c) \<noteq> None"
proof (induction ls arbitrary: c)
  case (Cons l ls)
  then obtain l' c' where "external_init (wd_qt env) config (wd_spawns env) (l, c) = Some (l', c')"
    using external_init_returns[of l "wd_qt env" config "wd_spawns env" c] by auto
  with Cons.IH[of c'] Cons.prems show ?case by simp
qed simp

lemma create_loggers_effect:
  "create_loggers names (ls, c) = (ls', c') \<Longrightarrow>
     (\<forall>l\<in>set ls. command l \<noteq> []) \<longrightarrow> (\<forall>l\<in>set ls'. command l \<noteq> []) \<and> (isError c \<longrightarrow> isError c')"
  by (induction names "(ls, c)" arbitrary: ls c rule: create_loggers.induct) (auto simp: external_new_def split: if_splits)

lemma createControlStrategy_effect:
  "createControlStrategy config c = (s, c') \<Longrightarrow> (s = None \<longrightarrow> isError c') \<and> (isError c \<longrightarrow> isError c')"
  by (auto simp: createControlStrategy_def Let_def split: if_splits)

text \<open>What the constructors leave behind when they report no error.\<close>

lemma createComponents_effect:
  assumes "createComponents env config c = (d, c')" and "\<not> isError c'"
  shows "wd_strategy d \<noteq> None \<and> wd_comm d = comm_new \<and> (\<forall>l\<in>set (wd_loggers d). command l \<noteq> []) \<and>
    (\<forall>m\<in>set (wd_monitors d). is_gperf m \<longrightarrow> (\<exists>n\<in>set (getConfigOptionList config ''PerformanceMonitors''). type_of config n = ''gperf''))"
proof -
  obtain ms c1 s c2 ls where ms: "createPerformanceMonitors env config c = (ms, c1)" and s: "createControlStrategy config c1 = (s, c2)"
    and ls: "createDataLoggers config c2 = (ls, c')"
    and d: "wd_monitors d = ms" "wd_strategy d = s" "wd_loggers d = ls" "wd_comm d = comm_new"
    using assms(1) by (auto simp: createComponents_def Let_def split: prod.splits)
  let ?names = "getConfigOptionList config ''PerformanceMonitors''"
  have "map (\<lambda>m. (monitor_id m, monitor_type_name m)) ms =
      map (\<lambda>n. (n, type_of config n)) (filter (\<lambda>n. type_of config n \<in> supported_monitors) ?names)"
    using ms create_monitors_effect[of env config ?names "[]" _ ms c1] by (auto simp: createPerformanceMonitors_def Let_def)
  note types = arg_cong[where f = set, OF this, unfolded set_map set_filter]
  have "\<exists>n\<in>set ?names. type_of config n = ''gperf''" if m: "m \<in> set ms" and g: "is_gperf m" for m
  proof -
    have "monitor_type_name m = ''gperf''" using g by (cases m) simp_all
    moreover obtain n where "n \<in> set ?names" "(monitor_id m, monitor_type_name m) = (n, type_of config n)"
      using subsetD[OF equalityD1[OF types] imageI[OF m]] by blast
    ultimately show ?thesis by auto
  qed
  moreover have "(\<forall>l\<in>set ls. command l \<noteq> []) \<and> s \<noteq> None"
    using create_loggers_effect[of "getConfigOptionList config ''DataLoggers''" "[]" c2 ls c'] createControlStrategy_effect[OF s] ls assms(2)
    by (simp add: createDataLoggers_def)
  ultimately show ?thesis using d by simp
qed

lemma initComponents_returns:
  assumes "wd_strategy d \<noteq> None" and "\<forall>l\<in>set (wd_loggers d). command l \<noteq> []" and "\<forall>m\<in>set (wd_monitors d). \<not> is_gperf m"
  shows "\<exists>d' w'. initComponents env config (d, w) = Some (d', w') \<and> wd_comm d' = wd_comm d \<and> (\<forall>m\<in>set (wd_monitors d'). \<not> is_gperf m)"
proof -
  obtain ms c where ms: "init_monitors env config (wd_monitors d, runtime w) = Some (ms, c)"
    using init_monitors_returns[OF assms(3), of env config "runtime w"] by fastforce
  obtain s where s: "wd_strategy d = Some s" using assms(1) by blast
  have "\<exists>lc. init_loggers env config (wd_loggers d, c) = Some lc" for c
    using init_loggers_returns[OF assms(2)] by blast
  then obtain f where f: "init_loggers env config (wd_loggers d, c) = Some (f c)" for c by metis
  have "\<forall>m\<in>set ms. \<not> is_gperf m" using init_monitors_gperf[OF ms] assms(3) by (metis image_iff list.set_map)
  with ms s f show ?thesis by (simp add: initComponents_def Let_def case_prod_unfold)
qed

lemma startComponents_returns:
  assumes "ObservedProcess_start (wd_start env) (wd_process d, wd_comm d, runtime w) \<noteq> None" and "\<forall>m\<in>set (wd_monitors d). \<not> is_gperf m"
  shows "startComponents env config (d, w) \<noteq> None"
  using assms(1) init_monitors_returns[OF assms(2), of env config] by (auto simp: startComponents_def bind_eq_None_conv case_prod_unfold)

lemma run_returns:
  assumes "slot_watchdogRun env config counter w = None"
    and "\<forall>n\<in>set (getConfigOptionList config ''PerformanceMonitors''). type_of config n \<noteq> ''gperf''"
  shows "\<exists>op c. ObservedProcess_start (wd_start env) (op, comm_new, c) = None"
proof (rule ccontr)
  assume starts: "\<nexists>op c. ObservedProcess_start (wd_start env) (op, comm_new, c) = None"
  obtain c d0 c0 where c: "createContext config counter = (c, counter + 1)" and d0: "createComponents env config c = (d0, c0)"
    by (metis createContext_def prod.collapse)
  with assms(1) have ok: "\<not> isError c0" by (auto simp: slot_watchdogRun_def)
  note e = createComponents_effect[OF d0 ok]
  with assms(2) have "\<forall>m\<in>set (wd_monitors d0). \<not> is_gperf m" by blast
  then obtain d1 w1 where d1: "initComponents env config (d0, w\<lparr>runtime := c0\<rparr>) = Some (d1, w1)" "wd_comm d1 = comm_new"
    "\<forall>m\<in>set (wd_monitors d1). \<not> is_gperf m" using initComponents_returns[of d0 env config "w\<lparr>runtime := c0\<rparr>"] e by auto
  from startComponents_returns[OF _ d1(3), of env w1 config] starts d1(2) have "startComponents env config (d1, w1) \<noteq> None" by metis
  with assms(1) c d0 ok d1(1) show False by (auto simp: slot_watchdogRun_def split: if_splits)
qed

text \<open>Whether the components can be created and initialised without a fatal report.\<close>

definition components_ok :: "wd_env \<Rightarrow> string_map \<Rightarrow> nat \<Rightarrow> world \<Rightarrow> bool" where
  "components_ok env config counter w \<longleftrightarrow>
     (let (d, c) = createComponents env config (fst (createContext config counter)) in
      \<not> isError c \<and>
      (case initComponents env config (d, w\<lparr>runtime := c\<rparr>) of Some (d, w) \<Rightarrow> \<not> isError (runtime w) | None \<Rightarrow> False))"

lemma run_outcome:
  assumes "slot_watchdogRun env config counter w = Some (counter', d, w')"
  shows "counter' = counter + 1 \<and> (wd_ready d \<longleftrightarrow> components_ok env config counter w) \<and>
    (if wd_ready d then running (wd_process d) \<and> wd_emitted d = [Sig_TaskCreated (op_pid (wd_process d))]
     else isError (runtime w') \<and> \<not> running (wd_process d) \<and> wd_emitted d = [])"
proof -
  obtain c d0 c0 where c: "createContext config counter = (c, counter + 1)" and d0: "createComponents env config c = (d0, c0)"
    by (metis createContext_def prod.collapse)
  have fresh: "\<not> running (wd_process d0)" "wd_emitted d0 = []" "\<not> wd_ready d0"
    using d0 by (auto simp: createComponents_def Let_def ObservedProcess_new_def split: prod.splits)
  show ?thesis
  proof (cases "isError c0")
    case True
    with assms c d0 fresh show ?thesis by (auto simp: slot_watchdogRun_def components_ok_def)
  next
    case False
    with assms c d0 obtain d1 w1 where d1: "initComponents env config (d0, w\<lparr>runtime := c0\<rparr>) = Some (d1, w1)"
      and rest: "if isError (runtime w1) then (counter', d, w') = (counter + 1, d1, w1)
        else counter' = counter + 1 \<and> startComponents env config (d1, w1) = Some (d, w')"
      by (auto simp: slot_watchdogRun_def bind_eq_Some_conv split: if_splits)
    from initComponents_frame[OF d1] fresh have "\<not> running (wd_process d1)" "wd_emitted d1 = []" "\<not> wd_ready d1" by simp_all
    with rest show ?thesis
      using c d0 d1 False
      by (auto simp: startComponents_def components_ok_def bind_eq_Some_conv dest: start_announces split: if_splits)
  qed
qed


lemma demo_lookup:
  "getConfigOptionList demo_config ''PerformanceMonitors'' = [''r'']" "getConfigOptionList demo_config ''r.type'' = [''random'']"
  "getConfigOptionList demo_config ''ControlStrategy'' = [''noop'']" "getConfigOptionList demo_config ''Exec'' = [''true'']"
  "k \<notin> {''PerformanceMonitors'', ''r.type'', ''ControlStrategy'', ''Exec''} \<Longrightarrow> getConfigOptionList demo_config k = []"
  by (simp_all add: demo_config_def getConfigOptionList_def)

lemma demo_run:
  "\<exists>d w'. slot_watchdogRun demo_wd_env demo_config 0 \<lparr>pinning = [], affinity_calls = [], runtime = AutopinContext_new []\<rparr>
      = Some (1, d, w') \<and> wd_ready d \<and> op_pid (wd_process d) = 42"
  by (simp add: slot_watchdogRun_def createContext_def createComponents_def createPerformanceMonitors_def create_monitor_def
      createControlStrategy_def createDataLoggers_def initComponents_def startComponents_def configOptionExists_def
      getConfigOption_def demo_lookup Let_def demo_wd_env_def ObservedProcess_init_def init_comm_addr_def init_timeout_def
      init_process_def noop_init_def init_interval_def ControlStrategy_init_def ObservedProcess_start_def ObservedProcess_new_def
      createProcess_def getConfigOptionBool_def getConfigOptionInt_def)


end
