(* ===== verification/Host.thy ===== *)
theory Host
  imports Watchdog
begin

text \<open>
  Several watchdogs on one host. Each has its own process, strategy and runtime context; the vector
  \<open>ControlStrategy::pinning\<close> is static, so all of them share it. Their slots run one after the other in
  the event loop, in any order. The strategies are those that use the shared pinning (compact, scatter and
  noop, the last one with random monitors); a member is a watchdog's process, strategy and context.
\<close>

datatype pinner = Compact_pinner compact | Scatter_pinner scatter | Noop_pinner strategy "random list"

record host_env =
  h_topology :: cpu_info
  h_affinity :: affinity_oracle
  h_sort :: sorter
  h_random :: random_env

fun pinner_event ::
  "host_env \<Rightarrow> observed_process \<Rightarrow> task_event \<Rightarrow> pinner \<times> world \<Rightarrow> (pinner \<times> world) option" where
  "pinner_event env proc (Created t) (Compact_pinner s, w) =
     map_option (\<lambda>(s, w). (Compact_pinner s, w)) (compact_slot_TaskCreated (h_topology env) (h_affinity env) proc t (s, w))"
| "pinner_event env proc (Terminated t) (Compact_pinner s, w) =
     map_option (\<lambda>(s, w). (Compact_pinner s, w))
       (slot_TaskTerminated (compact_getPinning (h_topology env) proc) (h_affinity env) proc t (s, w))"
| "pinner_event env proc (Created t) (Scatter_pinner s, w) =
     map_option (\<lambda>(s, w). (Scatter_pinner s, w))
       (scatter_slot_TaskCreated (h_sort env) (h_topology env) (h_affinity env) proc t (s, w))"
| "pinner_event env proc (Terminated t) (Scatter_pinner s, w) =
     map_option (\<lambda>(s, w). (Scatter_pinner s, w))
       (scatter_slot_TaskTerminated (h_sort env) (h_topology env) (h_affinity env) proc t (s, w))"
| "pinner_event env proc (Created t) (Noop_pinner s ms, w) =
     map_option (\<lambda>(s, w, ms). (Noop_pinner s ms, w))
       (noop_slot_TaskCreated (random_ops (h_random env)) (h_affinity env) proc t (s, w, ms))"
| "pinner_event env proc (Terminated t) (Noop_pinner s ms, w) =
     map_option (\<lambda>(s, w, ms). (Noop_pinner s ms, w))
       (noop_slot_TaskTerminated (random_ops (h_random env)) (h_affinity env) proc t (s, w, ms))"

record host =
  h_pinning :: Pinning
  h_calls :: affinity_calls
  members :: "(observed_process \<times> pinner \<times> apcontext) list"

definition host_step :: "host_env \<Rightarrow> nat \<times> task_event \<Rightarrow> host \<Rightarrow> host option" where
  "host_step env = (\<lambda>(k, e) h.
     (if k < length (members h) then
        case members h ! k of (proc, s, c) \<Rightarrow>
          (case pinner_event env proc e (s, \<lparr>pinning = h_pinning h, affinity_calls = h_calls h, runtime = c\<rparr>) of
             None \<Rightarrow> None
           | Some (s, w) \<Rightarrow> Some (h\<lparr>h_pinning := pinning w, h_calls := affinity_calls w,
               members := (members h)[k := (proc, s, runtime w)]\<rparr>))
      else Some h))"

fun host_run :: "host_env \<Rightarrow> (nat \<times> task_event) list \<Rightarrow> host \<Rightarrow> host option" where
  "host_run env [] h = Some h"
| "host_run env (ke # kes) h = (case host_step env ke h of None \<Rightarrow> None | Some h \<Rightarrow> host_run env kes h)"

subsection \<open>Every strategy leaves the others alone\<close>

lemma each_monitor_context:
  "(\<And>m c. snd (f (m, c)) = c) \<Longrightarrow> snd (each_monitor f ms c) = c"
proof (induction ms)
  case Nil
  then show ?case by simp
next
  case (Cons m ms)
  obtain m' c' where m': "f (m, c) = (m', c')" by fastforce
  with Cons.prems[of m c] have "c' = c" by simp
  with Cons m' show ?case by (simp add: split_beta)
qed

lemma random_context:
  "snd (op_start (random_ops env) t (m, c)) = c" "snd (op_clear (random_ops env) t (m, c)) = c"
  by (simp_all add: random_ops_def random_start_def random_clear_def split_beta Let_def)

lemma pinner_event_leaves_others:
  assumes "pinner_event env proc e (s, w) = Some (s', w')"
  shows "leaves_others (op_pid proc) w w'"
proof (cases s)
  case (Compact_pinner x)
  with assms show ?thesis
    by (cases e) (auto simp: compact_slot_TaskCreated_def
        dest: compact.created_leaves_others[OF refl] compact.terminated_leaves_others[OF refl])
next
  case (Scatter_pinner x)
  with assms show ?thesis
    by (cases e) (auto simp: scatter_slot_TaskCreated_def scatter_slot_TaskTerminated_def Let_def split: option.splits
        dest: scatter.created_leaves_others[OF refl] scatter.terminated_leaves_others[OF refl])
next
  case (Noop_pinner x ms)
  have starts: "snd (each_monitor (op_start (random_ops (h_random env)) t) ms c) = c"
    and clears: "snd (each_monitor (op_clear (random_ops (h_random env)) t) ms c) = c" for t c
    by (simp_all add: each_monitor_context random_context)
  show ?thesis
  proof (cases e)
    case (Created t)
    with assms Noop_pinner show ?thesis using starts[of t "runtime w"]
      by (auto simp: noop_slot_TaskCreated_def base_created leaves_others_def split: prod.splits)
  next
    case (Terminated t)
    with assms Noop_pinner Terminated leaves_others_clear[of "op_pid proc" w t] show ?thesis
      using clears[of t "runtime w"]
      by (auto simp: noop_slot_TaskTerminated_def base_terminated leaves_others_def split: prod.splits)
  qed
qed

subsection \<open>Compact and noop always return\<close>

fun is_scatter :: "pinner \<Rightarrow> bool" where
  "is_scatter (Scatter_pinner s) \<longleftrightarrow> True"
| "is_scatter _ \<longleftrightarrow> False"

lemma compact_change_returns:
  assumes "distances_known ci (length (pinning w))"
  shows "\<exists>s' w'. changePinning (compact_getPinning ci proc) aff proc (s, w) = Some (s', w')"
proof -
  have "\<exists>new s'. compact_getPinning ci proc (pinning w) s = Some (new, s')"
    using compact_getPinning_nearest[OF assms, of s proc] by (cases "compact.new_task_tid s = 0") (auto simp: compact_getPinning_def)
  then obtain new s' where "compact_getPinning ci proc (pinning w) s = Some (new, s')" by blast
  from compact.change_outcome[OF refl this, of aff] show ?thesis by blast
qed

lemma pinner_event_returns:
  assumes "distances_known (h_topology env) (length (pinning w))" and "\<not> is_scatter s"
  shows "\<exists>s' w'. pinner_event env proc e (s, w) = Some (s', w') \<and> \<not> is_scatter s'"
proof (cases s)
  case (Compact_pinner x)
  have "\<exists>s' w'. compact_slot_TaskCreated (h_topology env) (h_affinity env) proc t (x, w) = Some (s', w')" for t
    using compact_change_returns[OF assms(1), of proc "h_affinity env" "x\<lparr>compact.new_task_tid := t, tasks := tasks x @ [t]\<rparr>"]
    by (auto simp: compact_slot_TaskCreated_def slot_TaskCreated_def)
  moreover have "\<exists>s' w'. slot_TaskTerminated (compact_getPinning (h_topology env) proc) (h_affinity env) proc t (x, w) = Some (s', w')" for t
    using assms(1) by (simp add: slot_TaskTerminated_def Let_def compact_change_returns)
  ultimately show ?thesis by (cases e) (force simp: Compact_pinner)+
next
  case (Noop_pinner x ms)
  then show ?thesis
    by (cases e) (auto simp: Noop_pinner noop_slot_TaskCreated_def noop_slot_TaskTerminated_def base_created base_terminated
        split: option.splits prod.splits)
next
  case (Scatter_pinner x)
  with assms(2) show ?thesis by simp
qed

subsection \<open>Watchdogs do not interfere\<close>

text \<open>What a run does not change: the CPUs nobody of their own process acts on, the processes, the error states.\<close>

definition undisturbed :: "(nat \<times> task_event) list \<Rightarrow> host \<Rightarrow> host \<Rightarrow> bool" where
  "undisturbed kes h h' \<longleftrightarrow> length (h_pinning h') = length (h_pinning h) \<and> map fst (members h') = map fst (members h) \<and>
     map (\<lambda>m. isError (snd (snd m))) (members h') = map (\<lambda>m. isError (snd (snd m))) (members h) \<and>
     (\<forall>i<length (h_pinning h). h_pinning h ! i \<noteq> emptyTask \<and>
        (\<forall>k\<in>fst ` set kes. k < length (members h) \<longrightarrow> op_pid (fst (members h ! k)) \<noteq> t_pid (h_pinning h ! i)) \<longrightarrow>
        h_pinning h' ! i = h_pinning h ! i)"

lemma host_step_undisturbed:
  assumes "host_step env ke h = Some h'"
  shows "undisturbed [ke] h h'"
proof -
  obtain k e where ke: "ke = (k, e)" by fastforce
  show ?thesis
  proof (cases "k < length (members h)")
    case False
    with assms ke show ?thesis by (simp add: host_step_def undisturbed_def)
  next
    case True
    obtain proc s c where m: "members h ! k = (proc, s, c)" by (metis prod_cases3)
    let ?w = "\<lparr>pinning = h_pinning h, affinity_calls = h_calls h, runtime = c\<rparr>"
    from assms ke True m obtain s' w' where e: "pinner_event env proc e (s, ?w) = Some (s', w')"
      and h': "h' = h\<lparr>h_pinning := pinning w', h_calls := affinity_calls w', members := (members h)[k := (proc, s', runtime w')]\<rparr>"
      by (auto simp: host_step_def split: option.splits)
    have l: "length (pinning w') = length (h_pinning h)"
      "\<And>i. i < length (h_pinning h) \<Longrightarrow> foreign (op_pid proc) (h_pinning h ! i) \<Longrightarrow> pinning w' ! i = h_pinning h ! i"
      "isError (runtime w') \<longleftrightarrow> isError c"
      using pinner_event_leaves_others[OF e] by (simp_all add: leaves_others_def)
    have "map fst ((members h)[k := (proc, s', runtime w')]) = map fst (members h)"
      "map (\<lambda>m. isError (snd (snd m))) ((members h)[k := (proc, s', runtime w')]) = map (\<lambda>m. isError (snd (snd m))) (members h)"
      using True m l(3) by (auto intro!: nth_equalityI simp: nth_list_update split: if_splits)
    with l(1,2) m True show ?thesis by (auto simp: undisturbed_def h' ke foreign_def)
  qed
qed

lemma undisturbed_trans:
  assumes "undisturbed a h h1" and "undisturbed b h1 h2"
  shows "undisturbed (a @ b) h h2"
proof -
  have "length (members h1) = length (members h)" "\<And>k. k < length (members h) \<Longrightarrow> fst (members h1 ! k) = fst (members h ! k)"
    using assms(1) unfolding undisturbed_def by (metis length_map nth_map)+
  with assms show ?thesis by (auto simp: undisturbed_def image_Un)
qed

lemma host_run_undisturbed: "host_run env kes h = Some h' \<Longrightarrow> undisturbed kes h h'"
proof (induction kes arbitrary: h)
  case Nil
  then show ?case by (simp add: undisturbed_def)
next
  case (Cons ke kes)
  then obtain h1 where h1: "host_step env ke h = Some h1" "host_run env kes h1 = Some h'" by (auto split: option.splits)
  from undisturbed_trans[OF host_step_undisturbed[OF h1(1)] Cons.IH[OF h1(2)]] show ?case by simp
qed

lemma host_run_returns:
  assumes "distances_known (h_topology env) (length (h_pinning h))" and "\<forall>m\<in>set (members h). \<not> is_scatter (fst (snd m))"
  shows "host_run env kes h \<noteq> None"
  using assms
proof (induction kes arbitrary: h)
  case Nil
  then show ?case by simp
next
  case (Cons ke kes)
  obtain k e where ke: "ke = (k, e)" by fastforce
  show ?case
  proof (cases "k < length (members h)")
    case False
    with Cons ke show ?thesis by (simp add: host_step_def)
  next
    case True
    obtain proc s c where m: "members h ! k = (proc, s, c)" by (metis prod_cases3)
    have "(proc, s, c) \<in> set (members h)" using m True nth_mem by metis
    then have "\<not> is_scatter s" using Cons.prems(2) by fastforce
    with pinner_event_returns[of env "\<lparr>pinning = h_pinning h, affinity_calls = h_calls h, runtime = c\<rparr>" s proc e] Cons.prems(1)
    obtain s' w' where e: "pinner_event env proc e (s, \<lparr>pinning = h_pinning h, affinity_calls = h_calls h, runtime = c\<rparr>) = Some (s', w')"
      and s': "\<not> is_scatter s'" by auto
    let ?h = "h\<lparr>h_pinning := pinning w', h_calls := affinity_calls w', members := (members h)[k := (proc, s', runtime w')]\<rparr>"
    have h1: "host_step env ke h = Some ?h" using True m e by (simp add: host_step_def ke)
    have "length (h_pinning ?h) = length (h_pinning h)" using host_step_undisturbed[OF h1] by (simp add: undisturbed_def)
    moreover have "\<forall>m\<in>set (members ?h). \<not> is_scatter (fst (snd m))"
      using Cons.prems(2) s' set_update_subset_insert[of "members h" k "(proc, s', runtime w')"] by fastforce
    ultimately show ?thesis using Cons.IH[of ?h] Cons.prems(1) h1 by simp
  qed
qed

text \<open>
  C7. Watchdogs that share the CPUs of a host do not interfere, whatever tasks their processes create and
  terminate and in whatever order: a CPU that is taken keeps its task unless its own process acts,
  no watchdog gets into the error state because of another one's pinning (or leaves it), and the number of CPUs stays
  what it was. Only the strategy scatter can fail to return.
\<close>

theorem watchdogs_do_not_interfere:
  assumes "distances_known (h_topology env) (length (h_pinning h))"
  shows "(case host_run env kes h of
      Some h' \<Rightarrow> undisturbed kes h h'
    | None \<Rightarrow> \<exists>m\<in>set (members h). is_scatter (fst (snd m)))"
proof (cases "host_run env kes h")
  case None
  with host_run_returns[OF assms, of kes] show ?thesis by fastforce
next
  case (Some h')
  with host_run_undisturbed[OF this] show ?thesis by simp
qed

definition demo_host_env :: host_env where
  "demo_host_env = \<lparr>h_topology = two_cpus, h_affinity = (\<lambda>_ _ _. 0), h_sort = isort, h_random = demo_random\<rparr>"

definition demo_shared_host :: host where
  "demo_shared_host = \<lparr>h_pinning = [\<lparr>t_pid = 5, t_tid = 5\<rparr>, emptyTask], h_calls = [],
     members = [(demo_op, Compact_pinner compact_new, AutopinContext_new ''a''),
       (demo_op\<lparr>op_pid := 5\<rparr>, Noop_pinner ControlStrategy_new [], AutopinContext_new ''b'')]\<rparr>"

theorem watchdogs_do_not_interfere_witness:
  "\<exists>h'. host_run demo_host_env [(0, Created 8), (0, Created 9), (0, Terminated 8)] demo_shared_host = Some h' \<and>
     h_pinning h' ! 0 = \<lparr>t_pid = 5, t_tid = 5\<rparr>"
proof -
  have "distances_known (h_topology demo_host_env) (length (h_pinning demo_shared_host))"
    by (auto simp: demo_host_env_def demo_shared_host_def distances_known_def two_cpus_def getCpuDistance_def less_Suc_eq vec_at_def)
  from watchdogs_do_not_interfere[OF this, of "[(0, Created 8), (0, Created 9), (0, Terminated 8)]"] show ?thesis
    by (auto simp: demo_shared_host_def undisturbed_def emptyTask_def demo_op_def ObservedProcess_new_def split: option.splits
        dest: spec[of _ 0])
qed

end
