(* ===== verification/Follow.thy ===== *)
theory Follow
  imports Host
begin

text \<open>
  What the strategies do with the tasks they are told about, seen from outside: each of the slots
  \<open>slot_TaskCreated\<close> and \<open>slot_TaskTerminated\<close> gives or takes at most one CPU, that of its task. The locale
  \<open>task_follower\<close> states this contract; it holds for compact, scatter and noop. Its consequences are that a
  process never holds two CPUs for one task, and no CPU for a task it does not know.
  The polling timer \<open>ControlStrategy::slot_timer\<close> is verified against it.
\<close>

subsection \<open>The CPUs of a process\<close>

definition own_tasks :: "int \<Rightarrow> Pinning \<Rightarrow> int set" where
  "own_tasks p pins = t_tid ` {t \<in> set pins. t \<noteq> emptyTask \<and> t_pid t = p}"

definition own_once :: "int \<Rightarrow> Pinning \<Rightarrow> bool" where
  "own_once p pins \<longleftrightarrow> (\<forall>i<length pins. \<forall>j<length pins.
     pins ! i = pins ! j \<and> pins ! i \<noteq> emptyTask \<and> t_pid (pins ! i) = p \<longrightarrow> i = j)"

lemma Task_eta: "\<lparr>t_pid = t_pid x, t_tid = t_tid x\<rparr> = x"
  by simp

lemma own_tasks_iff: "t \<in> own_tasks p pins \<longleftrightarrow> \<lparr>t_pid = p, t_tid = t\<rparr> \<in> set pins \<and> \<lparr>t_pid = p, t_tid = t\<rparr> \<noteq> emptyTask"
proof
  assume "t \<in> own_tasks p pins"
  then obtain x where x: "x \<in> set pins" "x \<noteq> emptyTask" "t_pid x = p" "t_tid x = t" by (auto simp: own_tasks_def)
  have eq: "\<lparr>t_pid = p, t_tid = t\<rparr> = x" using Task_eta[of x] unfolding x(3,4) .
  show "\<lparr>t_pid = p, t_tid = t\<rparr> \<in> set pins \<and> \<lparr>t_pid = p, t_tid = t\<rparr> \<noteq> emptyTask"
    unfolding eq by (intro conjI x(1,2))
next
  assume t: "\<lparr>t_pid = p, t_tid = t\<rparr> \<in> set pins \<and> \<lparr>t_pid = p, t_tid = t\<rparr> \<noteq> emptyTask"
  show "t \<in> own_tasks p pins" unfolding own_tasks_def
    by (rule image_eqI[of _ _ "\<lparr>t_pid = p, t_tid = t\<rparr>"]) (use t in simp_all)
qed

text \<open>Giving a free CPU to a task, or not.\<close>

definition may_place :: "int \<Rightarrow> int \<Rightarrow> Pinning \<Rightarrow> Pinning \<Rightarrow> bool" where
  "may_place p t pins pins' \<longleftrightarrow>
     pins' = pins \<or> (\<exists>i<length pins. pins ! i = emptyTask \<and> pins' = pins[i := \<lparr>t_pid = p, t_tid = t\<rparr>])"

lemma may_place_own:
  assumes "may_place p t pins pins'"
  shows "own_tasks p pins \<subseteq> own_tasks p pins' \<and> own_tasks p pins' \<subseteq> insert t (own_tasks p pins)"
proof (cases "pins' = pins")
  case True
  then show ?thesis by blast
next
  case False
  with assms obtain i where i: "i < length pins" "pins ! i = emptyTask" "pins' = pins[i := \<lparr>t_pid = p, t_tid = t\<rparr>]"
    by (auto simp: may_place_def)
  have "x \<in> set pins'" if "x \<in> set pins" "x \<noteq> emptyTask" for x
    using that i by (metis in_set_conv_nth length_list_update nth_list_update_neq)
  moreover have "set pins' \<subseteq> insert \<lparr>t_pid = p, t_tid = t\<rparr> (set pins)" by (simp add: i(3) set_update_subset_insert)
  ultimately show ?thesis by (auto simp: own_tasks_iff)
qed

lemma may_place_once:
  assumes "may_place p t pins pins'" and "own_once p pins" and "t \<notin> own_tasks p pins"
  shows "own_once p pins'"
proof (cases "pins' = pins")
  case True
  with assms(2) show ?thesis by simp
next
  case False
  let ?t = "\<lparr>t_pid = p, t_tid = t\<rparr>"
  from False assms(1) obtain i where i: "i < length pins" "pins ! i = emptyTask" "pins' = pins[i := ?t]"
    by (auto simp: may_place_def)
  have "?t \<noteq> emptyTask" using False i by (metis list_update_id)
  with assms(3) have "pins ! j \<noteq> ?t" if "j < length pins" for j
    using nth_mem[OF that] by (auto simp: own_tasks_iff)
  note fresh = this
  show ?thesis unfolding own_once_def i(3)
  proof (intro allI impI)
    fix j k
    assume jk: "j < length (pins[i := ?t])" "k < length (pins[i := ?t])"
      "pins[i := ?t] ! j = pins[i := ?t] ! k \<and> pins[i := ?t] ! j \<noteq> emptyTask \<and> t_pid (pins[i := ?t] ! j) = p"
    show "j = k"
      using jk fresh[of j] fresh[of k] assms(2)[unfolded own_once_def, rule_format, of j k]
      by (auto simp: nth_update split: if_splits)
  qed
qed

lemma find_assign_own:
  assumes "own_once p pins"
  shows "own_tasks p (find_assign \<lparr>t_pid = p, t_tid = t\<rparr> emptyTask pins) = own_tasks p pins - {t} \<and>
    own_once p (find_assign \<lparr>t_pid = p, t_tid = t\<rparr> emptyTask pins)"
proof -
  let ?t = "\<lparr>t_pid = p, t_tid = t\<rparr>"
  show ?thesis
  proof (cases "?t \<in> set pins \<and> ?t \<noteq> emptyTask")
    case False
    then have "find_assign ?t emptyTask pins = pins" by (auto simp: find_assign_absent)
    with False assms show ?thesis by (auto simp: own_tasks_iff)
  next
    case True
    then obtain i where i: "i < length pins" "pins ! i = ?t" by (metis in_set_conv_nth)
    have only: "j = i" if "j < length pins" "pins ! j = ?t" for j
      using assms[unfolded own_once_def, rule_format, of j i] i that True by simp
    have eq: "find_assign ?t emptyTask pins = pins[i := emptyTask]" using find_assign_unique[OF i only] by simp
    have mem: "x \<in> set (pins[i := emptyTask]) \<longleftrightarrow> x \<in> set pins \<and> x \<noteq> ?t" if "x \<noteq> emptyTask" for x
    proof
      assume x: "x \<in> set (pins[i := emptyTask])"
      then have "x \<in> set pins" using set_update_subset_insert[of pins i emptyTask] that by blast
      moreover from x that obtain j where "j < length pins" "j \<noteq> i" "pins ! j = x"
        by (metis in_set_conv_nth length_list_update nth_list_update_eq nth_list_update_neq)
      ultimately show "x \<in> set pins \<and> x \<noteq> ?t" using only by blast
    next
      assume "x \<in> set pins \<and> x \<noteq> ?t"
      then obtain j where "j < length pins" "j \<noteq> i" "pins ! j = x" using i(2) by (metis in_set_conv_nth)
      then show "x \<in> set (pins[i := emptyTask])" by (metis length_list_update nth_list_update_neq nth_mem)
    qed
    have "own_tasks p (pins[i := emptyTask]) = own_tasks p pins - {t}"
      using mem by (auto simp: own_tasks_iff)
    moreover have "own_once p (pins[i := emptyTask])"
      using assms i(1) unfolding own_once_def by (auto simp: nth_update)
    ultimately show ?thesis by (simp add: eq)
  qed
qed

subsection \<open>The placement of a process\<close>

text \<open>The abstract view of the vector: the CPU of each task of the process.\<close>

type_synonym placement = "int \<rightharpoonup> nat"

definition cpu_map :: "int \<Rightarrow> Pinning \<Rightarrow> placement" where
  "cpu_map p pins t =
     (let x = \<lparr>t_pid = p, t_tid = t\<rparr>
      in if x \<noteq> emptyTask \<and> x \<in> set pins then Some (length (takeWhile (\<lambda>y. y \<noteq> x) pins)) else None)"

lemma takeWhile_member: "x \<in> set xs \<Longrightarrow> length (takeWhile (\<lambda>y. y \<noteq> x) xs) < length xs"
  by (induction xs) auto

lemma cpu_map_Some:
  assumes "own_once p pins"
  shows "cpu_map p pins t = Some i \<longleftrightarrow> i < length pins \<and> pins ! i = \<lparr>t_pid = p, t_tid = t\<rparr> \<and> pins ! i \<noteq> emptyTask"
proof
  let ?x = "\<lparr>t_pid = p, t_tid = t\<rparr>"
  assume i: "cpu_map p pins t = Some i"
  then have x: "?x \<in> set pins" "?x \<noteq> emptyTask" "i = length (takeWhile (\<lambda>y. y \<noteq> ?x) pins)"
    by (auto simp: cpu_map_def Let_def split: if_splits)
  then have "i < length pins" by (simp add: takeWhile_member)
  with nth_length_takeWhile[of "\<lambda>y. y \<noteq> ?x" pins] x show "i < length pins \<and> pins ! i = ?x \<and> pins ! i \<noteq> emptyTask" by auto
next
  let ?x = "\<lparr>t_pid = p, t_tid = t\<rparr>"
  assume i: "i < length pins \<and> pins ! i = ?x \<and> pins ! i \<noteq> emptyTask"
  let ?n = "length (takeWhile (\<lambda>y. y \<noteq> ?x) pins)"
  have x: "?x \<in> set pins" using i nth_mem[of i pins] by simp
  then have n: "?n < length pins" by (rule takeWhile_member)
  have eq: "pins ! i = ?x" and ne: "?x \<noteq> emptyTask" and l: "i < length pins" using i by auto
  have "pins ! ?n = ?x" using nth_length_takeWhile[OF n] by simp
  then have "?n = i" using ne by (intro assms[unfolded own_once_def, rule_format, OF n l]) (simp add: eq)
  with x ne show "cpu_map p pins t = Some i" by (simp add: cpu_map_def Let_def)
qed

lemma dom_cpu_map: "dom (cpu_map p pins) = own_tasks p pins"
  by (auto simp: cpu_map_def own_tasks_iff Let_def split: if_splits)

lemma cpu_scan_eq: "cpu_scan x pins c = (if x \<in> set pins then c + int (length (takeWhile (\<lambda>y. y \<noteq> x) pins)) else -1)"
  by (induction pins arbitrary: c) auto

text \<open>\<open>getCpuByTask\<close> is the lookup.\<close>

lemma getCpuByTask_lookup:
  assumes "op_pid proc \<noteq> 0"
  shows "getCpuByTask proc t w = (case cpu_map (op_pid proc) (pinning w) t of Some i \<Rightarrow> int i | None \<Rightarrow> -1)"
  using assms by (simp add: getCpuByTask_def cpu_scan_eq cpu_map_def emptyTask_def Let_def)

text \<open>What the slots may do to the placement.\<close>

fun placement_step :: "task_event \<Rightarrow> Pinning \<Rightarrow> placement \<Rightarrow> placement \<Rightarrow> bool" where
  "placement_step (Created t) pins m m' \<longleftrightarrow> m' = m \<or> (\<exists>i<length pins. pins ! i = emptyTask \<and> m' = m(t \<mapsto> i))"
| "placement_step (Terminated t) pins m m' \<longleftrightarrow> m' = m(t := None)"

lemma cpu_map_eqI:
  assumes "own_once p pins" and "\<And>t i. m t = Some i \<longleftrightarrow> i < length pins \<and> pins ! i = \<lparr>t_pid = p, t_tid = t\<rparr> \<and> pins ! i \<noteq> emptyTask"
  shows "cpu_map p pins = m"
proof
  fix t
  show "cpu_map p pins t = m t"
  proof (cases "m t")
    case None
    have "cpu_map p pins t \<noteq> Some i" for i using assms(2)[of t i] cpu_map_Some[OF assms(1), of t i] None by auto
    then show ?thesis using None by (metis not_Some_eq)
  next
    case (Some i)
    with assms(2)[of t i] cpu_map_Some[OF assms(1), of t i] have "cpu_map p pins t = Some i" by blast
    with Some show ?thesis by simp
  qed
qed

lemma may_place_placement:
  assumes "may_place p t pins pins'" and "own_once p pins" and "t \<notin> own_tasks p pins"
  shows "placement_step (Created t) pins (cpu_map p pins) (cpu_map p pins')"
proof (cases "pins' = pins")
  case False
  let ?x = "\<lparr>t_pid = p, t_tid = t\<rparr>"
  from False assms(1) obtain i where i: "i < length pins" "pins ! i = emptyTask" "pins' = pins[i := ?x]"
    by (auto simp: may_place_def)
  have x: "?x \<noteq> emptyTask" using False i by (metis list_update_id)
  then have fresh: "pins ! j \<noteq> ?x" if "j < length pins" for j
    using assms(3) nth_mem[OF that] by (auto simp: own_tasks_iff)
  have "cpu_map p pins' = (cpu_map p pins)(t \<mapsto> i)"
    using i x fresh by (intro cpu_map_eqI may_place_once[OF assms]) (auto simp: cpu_map_Some[OF assms(2)] nth_list_update split: if_splits)
  with i show ?thesis by auto
qed simp

lemma find_assign_placement:
  assumes "own_once p pins"
  shows "placement_step (Terminated t) pins (cpu_map p pins) (cpu_map p (find_assign \<lparr>t_pid = p, t_tid = t\<rparr> emptyTask pins))"
proof -
  let ?x = "\<lparr>t_pid = p, t_tid = t\<rparr>" and ?pins = "find_assign \<lparr>t_pid = p, t_tid = t\<rparr> emptyTask pins"
  have gone: "t \<notin> own_tasks p ?pins" and once: "own_once p ?pins" using find_assign_own[OF assms, of t] by auto
  have same: "?pins ! i = y \<and> ?pins ! i \<noteq> emptyTask \<longleftrightarrow> pins ! i = y \<and> pins ! i \<noteq> emptyTask" if "i < length pins" "y \<noteq> ?x" for i y
    using find_assign_nth[OF that(1), of ?x emptyTask] that(2) by auto
  have "cpu_map p ?pins = (cpu_map p pins)(t := None)"
  proof (rule cpu_map_eqI[OF once])
    fix u i
    show "((cpu_map p pins)(t := None)) u = Some i \<longleftrightarrow> i < length ?pins \<and> ?pins ! i = \<lparr>t_pid = p, t_tid = u\<rparr> \<and> ?pins ! i \<noteq> emptyTask"
    proof (cases "u = t")
      case True
      have "?pins ! i \<noteq> ?x \<or> ?x = emptyTask" if "i < length ?pins"
        using gone[unfolded own_tasks_iff] nth_mem[OF that] by metis
      with True show ?thesis by auto
    next
      case False
      with same[of i "\<lparr>t_pid = p, t_tid = u\<rparr>"] show ?thesis by (auto simp: cpu_map_Some[OF assms])
    qed
  qed
  then show ?thesis by simp
qed

subsection \<open>The contract\<close>

locale task_follower =
  fixes created :: "int \<Rightarrow> 's \<times> world \<Rightarrow> ('s \<times> world) option"
    and terminated :: "int \<Rightarrow> 's \<times> world \<Rightarrow> ('s \<times> world) option"
    and known :: "'s \<Rightarrow> int list"
    and idle :: "'s \<Rightarrow> bool"
    and p :: int
  assumes created_effect: "created t (s, w) = Some (s', w') \<Longrightarrow> idle s \<Longrightarrow>
      idle s' \<and> known s' = known s @ [t] \<and> may_place p t (pinning w) (pinning w')"
    and terminated_effect: "terminated t (s, w) = Some (s', w') \<Longrightarrow> idle s \<Longrightarrow>
      idle s' \<and> known s' = remove1 t (known s) \<and>
      pinning w' = find_assign \<lparr>t_pid = p, t_tid = t\<rparr> emptyTask (pinning w)"
begin

lemma created_own:
  assumes "created t (s, w) = Some (s', w')" and "idle s" and "own_once p (pinning w)" and "t \<notin> own_tasks p (pinning w)"
  shows "idle s' \<and> own_once p (pinning w') \<and> own_tasks p (pinning w') \<subseteq> insert t (own_tasks p (pinning w)) \<and>
    own_tasks p (pinning w) \<subseteq> own_tasks p (pinning w')"
  using created_effect[OF assms(1,2)] may_place_own may_place_once assms(3,4) by blast

lemma terminated_own:
  assumes "terminated t (s, w) = Some (s', w')" and "idle s" and "own_once p (pinning w)"
  shows "idle s' \<and> own_once p (pinning w') \<and> own_tasks p (pinning w') = own_tasks p (pinning w) - {t}"
  using terminated_effect[OF assms(1,2)] find_assign_own[OF assms(3), of t] by simp

text \<open>Both slots refine the steps of the placement.\<close>

lemma created_placement:
  assumes "created t (s, w) = Some (s', w')" and "idle s" and "own_once p (pinning w)" and "t \<notin> own_tasks p (pinning w)"
  shows "placement_step (Created t) (pinning w) (cpu_map p (pinning w)) (cpu_map p (pinning w'))"
  using created_effect[OF assms(1,2)] may_place_placement[OF _ assms(3,4)] by blast

lemma terminated_placement:
  assumes "terminated t (s, w) = Some (s', w')" and "idle s" and "own_once p (pinning w)"
  shows "placement_step (Terminated t) (pinning w) (cpu_map p (pinning w)) (cpu_map p (pinning w'))"
  using terminated_effect[OF assms(1,2)] find_assign_placement[OF assms(3), of t] by simp

end

text \<open>The follower of a strategy whose \<open>getPinning\<close> only places the task in \<open>placing\<close>.\<close>

context placing_strategy
begin

lemma created_may_place:
  assumes "op_pid proc = p" and "slot_TaskCreated getPinning aff proc tid (s, w) = Some (s', w')" and "placing s = tid"
  shows "may_place p tid (pinning w) (pinning w')"
proof -
  have "changePinning getPinning aff proc (s\<lparr>tasks := tasks s @ [tid]\<rparr>, w) = Some (s', w')"
    using assms(2) by (simp add: slot_TaskCreated_def)
  from change_effect_cases[OF assms(1) this] assms(3) consider "w' = w"
    | i where "i < length (pinning w)" "pinning w ! i = emptyTask" "w' = place_task aff \<lparr>t_pid = p, t_tid = tid\<rparr> i w"
    by (auto simp: placing_tasks)
  then show ?thesis
    by cases (auto simp: may_place_def pin_simps)
qed

end

lemma compact_tasks: "compact_getPinning ci proc pins s = Some (new, s') \<Longrightarrow> tasks s' = tasks s"
  by (auto simp: compact_getPinning_def split: option.splits if_splits)

lemma scatter_tasks: "scatter_getPinning srt ci proc pins s = Some (new, s') \<Longrightarrow> tasks s' = tasks s"
  by (auto simp: scatter_getPinning_def split: option.splits prod.splits if_splits)

lemma slot_TaskCreated_tasks:
  assumes "slot_TaskCreated g aff proc tid (s, w) = Some (s', w')"
    and "\<And>pins s new s'. g pins s = Some (new, s') \<Longrightarrow> tasks s' = tasks s"
  shows "tasks s' = tasks s @ [tid]"
  using assms(1) assms(2)[of "pinning w" "s\<lparr>tasks := tasks s @ [tid]\<rparr>"]
  by (auto simp: slot_TaskCreated_def changePinning_def split: option.splits)

interpretation compact_follows: task_follower "compact_slot_TaskCreated ci aff proc"
  "slot_TaskTerminated (compact_getPinning ci proc) aff proc" tasks "\<lambda>s. compact.new_task_tid s = 0" "op_pid proc"
  for ci aff proc
proof
  fix t and s s' :: compact and w w'
  assume "compact_slot_TaskCreated ci aff proc t (s, w) = Some (s', w')"
  then obtain s1 where c: "slot_TaskCreated (compact_getPinning ci proc) aff proc t (s\<lparr>compact.new_task_tid := t\<rparr>, w) = Some (s1, w')"
    and s': "s' = s1\<lparr>compact.new_task_tid := 0\<rparr>"
    by (auto simp: compact_slot_TaskCreated_def)
  show "compact.new_task_tid s' = 0 \<and> tasks s' = tasks s @ [t] \<and> may_place (op_pid proc) t (pinning w) (pinning w')"
    using compact.created_may_place[OF refl c] slot_TaskCreated_tasks[OF c compact_tasks] s' by simp
next
  fix t and s s' :: compact and w w'
  assume t: "slot_TaskTerminated (compact_getPinning ci proc) aff proc t (s, w) = Some (s', w')" and i: "compact.new_task_tid s = 0"
  from t compact.terminated_eq[where ci = ci and proc = proc, OF refl i, of aff t w]
  show "compact.new_task_tid s' = 0 \<and> tasks s' = remove1 t (tasks s) \<and>
      pinning w' = find_assign \<lparr>t_pid = op_pid proc, t_tid = t\<rparr> emptyTask (pinning w)"
    using i by auto
qed

interpretation scatter_follows: task_follower "scatter_slot_TaskCreated srt ci aff proc"
  "scatter_slot_TaskTerminated srt ci aff proc" tasks "\<lambda>s. scatter.new_task_tid s = 0" "op_pid proc"
  for srt ci aff proc
proof
  fix t and s s' :: scatter and w w'
  assume "scatter_slot_TaskCreated srt ci aff proc t (s, w) = Some (s', w')"
  then obtain s1 where c: "slot_TaskCreated (scatter_getPinning srt ci proc) aff proc t (s\<lparr>scatter.new_task_tid := t\<rparr>, w) = Some (s1, w')"
    and s': "s' = s1\<lparr>scatter.new_task_tid := 0\<rparr>"
    by (auto simp: scatter_slot_TaskCreated_def)
  show "scatter.new_task_tid s' = 0 \<and> tasks s' = tasks s @ [t] \<and> may_place (op_pid proc) t (pinning w) (pinning w')"
    using scatter.created_may_place[OF refl c] slot_TaskCreated_tasks[OF c scatter_tasks] s' by simp
next
  fix t and s s' :: scatter and w w'
  assume t: "scatter_slot_TaskTerminated srt ci aff proc t (s, w) = Some (s', w')" and i: "scatter.new_task_tid s = 0"
  from t obtain pc where t': "slot_TaskTerminated (scatter_getPinning srt ci proc) aff proc t (s\<lparr>pinCount := pc\<rparr>, w) = Some (s', w')"
    by (auto simp: scatter_slot_TaskTerminated_def Let_def split: option.splits)
  from t' scatter.terminated_eq[where std_sort = srt and ci = ci and proc = proc and s = "s\<lparr>pinCount := pc\<rparr>", OF refl, of aff t w]
  show "scatter.new_task_tid s' = 0 \<and> tasks s' = remove1 t (tasks s) \<and>
      pinning w' = find_assign \<lparr>t_pid = op_pid proc, t_tid = t\<rparr> emptyTask (pinning w)"
    using i by auto
qed

subsection \<open>Polling\<close>

text \<open>\<open>QSet\<close> is iterated in some order, each element once.\<close>

definition iterates :: "(int set \<Rightarrow> int list) \<Rightarrow> bool" where
  "iterates order \<longleftrightarrow> (\<forall>A. finite A \<longrightarrow> set (order A) = A \<and> distinct (order A))"

lemma fold_remove1_absent: "set xs \<inter> set ys = {} \<Longrightarrow> fold remove1 xs ys = ys"
  by (induction xs) (auto simp: remove1_idem)

locale polled_follower = task_follower created terminated tasks idle p
  for created :: "int \<Rightarrow> 'a strategy_scheme \<times> world \<Rightarrow> ('a strategy_scheme \<times> world) option"
    and terminated :: "int \<Rightarrow> 'a strategy_scheme \<times> world \<Rightarrow> ('a strategy_scheme \<times> world) option"
    and idle :: "'a strategy_scheme \<Rightarrow> bool" and p :: int +
  assumes idle_tasks: "idle (s\<lparr>tasks := ts\<rparr>) = idle s"
begin

lemma loop_terminated:
  assumes "slot_loop terminated ts (s, w) = Some (s', w')" and "idle s" and "own_once p (pinning w)"
  shows "idle s' \<and> own_once p (pinning w') \<and> own_tasks p (pinning w') = own_tasks p (pinning w) - set ts \<and>
    tasks s' = fold remove1 ts (tasks s)"
  using assms
proof (induction ts arbitrary: s w)
  case Nil
  then show ?case by simp
next
  case (Cons t ts)
  then obtain s1 w1 where s1: "terminated t (s, w) = Some (s1, w1)" "slot_loop terminated ts (s1, w1) = Some (s', w')"
    by (auto split: option.splits)
  from terminated_own[OF s1(1)] terminated_effect[OF s1(1)] Cons.prems Cons.IH[OF s1(2)] show ?case by auto
qed

lemma loop_created:
  assumes "slot_loop created ts (s, w) = Some (s', w')" and "idle s" and "own_once p (pinning w)"
    and "distinct ts" and "set ts \<inter> own_tasks p (pinning w) = {}"
  shows "idle s' \<and> own_once p (pinning w') \<and> own_tasks p (pinning w') \<subseteq> own_tasks p (pinning w) \<union> set ts \<and>
    own_tasks p (pinning w) \<subseteq> own_tasks p (pinning w') \<and> tasks s' = tasks s @ ts"
  using assms
proof (induction ts arbitrary: s w)
  case Nil
  then show ?case by simp
next
  case (Cons t ts)
  then obtain s1 w1 where s1: "created t (s, w) = Some (s1, w1)" "slot_loop created ts (s1, w1) = Some (s', w')"
    by (auto split: option.splits)
  have o: "idle s1 \<and> own_once p (pinning w1) \<and> own_tasks p (pinning w1) \<subseteq> insert t (own_tasks p (pinning w)) \<and>
      own_tasks p (pinning w) \<subseteq> own_tasks p (pinning w1)"
    using created_own[OF s1(1)] Cons.prems by auto
  have "tasks s1 = tasks s @ [t]" using created_effect[OF s1(1)] Cons.prems by simp
  moreover have "set ts \<inter> own_tasks p (pinning w1) = {}" using o Cons.prems(4,5) by auto
  ultimately show ?case using Cons.IH[OF s1(2)] o Cons.prems(4) by auto
qed

text \<open>After the timer the process holds CPUs only for tasks that are alive, and the tasks still alive keep theirs.\<close>

lemma timer_own:
  assumes "slot_timer order qt fs fuel proc created terminated (s, w) = Some (s', w')"
    and "getProcessTree qt fs fuel proc (runtime w) = Some (tree, c)" and "finite (getAllTasks tree)" and "iterates order"
    and "idle s" and "own_once p (pinning w)" and "own_tasks p (pinning w) \<subseteq> set (tasks s)"
  shows "idle s' \<and> own_once p (pinning w') \<and> set (tasks s') = getAllTasks tree \<and>
    own_tasks p (pinning w') \<subseteq> getAllTasks tree \<and> own_tasks p (pinning w) \<inter> getAllTasks tree \<subseteq> own_tasks p (pinning w')"
proof -
  let ?new = "getAllTasks tree" and ?old = "set (tasks s)"
  let ?s = "s\<lparr>tasks := sorted_list_of_set ?new\<rparr>" and ?w = "w\<lparr>runtime := c\<rparr>"
  from assms(1,2,3) obtain s1 w1 where s1: "slot_loop terminated (order (?old - ?new)) (?s, ?w) = Some (s1, w1)"
    and s2: "slot_loop created (order (?new - ?old)) (s1, w1) = Some (s', w')"
    by (auto simp: slot_timer_def refreshTasks_def Let_def split: option.splits)
  have o: "set (order (?old - ?new)) = ?old - ?new" "set (order (?new - ?old)) = ?new - ?old" "distinct (order (?new - ?old))"
    using assms(3,4) by (auto simp: iterates_def)
  have t: "idle s1" "own_once p (pinning w1)" "own_tasks p (pinning w1) = own_tasks p (pinning w) - (?old - ?new)"
      "tasks s1 = fold remove1 (order (?old - ?new)) (sorted_list_of_set ?new)"
    using loop_terminated[OF s1] assms(5,6) by (simp_all add: idle_tasks o)
  have "tasks s1 = sorted_list_of_set ?new" unfolding t(4) using assms(3) o by (intro fold_remove1_absent) auto
  moreover have "idle s' \<and> own_once p (pinning w') \<and> own_tasks p (pinning w') \<subseteq> own_tasks p (pinning w1) \<union> (?new - ?old) \<and>
      own_tasks p (pinning w1) \<subseteq> own_tasks p (pinning w') \<and> tasks s' = tasks s1 @ order (?new - ?old)"
    using loop_created[OF s2 t(1,2) o(3)] t(3) assms(7) by (auto simp: o)
  ultimately show ?thesis using t(3) assms(3,7) by (auto simp: o)
qed

end

text \<open>With slots that always return, so does the timer.\<close>

locale total_follower = polled_follower created terminated idle p
  for created :: "int \<Rightarrow> 'a strategy_scheme \<times> world \<Rightarrow> ('a strategy_scheme \<times> world) option"
    and terminated :: "int \<Rightarrow> 'a strategy_scheme \<times> world \<Rightarrow> ('a strategy_scheme \<times> world) option"
    and idle :: "'a strategy_scheme \<Rightarrow> bool" and p :: int +
  fixes fit :: "nat \<Rightarrow> bool"
  assumes created_total: "fit (length (pinning w)) \<Longrightarrow> \<exists>s' w'. created t (s, w) = Some (s', w')"
    and terminated_total: "fit (length (pinning w)) \<Longrightarrow> \<exists>s' w'. terminated t (s, w) = Some (s', w')"
    and created_error: "created t (s, w) = Some (s', w') \<Longrightarrow> isError (runtime w') = isError (runtime w)"
    and terminated_error: "terminated t (s, w) = Some (s', w') \<Longrightarrow> isError (runtime w') = isError (runtime w)"
begin

lemma loops_total:
  assumes "slot = created \<or> slot = terminated" and "fit (length (pinning w))" and "idle s"
  shows "\<exists>s' w'. slot_loop slot ts (s, w) = Some (s', w') \<and> length (pinning w') = length (pinning w) \<and> idle s' \<and>
    isError (runtime w') = isError (runtime w)"
  using assms(2,3)
proof (induction ts arbitrary: s w)
  case Nil
  then show ?case by simp
next
  case (Cons t ts)
  obtain s1 w1 where s1: "slot t (s, w) = Some (s1, w1)"
    using assms(1) created_total[of w t s] terminated_total[of w t s] Cons.prems by blast
  have "idle s1 \<and> length (pinning w1) = length (pinning w) \<and> isError (runtime w1) = isError (runtime w)"
    using assms(1) s1 created_effect[of t s w s1 w1] terminated_effect[of t s w s1 w1] Cons.prems(2)
      created_error[of t s w s1 w1] terminated_error[of t s w s1 w1]
    by (auto simp: may_place_def)
  with Cons.IH[of w1 s1] Cons.prems(1) show ?case by (simp add: s1)
qed

lemma timer_returns:
  assumes "getProcessTree qt fs fuel proc (runtime w) = Some (tree, c)" and "fit (length (pinning w))" and "idle s"
  shows "\<exists>s' w'. slot_timer order qt fs fuel proc created terminated (s, w) = Some (s', w') \<and>
    length (pinning w') = length (pinning w) \<and> isError (runtime w') = isError c"
proof -
  let ?s = "s\<lparr>tasks := sorted_list_of_set (getAllTasks tree)\<rparr>" and ?w = "w\<lparr>runtime := c\<rparr>"
  let ?gone = "order (set (tasks s) - set (tasks ?s))"
  obtain s1 w1 where s1: "slot_loop terminated ?gone (?s, ?w) = Some (s1, w1)"
      "length (pinning w1) = length (pinning w)" "idle s1" "isError (runtime w1) = isError c"
    using loops_total[of terminated ?w ?s ?gone] assms(2,3) idle_tasks by auto
  from loops_total[of created w1 s1] s1 assms(2) show ?thesis
    by (simp add: slot_timer_def refreshTasks_def assms(1) Let_def) blast
qed

end

lemma compact_created_returns:
  assumes "distances_known ci (length (pinning w))"
  shows "\<exists>s' w'. compact_slot_TaskCreated ci aff proc t (s, w) = Some (s', w')"
  using compact_change_returns[OF assms, of proc aff "s\<lparr>compact.new_task_tid := t, tasks := tasks s @ [t]\<rparr>"]
  by (auto simp: compact_slot_TaskCreated_def slot_TaskCreated_def)

lemma compact_created_error:
  "compact_slot_TaskCreated ci aff proc t (s, w) = Some (s', w') \<Longrightarrow> isError (runtime w') = isError (runtime w)"
  by (auto simp: compact_slot_TaskCreated_def leaves_others_def dest: compact.created_leaves_others[OF refl])

lemma compact_terminated_error:
  "slot_TaskTerminated (compact_getPinning ci proc) aff proc t (s, w) = Some (s', w') \<Longrightarrow> isError (runtime w') = isError (runtime w)"
  by (auto simp: leaves_others_def dest: compact.terminated_leaves_others[OF refl])

lemma compact_terminated_returns:
  assumes "distances_known ci (length (pinning w))"
  shows "\<exists>s' w'. slot_TaskTerminated (compact_getPinning ci proc) aff proc t (s, w) = Some (s', w')"
  using assms by (simp add: slot_TaskTerminated_def Let_def compact_change_returns)

interpretation compact_polls: total_follower "compact_slot_TaskCreated ci aff proc"
  "slot_TaskTerminated (compact_getPinning ci proc) aff proc" "\<lambda>s. compact.new_task_tid s = 0" "op_pid proc" "distances_known ci"
  for ci aff proc
  by unfold_locales
    (simp, erule compact_created_returns, erule compact_terminated_returns, erule compact_created_error, erule compact_terminated_error)

interpretation scatter_polls: polled_follower "scatter_slot_TaskCreated srt ci aff proc"
  "scatter_slot_TaskTerminated srt ci aff proc" "\<lambda>s. scatter.new_task_tid s = 0" "op_pid proc"
  for srt ci aff proc
  by unfold_locales simp

text \<open>The tasks the timer finds: those of the process and its descendants.\<close>

definition live_tasks :: "qt_conv \<Rightarrow> procfs \<Rightarrow> int \<Rightarrow> int set" where
  "live_tasks qt fs p = (\<Union>q\<in>descendants qt fs p. insert q (threads_of qt fs q))"

lemma tree_live_tasks:
  assumes "running proc" and "\<not> isError c" and "entryList fs ''/proc'' = Some procs"
    and "(op_pid proc, op_pid proc) \<notin> (child_rel qt fs)\<^sup>+" and "length (listed_pids qt fs) < fuel"
  shows "\<exists>t c'. getProcessTree qt fs fuel proc c = Some (t, c') \<and> \<not> isError c' \<and> getAllTasks t = live_tasks qt fs (op_pid proc) \<and>
    finite (live_tasks qt fs (op_pid proc))"
proof -
  obtain t c' where t: "getProcessTree qt fs fuel proc c = Some (t, c')" "\<not> isError c'" "set (pids t) = descendants qt fs (op_pid proc)"
      "getAllTasks t = live_tasks qt fs (op_pid proc)"
    using tree_complete[OF assms] unfolding live_tasks_def by blast
  have "finite (live_tasks qt fs (op_pid proc))"
    unfolding live_tasks_def t(3)[symmetric]
    by (auto simp: threads_of_def getProcessThreads_def convertQStringList_def split: option.splits)
  with t show ?thesis by blast
qed



end
