(* ===== verification/Tracing.thy ===== *)
theory Tracing
  imports Follow
begin

text \<open>
  A traced process and its strategy. The tracing thread emits its signals while the event loop of the
  application runs, so they wait in the queue of the event loop until they are delivered: from the tracer to
  \<open>OSServices\<close>, to the observed process and to the strategy. In between the kernel reports more, and
  the strategies of other watchdogs move their tasks. The interleavings are the step relation \<open>tracing_step\<close>;
  the strategy follows the traced tasks in all of them.
\<close>

subsection \<open>From the tracer to the strategy\<close>

text \<open>The connections the constructor of \<open>OSServices\<close> makes: signals of the tracer become signals of the service.\<close>

fun tracer_connections :: "op_signal \<Rightarrow> wd_signal list" where
  "tracer_connections (Sig_TaskCreated t) = [Service_TaskCreated t]"
| "tracer_connections (Sig_TaskTerminated t) = [Service_TaskTerminated t]"
| "tracer_connections _ = []"

fun process_emits :: "observed_process \<Rightarrow> wd_slot \<Rightarrow> op_signal list" where
  "process_emits proc (Process_TaskCreated t) = snd (op_slot_TaskCreated t proc)"
| "process_emits proc (Process_TaskTerminated t) = snd (op_slot_TaskTerminated t proc)"
| "process_emits proc _ = []"

fun strategy_event :: "wd_slot \<Rightarrow> task_event list" where
  "strategy_event (Strategy_TaskCreated t) = [Created t]"
| "strategy_event (Strategy_TaskTerminated t) = [Terminated t]"
| "strategy_event _ = []"

text \<open>The slots of the strategy that a signal of the tracer ends up in.\<close>

definition strategy_events :: "observed_process \<Rightarrow> op_signal \<Rightarrow> task_event list" where
  "strategy_events proc sig = concat (map (\<lambda>x. concat (map (\<lambda>slot. concat (map (\<lambda>out.
     concat (map strategy_event (createComponentConnections (Process_signal out)))) (process_emits proc slot)))
     (createComponentConnections x))) (tracer_connections sig))"

lemma strategy_events_simps [simp]:
  "strategy_events proc (Sig_TaskCreated t) = [Created t]"
  "strategy_events proc (Sig_TaskTerminated t) = [Terminated t]"
  by (simp_all add: strategy_events_def op_slot_TaskCreated_def op_slot_TaskTerminated_def)

fun pinner_events ::
  "host_env \<Rightarrow> observed_process \<Rightarrow> task_event list \<Rightarrow> pinner \<times> world \<Rightarrow> (pinner \<times> world) option" where
  "pinner_events env proc [] sw = Some sw"
| "pinner_events env proc (e # es) sw =
     (case pinner_event env proc e sw of None \<Rightarrow> None | Some sw \<Rightarrow> pinner_events env proc es sw)"

subsection \<open>Every strategy is a follower\<close>

fun pinner_tasks :: "pinner \<Rightarrow> int list" where
  "pinner_tasks (Compact_pinner s) = tasks s"
| "pinner_tasks (Scatter_pinner s) = tasks s"
| "pinner_tasks (Noop_pinner s ms) = tasks s"

text \<open>No slot of the strategy is running.\<close>

fun pinner_idle :: "pinner \<Rightarrow> bool" where
  "pinner_idle (Compact_pinner s) \<longleftrightarrow> compact.new_task_tid s = 0"
| "pinner_idle (Scatter_pinner s) \<longleftrightarrow> scatter.new_task_tid s = 0"
| "pinner_idle (Noop_pinner s ms) \<longleftrightarrow> True"

lemma noop_terminated:
  "noop_slot_TaskTerminated ops aff proc t (s, w, ms) = Some (s', w', ms') \<Longrightarrow>
    tasks s' = remove1 t (tasks s) \<and> pinning w' = find_assign \<lparr>t_pid = op_pid proc, t_tid = t\<rparr> emptyTask (pinning w)"
  by (auto simp: noop_slot_TaskTerminated_def base_terminated split: prod.splits)

interpretation pinner: task_follower "\<lambda>t. pinner_event env proc (Created t)" "\<lambda>t. pinner_event env proc (Terminated t)"
  pinner_tasks pinner_idle "op_pid proc"
  for env proc
proof
  fix t s s' and w w' :: world
  assume e: "pinner_event env proc (Created t) (s, w) = Some (s', w')" and i: "pinner_idle s"
  show "pinner_idle s' \<and> pinner_tasks s' = pinner_tasks s @ [t] \<and> may_place (op_pid proc) t (pinning w) (pinning w')"
  proof (cases s)
    case (Compact_pinner x)
    with e i show ?thesis by (auto dest!: compact_follows.created_effect)
  next
    case (Scatter_pinner x)
    with e i show ?thesis by (auto dest!: scatter_follows.created_effect)
  next
    case (Noop_pinner x ms)
    with e show ?thesis by (auto simp: noop_slot_TaskCreated_def base_created may_place_def split: prod.splits)
  qed
next
  fix t s s' and w w' :: world
  assume e: "pinner_event env proc (Terminated t) (s, w) = Some (s', w')" and i: "pinner_idle s"
  show "pinner_idle s' \<and> pinner_tasks s' = remove1 t (pinner_tasks s) \<and>
      pinning w' = find_assign \<lparr>t_pid = op_pid proc, t_tid = t\<rparr> emptyTask (pinning w)"
  proof (cases s)
    case (Compact_pinner x)
    with e i show ?thesis by (auto dest!: compact_follows.terminated_effect)
  next
    case (Scatter_pinner x)
    with e i show ?thesis by (auto dest!: scatter_follows.terminated_effect)
  next
    case (Noop_pinner x ms)
    with e show ?thesis by (auto dest!: noop_terminated)
  qed
qed

text \<open>The strategy of another process changes neither the tasks nor the CPUs of this one.\<close>

definition same_own :: "int \<Rightarrow> Pinning \<Rightarrow> Pinning \<Rightarrow> bool" where
  "same_own q pins pins' \<longleftrightarrow> length pins' = length pins \<and> (\<forall>i<length pins. pins' ! i = pins ! i \<or>
     (pins ! i = emptyTask \<or> t_pid (pins ! i) \<noteq> q) \<and> (pins' ! i = emptyTask \<or> t_pid (pins' ! i) \<noteq> q))"

lemma same_own_sym: "same_own q pins pins' \<Longrightarrow> same_own q pins' pins"
  by (fastforce simp: same_own_def)

lemma same_own_tasks:
  assumes "same_own q pins pins'"
  shows "own_tasks q pins' = own_tasks q pins"
proof -
  have "own_tasks q a \<subseteq> own_tasks q b" if ab: "same_own q a b" for a b
  proof
    fix t assume "t \<in> own_tasks q a"
    then obtain i where i: "i < length a" "a ! i \<noteq> emptyTask" "t_pid (a ! i) = q" "t = t_tid (a ! i)"
      by (auto simp: own_tasks_def in_set_conv_nth)
    then have "b ! i = a ! i" "i < length b" using ab by (auto simp: same_own_def)
    with i show "t \<in> own_tasks q b" by (force simp: own_tasks_def in_set_conv_nth)
  qed
  with assms same_own_sym[OF assms] show ?thesis by blast
qed

lemma same_own_once:
  assumes "same_own q pins pins'" and "own_once q pins"
  shows "own_once q pins'"
  unfolding own_once_def
proof (intro allI impI)
  fix i j
  assume ij: "i < length pins'" "j < length pins'" "pins' ! i = pins' ! j \<and> pins' ! i \<noteq> emptyTask \<and> t_pid (pins' ! i) = q"
  then have "pins' ! i = pins ! i" "pins' ! j = pins ! j" using assms(1) by (auto simp: same_own_def)
  with ij assms show "i = j" by (auto simp: own_once_def same_own_def)
qed

lemma may_place_same_own: "may_place p t pins pins' \<Longrightarrow> p \<noteq> q \<Longrightarrow> same_own q pins pins'"
  by (auto simp: may_place_def same_own_def nth_update split: if_splits)

lemma find_assign_same_own: "p \<noteq> q \<Longrightarrow> same_own q pins (find_assign \<lparr>t_pid = p, t_tid = t\<rparr> emptyTask pins)"
  using find_assign_nth[of _ pins "\<lparr>t_pid = p, t_tid = t\<rparr>" emptyTask] by (fastforce simp: same_own_def)

lemma pinner_event_same_own:
  assumes "pinner_event env proc e (s, w) = Some (s', w')" and "pinner_idle s" and "op_pid proc \<noteq> q"
  shows "same_own q (pinning w) (pinning w')"
proof (cases e)
  case (Created t)
  with pinner.created_effect assms may_place_same_own show ?thesis by blast
next
  case (Terminated t)
  with pinner.terminated_effect assms find_assign_same_own show ?thesis by auto
qed

lemma pinner_events_return:
  assumes "distances_known (h_topology env) (length (pinning w))" and "\<not> is_scatter s"
  shows "\<exists>s' w'. pinner_events env proc es (s, w) = Some (s', w') \<and> \<not> is_scatter s' \<and> length (pinning w') = length (pinning w)"
  using assms
proof (induction es arbitrary: s w)
  case Nil
  then show ?case by simp
next
  case (Cons e es)
  obtain s1 w1 where s1: "pinner_event env proc e (s, w) = Some (s1, w1)" "\<not> is_scatter s1"
    using pinner_event_returns[OF Cons.prems] by blast
  have l: "length (pinning w1) = length (pinning w)" using pinner_event_leaves_others[OF s1(1)] by (simp add: leaves_others_def)
  from Cons.IH[of w1 s1] Cons.prems(1) s1 l show ?case by simp
qed

subsection \<open>The pinning refines a placement\<close>

text \<open>A sequence of events that creates only tasks that are not known.\<close>

fun fresh_events :: "task_event list \<Rightarrow> int set \<Rightarrow> bool" where
  "fresh_events [] A \<longleftrightarrow> True"
| "fresh_events (Created t # es) A \<longleftrightarrow> t \<notin> A \<and> fresh_events es (insert t A)"
| "fresh_events (Terminated t # es) A \<longleftrightarrow> fresh_events es (A - {t})"

text \<open>
  The abstract run: \<open>Created\<close> gives the task a CPU that no task of the process has, or none; \<open>Terminated\<close> takes it away.
\<close>

inductive placement_run :: "nat \<Rightarrow> task_event list \<Rightarrow> placement \<Rightarrow> placement \<Rightarrow> bool" for n :: nat where
  "placement_run n [] m m"
| "placement_run n es m m' \<Longrightarrow> placement_run n (Created t # es) m m'"
| "i < n \<Longrightarrow> i \<notin> ran m \<Longrightarrow> placement_run n es (m(t \<mapsto> i)) m' \<Longrightarrow> placement_run n (Created t # es) m m'"
| "placement_run n es (m(t := None)) m' \<Longrightarrow> placement_run n (Terminated t # es) m m'"

lemma empty_not_ran: "own_once p pins \<Longrightarrow> pins ! i = emptyTask \<Longrightarrow> i \<notin> ran (cpu_map p pins)"
  by (auto simp: ran_def cpu_map_Some)

lemma events_refine_placement:
  assumes "pinner_events env proc es (s, w) = Some (s', w')" and "pinner_idle s" and "distinct (pinner_tasks s)"
    and "fresh_events es (set (pinner_tasks s))" and "own_once (op_pid proc) (pinning w)"
    and "own_tasks (op_pid proc) (pinning w) \<subseteq> set (pinner_tasks s)"
  shows "placement_run (length (pinning w)) es (cpu_map (op_pid proc) (pinning w)) (cpu_map (op_pid proc) (pinning w')) \<and>
    own_once (op_pid proc) (pinning w')"
  using assms
proof (induction es arbitrary: s w)
  case Nil
  then show ?case by (auto intro: placement_run.intros)
next
  case (Cons e es)
  then obtain s1 w1 where e: "pinner_event env proc e (s, w) = Some (s1, w1)" and r: "pinner_events env proc es (s1, w1) = Some (s', w')"
    by (auto split: option.splits)
  have l: "length (pinning w1) = length (pinning w)" using pinner_event_leaves_others[OF e] by (simp add: leaves_others_def)
  show ?case
  proof (cases e)
    case (Created t)
    note c = e[unfolded Created]
    have t: "t \<notin> set (pinner_tasks s)" using Cons.prems(4) Created by simp
    then have o: "t \<notin> own_tasks (op_pid proc) (pinning w)" using Cons.prems(6) by blast
    have k: "pinner_idle s1" "pinner_tasks s1 = pinner_tasks s @ [t]" using pinner.created_effect[OF c Cons.prems(2)] by auto
    have "placement_run (length (pinning w)) es (cpu_map (op_pid proc) (pinning w1)) (cpu_map (op_pid proc) (pinning w')) \<and>
        own_once (op_pid proc) (pinning w')"
      using Cons.IH[OF r k(1)] pinner.created_own[OF c Cons.prems(2,5) o] Cons.prems(3,4,6) t Created k(2) l by auto
    with pinner.created_placement[OF c Cons.prems(2,5) o] empty_not_ran[OF Cons.prems(5)] Created show ?thesis
      by (auto intro: placement_run.intros(2,3))
  next
    case (Terminated t)
    note c = e[unfolded Terminated]
    have k: "pinner_idle s1" "pinner_tasks s1 = remove1 t (pinner_tasks s)" using pinner.terminated_effect[OF c Cons.prems(2)] by auto
    have "set (pinner_tasks s1) = set (pinner_tasks s) - {t}" using k(2) Cons.prems(3) by simp
    then have "placement_run (length (pinning w)) es (cpu_map (op_pid proc) (pinning w1)) (cpu_map (op_pid proc) (pinning w')) \<and>
        own_once (op_pid proc) (pinning w')"
      using Cons.IH[OF r k(1)] pinner.terminated_own[OF c Cons.prems(2,5)] Cons.prems(3,4,6) Terminated k(2) l by auto
    with pinner.terminated_placement[OF c Cons.prems(2,5)] Terminated show ?thesis by (auto intro: placement_run.intros(4))
  qed
qed

text \<open>
  C13. The vector \<open>pinning\<close> implements a placement, a map from the tasks of a process to CPUs, with each of the strategies compact,
  scatter and noop: however tasks are created and terminated, each creation gives the new task a CPU no other task of the
  process has, or none, each termination takes the CPU of the task away, and nothing else changes; and
  \<open>getCpuByTask\<close> is the lookup in that map, with -1 for a task that has no CPU.
\<close>

theorem pinning_refines_placement:
  assumes "pinner_events env proc es (s, w) = Some (s', w')" and "op_pid proc \<noteq> 0" and "pinner_idle s" and "distinct (pinner_tasks s)"
    and "fresh_events es (set (pinner_tasks s))" and "own_once (op_pid proc) (pinning w)"
    and "own_tasks (op_pid proc) (pinning w) \<subseteq> set (pinner_tasks s)"
  shows "placement_run (length (pinning w)) es (cpu_map (op_pid proc) (pinning w)) (cpu_map (op_pid proc) (pinning w')) \<and>
    getCpuByTask proc t w' = (case cpu_map (op_pid proc) (pinning w') t of Some i \<Rightarrow> int i | None \<Rightarrow> -1)"
  using events_refine_placement[OF assms(1,3-7)] getCpuByTask_lookup[OF assms(2)] by blast

theorem pinning_refines_placement_witness:
  "\<exists>s' w'. pinner_events demo_host_env demo_op [Created 8, Terminated 8, Created 9]
      (Compact_pinner compact_new, \<lparr>pinning = [\<lparr>t_pid = 5, t_tid = 5\<rparr>, emptyTask], affinity_calls = [], runtime = AutopinContext_new ''a''\<rparr>)
      = Some (s', w') \<and>
    placement_run 2 [Created 8, Terminated 8, Created 9] Map.empty (cpu_map 7 (pinning w'))"
proof -
  let ?w = "\<lparr>pinning = [\<lparr>t_pid = 5, t_tid = 5\<rparr>, emptyTask], affinity_calls = [], runtime = AutopinContext_new ''a''\<rparr>"
  let ?es = "[Created 8, Terminated 8, Created 9]"
  have "distances_known (h_topology demo_host_env) (length (pinning ?w))"
    by (auto simp: demo_host_env_def distances_known_def two_cpus_def getCpuDistance_def less_Suc_eq vec_at_def)
  then obtain s' w' where r: "pinner_events demo_host_env demo_op ?es (Compact_pinner compact_new, ?w) = Some (s', w')"
    using pinner_events_return[of demo_host_env ?w "Compact_pinner compact_new" demo_op ?es] by auto
  have p: "op_pid demo_op = 7" by (simp add: demo_op_def ObservedProcess_new_def)
  have e: "cpu_map 7 (pinning ?w) = Map.empty" by (auto simp: cpu_map_def emptyTask_def)
  have "own_once 7 (pinning ?w)" "own_tasks 7 (pinning ?w) = {}" "pinner_tasks (Compact_pinner compact_new) = []"
    "pinner_idle (Compact_pinner compact_new)"
    by (auto simp: own_once_def own_tasks_def less_Suc_eq compact_new_def strategy.defs ControlStrategy_new_def)
  with pinning_refines_placement[OF r, of 8] e r show ?thesis by (simp add: p numeral_2_eq_2)
qed

subsection \<open>Interleaved steps\<close>

record tracing =
  tr_thread :: trace_thread
  tr_left :: bool \<comment> \<open>the loop of the tracing thread has been left\<close>
  tr_queue :: "op_signal list" \<comment> \<open>signals of the tracer the event loop has not delivered\<close>
  tr_strategy :: pinner
  tr_world :: world

text \<open>
  What the code relies on of the kernel: a fork or clone event names a task that is new, not one that is still traced
  (an id is reused only after its task was waited for).
\<close>

definition genuine :: "kernel \<Rightarrow> int \<times> wait_status \<times> bool \<Rightarrow> trace_thread \<Rightarrow> bool" where
  "genuine k = (\<lambda>(p, status, alarm) th. case status of
     Stopped sig event \<Rightarrow>
       sig \<noteq> SIGTRAP \<or> event \<notin> {PTRACE_EVENT_CLONE, PTRACE_EVENT_FORK, PTRACE_EVENT_VFORK} \<or>
       event_msg k (sys_calls th @ [PTRACE_GETEVENTMSG p]) p \<notin> tt_tasks th
   | _ \<Rightarrow> True)"

inductive tracing_step :: "host_env \<Rightarrow> kernel \<Rightarrow> observed_process \<Rightarrow> tracing \<Rightarrow> tracing \<Rightarrow> bool"
  for env :: host_env and k :: kernel and proc :: observed_process where
  kernel_reports: "\<not> tr_left st \<Longrightarrow> genuine k w (tr_thread st) \<Longrightarrow> run_step k w (tr_thread st) = (left, th) \<Longrightarrow>
    tt_signals th = tt_signals (tr_thread st) @ sigs \<Longrightarrow>
    tracing_step env k proc st (st\<lparr>tr_thread := th, tr_left := left, tr_queue := tr_queue st @ sigs\<rparr>)"
| delivers: "tr_queue st = sig # queue \<Longrightarrow>
    pinner_events env proc (strategy_events proc sig) (tr_strategy st, tr_world st) = Some (s, w) \<Longrightarrow>
    tracing_step env k proc st (st\<lparr>tr_queue := queue, tr_strategy := s, tr_world := w\<rparr>)"
| other_acts: "op_pid other \<noteq> op_pid proc \<Longrightarrow> pinner_idle x \<Longrightarrow>
    pinner_event env other e (x, (tr_world st)\<lparr>runtime := c\<rparr>) = Some (x', w) \<Longrightarrow>
    tracing_step env k proc st (st\<lparr>tr_world := w\<lparr>runtime := runtime (tr_world st)\<rparr>\<rparr>)"

text \<open>The signals announce only tasks that are not known.\<close>

fun consistent :: "op_signal list \<Rightarrow> int set \<Rightarrow> bool" where
  "consistent [] A \<longleftrightarrow> True"
| "consistent (Sig_TaskCreated t # sigs) A \<longleftrightarrow> t \<notin> A \<and> consistent sigs (insert t A)"
| "consistent (Sig_TaskTerminated t # sigs) A \<longleftrightarrow> consistent sigs (A - {t})"
| "consistent (_ # sigs) A \<longleftrightarrow> consistent sigs A"

lemma consistent_append: "consistent (a @ b) A \<longleftrightarrow> consistent a A \<and> consistent b (replay a A)"
  by (induction a A rule: replay.induct) auto

lemma consistent_mono: "consistent sigs B \<Longrightarrow> A \<subseteq> B \<Longrightarrow> consistent sigs A"
proof (induction sigs B arbitrary: A rule: consistent.induct)
  case (2 t sigs B)
  then show ?case using insert_mono[of A B t] by auto
next
  case (3 t sigs B)
  then show ?case using Diff_mono[of A B "{t}" "{t}"] by simp
qed auto

lemma replay_mono: "A \<subseteq> B \<Longrightarrow> replay sigs A \<subseteq> replay sigs B"
proof (induction sigs A arbitrary: B rule: replay.induct)
  case (2 t sigs A)
  then show ?case using insert_mono[of A B t] by simp
next
  case (3 t sigs A)
  then show ?case using Diff_mono[of A B "{t}" "{t}"] by simp
qed auto

lemma replay_extra: "replay sigs (A \<union> U) \<subseteq> replay sigs A \<union> U"
proof (induction sigs A rule: replay.induct)
  case (3 t sigs A)
  have "replay sigs (A \<union> U - {t}) \<subseteq> replay sigs (A - {t} \<union> U)" by (rule replay_mono) blast
  with 3 show ?case by simp
qed auto

lemma trace_stop_fresh:
  assumes "genuine k (p, Stopped sig event, alarm) th" and "new_tasks th \<inter> tt_tasks th = {}"
  shows "\<exists>sigs. tt_signals (trace_stop k p sig event th) = tt_signals th @ sigs \<and>
    tt_tasks (trace_stop k p sig event th) = replay sigs (tt_tasks th) \<and> consistent sigs (tt_tasks th) \<and>
    new_tasks (trace_stop k p sig event th) \<inter> tt_tasks (trace_stop k p sig event th) = {}"
  using assms by (auto simp: genuine_def trace_stop_def ptrace_def Let_def newTask_simps)

lemma run_step_fresh:
  assumes "genuine k w th" and "new_tasks th \<inter> tt_tasks th = {}" and "run_step k w th = (left, th')"
  shows "\<exists>sigs. tt_signals th' = tt_signals th @ sigs \<and> tt_tasks th' = replay sigs (tt_tasks th) \<and>
    consistent sigs (tt_tasks th) \<and> new_tasks th' \<inter> tt_tasks th' = {}"
proof -
  obtain p status alarm where w: "w = (p, status, alarm)" by (cases w)
  let ?th = "th\<lparr>alarm_occured := False\<rparr>"
  have a: "(if alarm then th\<lparr>alarm_occured := True\<rparr> else th)\<lparr>alarm_occured := False\<rparr> = ?th" by simp
  have stop: "\<exists>sigs. tt_signals (trace_stop k p sig event ?th) = tt_signals th @ sigs \<and>
      tt_tasks (trace_stop k p sig event ?th) = replay sigs (tt_tasks th) \<and> consistent sigs (tt_tasks th) \<and>
      new_tasks (trace_stop k p sig event ?th) \<inter> tt_tasks (trace_stop k p sig event ?th) = {}"
    if "status = Stopped sig event" for sig event
    using trace_stop_fresh[of k p sig event alarm ?th] assms(1,2) that by (simp add: w genuine_def)
  show ?thesis
    using assms(2,3) stop
    by (auto simp: w run_step_def alrmSignalHandler_def Let_def a split: wait_status.splits if_splits
        intro: exI[of _ "[Sig_TaskTerminated p]"])
qed

subsection \<open>The strategy follows the traced tasks\<close>

text \<open>\<open>U\<close>: tasks that were traced from the start and never announced.\<close>

definition tr_inv :: "observed_process \<Rightarrow> int set \<Rightarrow> tracing \<Rightarrow> bool" where
  "tr_inv proc U st \<longleftrightarrow>
     new_tasks (tr_thread st) \<inter> tt_tasks (tr_thread st) = {} \<and> pinner_idle (tr_strategy st) \<and>
     distinct (pinner_tasks (tr_strategy st)) \<and>
     consistent (tr_queue st) (set (pinner_tasks (tr_strategy st))) \<and>
     replay (tr_queue st) (set (pinner_tasks (tr_strategy st))) \<subseteq> tt_tasks (tr_thread st) \<and>
     tt_tasks (tr_thread st) \<subseteq> replay (tr_queue st) (set (pinner_tasks (tr_strategy st))) \<union> U \<and>
     own_once (op_pid proc) (pinning (tr_world st)) \<and>
     own_tasks (op_pid proc) (pinning (tr_world st)) \<subseteq> set (pinner_tasks (tr_strategy st))"

lemma kernel_inv:
  assumes "tr_inv proc U st" and "genuine k w (tr_thread st)" and "run_step k w (tr_thread st) = (left, th)"
    and "tt_signals th = tt_signals (tr_thread st) @ sigs"
  shows "tr_inv proc U (st\<lparr>tr_thread := th, tr_left := left, tr_queue := tr_queue st @ sigs\<rparr>)"
proof -
  let ?K = "replay (tr_queue st) (set (pinner_tasks (tr_strategy st)))" and ?T = "tt_tasks (tr_thread st)"
  have th: "tt_tasks th = replay sigs ?T" "consistent sigs ?T" "new_tasks th \<inter> tt_tasks th = {}"
    using run_step_fresh[OF assms(2) _ assms(3)] assms(1,4) by (auto simp: tr_inv_def)
  have K: "?K \<subseteq> ?T" "?T \<subseteq> ?K \<union> U" using assms(1) by (auto simp: tr_inv_def)
  have "replay sigs ?T \<subseteq> replay sigs ?K \<union> U"
    using replay_mono[OF K(2), of sigs] replay_extra[of sigs ?K U] by blast
  with assms(1) th K show ?thesis
    using consistent_mono[OF th(2) K(1)] replay_mono[OF K(1), of sigs]
    by (simp add: tr_inv_def consistent_append replay_append)
qed

lemma deliver_inv:
  assumes "tr_inv proc U st" and "tr_queue st = sig # queue"
    and "pinner_events env proc (strategy_events proc sig) (tr_strategy st, tr_world st) = Some (s, w)"
  shows "tr_inv proc U (st\<lparr>tr_queue := queue, tr_strategy := s, tr_world := w\<rparr>)"
proof -
  let ?s = "tr_strategy st" and ?w = "tr_world st"
  have i: "pinner_idle ?s" "own_once (op_pid proc) (pinning ?w)" "distinct (pinner_tasks ?s)"
      "own_tasks (op_pid proc) (pinning ?w) \<subseteq> set (pinner_tasks ?s)" using assms(1) by (auto simp: tr_inv_def)
  consider (created) t where "sig = Sig_TaskCreated t" | (terminated) t where "sig = Sig_TaskTerminated t"
    | (other) "strategy_events proc sig = []" "replay (sig # queue) = replay queue" "consistent (sig # queue) = consistent queue"
    by (cases sig) (auto simp: strategy_events_def fun_eq_iff)
  then show ?thesis
  proof cases
    case created
    then have e: "pinner_event env proc (Created t) (?s, ?w) = Some (s, w)" using assms(3) by (auto split: option.splits)
    have "t \<notin> set (pinner_tasks ?s)" using assms(1,2) created by (simp add: tr_inv_def)
    with pinner.created_own[OF e i(1,2)] pinner.created_effect[OF e i(1)] assms(1,2) created i show ?thesis
      by (auto simp: tr_inv_def)
  next
    case terminated
    then have e: "pinner_event env proc (Terminated t) (?s, ?w) = Some (s, w)" using assms(3) by (auto split: option.splits)
    have "set (remove1 t (pinner_tasks ?s)) = set (pinner_tasks ?s) - {t}" using i(3) by simp
    with pinner.terminated_own[OF e i(1,2)] pinner.terminated_effect[OF e i(1)] assms(1,2) terminated i show ?thesis
      by (auto simp: tr_inv_def)
  next
    case other
    with assms show ?thesis by (simp add: tr_inv_def)
  qed
qed

lemma step_inv: "tracing_step env k proc st st' \<Longrightarrow> tr_inv proc U st \<Longrightarrow> tr_inv proc U st'"
proof (induction rule: tracing_step.induct)
  case (kernel_reports st w left th sigs)
  then show ?case by (intro kernel_inv) auto
next
  case (delivers st sig queue s w)
  then show ?case by (intro deliver_inv) auto
next
  case (other_acts other x e c st x' w)
  have "same_own (op_pid proc) (pinning (tr_world st)) (pinning w)"
    using pinner_event_same_own[OF other_acts(3,2,1)] by simp
  from same_own_tasks[OF this] same_own_once[OF this] other_acts(4) show ?case by (simp add: tr_inv_def)
qed

lemma reachable_inv: "(tracing_step env k proc)\<^sup>*\<^sup>* st st' \<Longrightarrow> tr_inv proc U st \<Longrightarrow> tr_inv proc U st'"
  by (induction rule: rtranclp_induct) (auto intro: step_inv)

subsection \<open>From the start of the process\<close>

lemma attach_task_quiet:
  "attach_task k t (ch, nt, st) = (ch', nt', st') \<Longrightarrow> new_tasks st' = new_tasks st \<and> tt_signals st' = tt_signals st"
  by (auto simp: attach_task_def ptrace_def Let_def split: if_splits option.splits wait_status.splits)

lemma attach_fold_quiet:
  "fold (attach_task k) ts (ch, nt, st) = (ch', nt', st') \<Longrightarrow> new_tasks st' = new_tasks st \<and> tt_signals st' = tt_signals st"
proof (induction ts arbitrary: ch nt st)
  case Nil
  then show ?case by simp
next
  case (Cons t ts)
  obtain ch1 nt1 st1 where s1: "attach_task k t (ch, nt, st) = (ch1, nt1, st1)" by (metis prod_cases3)
  from attach_task_quiet[OF s1] Cons.IH[of ch1 nt1 st1] Cons.prems s1 show ?case by simp
qed

lemma attach_loop_quiet:
  "attach_loop k qt fs walk proc fuel n nt st = Some (nt', st') \<Longrightarrow> new_tasks st' = new_tasks st \<and> tt_signals st' = tt_signals st"
proof (induction fuel arbitrary: n nt st)
  case 0
  then show ?case by simp
next
  case (Suc fuel)
  then obtain tree c where t: "getProcessTree qt (fs n) walk proc (tt_context st) = Some (tree, c)" by (auto split: option.splits)
  obtain ch nt1 st1 where f: "fold (attach_task k) (sorted_list_of_set (getAllTasks tree)) (False, nt, st\<lparr>tt_context := c\<rparr>)
      = (ch, nt1, st1)" by (metis prod_cases3)
  from attach_fold_quiet[OF f] Suc.IH[of "n + 1" nt1 st1] Suc.prems t f show ?case by (auto split: if_splits)
qed

lemma continue_all_quiet:
  "new_tasks (fold (\<lambda>e. ptraceContinue k e 0) ts st) = new_tasks st"
  "tt_signals (fold (\<lambda>e. ptraceContinue k e 0) ts st) = tt_signals st"
  by (induction ts arbitrary: st) simp_all

text \<open>Attaching announces nothing, whatever it attaches to.\<close>

lemma run_start_quiet:
  assumes "run_start k qt fs walk proc fuel rets st = Some st'"
  shows "new_tasks st' = new_tasks st \<and> tt_signals st' = tt_signals st"
proof -
  let ?st = "setupSignalHandler rets st"
  from assms obtain nt st1 where a: "attach_loop k qt fs walk proc fuel 0 {} ?st = Some (nt, st1)"
    and st': "new_tasks st' = new_tasks st1" "tt_signals st' = tt_signals st1"
    by (auto simp: run_start_def attach_def Let_def continue_all_quiet split: option.splits if_splits)
  with attach_loop_quiet[OF a] show ?thesis by (simp add: setupSignalHandler_def Let_def)
qed

text \<open>
  What happens before the event loop goes on: \<open>attachToProcess\<close> starts the tracing thread and waits until it has
  attached to the tasks, then \<open>ObservedProcess::start\<close> announces the process to its strategy.
\<close>

definition traced_start ::
  "host_env \<Rightarrow> kernel \<Rightarrow> qt_conv \<Rightarrow> (nat \<Rightarrow> procfs) \<Rightarrow> nat \<Rightarrow> observed_process \<Rightarrow> nat \<Rightarrow> int \<times> int \<Rightarrow> apcontext \<Rightarrow> pinner \<times> world \<Rightarrow>
    tracing option" where
  "traced_start env k qt fs walk proc fuel rets c sw = do {
     th \<leftarrow> run_start k qt fs walk proc fuel rets (snd (TraceThread_init proc (TraceThread_new c)));
     (s, w) \<leftarrow> pinner_events env proc (strategy_events proc (Sig_TaskCreated (op_pid proc))) sw;
     Some \<lparr>tr_thread = th, tr_left = False, tr_queue = [], tr_strategy = s, tr_world = w\<rparr>
   }"

text \<open>The strategy before its process starts: it knows no task and none of its process has a CPU.\<close>

definition fresh_strategy :: "observed_process \<Rightarrow> pinner \<times> world \<Rightarrow> bool" where
  "fresh_strategy proc = (\<lambda>(s, w). pinner_idle s \<and> pinner_tasks s = [] \<and> own_tasks (op_pid proc) (pinning w) = {})"

lemma own_once_none: "own_tasks p pins = {} \<Longrightarrow> own_once p pins"
  by (force simp: own_tasks_def own_once_def)

lemma start_inv:
  assumes "traced_start env k qt fs walk proc fuel rets c (s, w) = Some st" and "fresh_strategy proc (s, w)"
    and "op_pid proc \<in> tt_tasks (tr_thread st)"
  shows "tr_inv proc (tt_tasks (tr_thread st) - {op_pid proc}) st"
proof -
  from assms(1) obtain th s' w' where
    r: "run_start k qt fs walk proc fuel rets (snd (TraceThread_init proc (TraceThread_new c))) = Some th"
    and e: "pinner_event env proc (Created (op_pid proc)) (s, w) = Some (s', w')"
    and st: "st = \<lparr>tr_thread = th, tr_left = False, tr_queue = [], tr_strategy = s', tr_world = w'\<rparr>"
    by (auto simp: traced_start_def bind_eq_Some_conv split: option.splits)
  have n: "new_tasks th = {}" using run_start_quiet[OF r] by (simp add: TraceThread_init_def TraceThread_new_def)
  have f: "pinner_idle s" "pinner_tasks s = []" "own_tasks (op_pid proc) (pinning w) = {}"
    using assms(2) by (simp_all add: fresh_strategy_def)
  have "own_once (op_pid proc) (pinning w)" using f(3) by (rule own_once_none)
  from pinner.created_own[OF e f(1) this] pinner.created_effect[OF e f(1)] f n assms(3) show ?thesis
    by (auto simp: tr_inv_def st)
qed


text \<open>A machine that runs the single task 7.\<close>

definition solo_fs :: procfs where
  "solo_fs = \<lparr>entryList = [''/proc'' \<mapsto> [''7''], ''/proc/7/task'' \<mapsto> [''7'']],
     fileText = [''/proc/7/stat'' \<mapsto> stat_text ''7'' ''sh'' [''S'', ''1'', ''7'']]\<rparr>"

lemma solo_tasks:
  assumes p: "running proc" "op_pid proc = 7" and "\<not> isError c"
  shows "\<exists>t c'. getProcessTree demo_conv solo_fs 2 proc c = Some (t, c') \<and> \<not> isError c' \<and> getAllTasks t = {7}"
proof -
  have listed: "listed_pids demo_conv solo_fs = [7]"
    by (simp add: listed_pids_def solo_fs_def demo_conv_def exactMatch_integer_def int_or_zero_def)
  have parent: "parent_entry solo_fs 7 = ''1''"
    by (simp add: parent_entry_def getProcEntry_def solo_fs_def demo_numbers stat_entry_cases plain_def)
  have one: "int_or_zero (toInt10 demo_conv ''1'') = 1" by (simp add: demo_conv_def int_or_zero_def)
  have none: "q \<notin> children_of demo_conv solo_fs 7" for q
    using children_of_D[of q demo_conv solo_fs 7] by (auto simp: listed parent one)
  have "v = 7" if "(7, v) \<in> (child_rel demo_conv solo_fs)\<^sup>*" for v
    using that by (induction rule: rtrancl_induct) (auto simp: child_rel_def none)
  then have "descendants demo_conv solo_fs 7 = {7}" by (auto simp: descendants_def)
  moreover have "threads_of demo_conv solo_fs 7 = {7}"
    by (simp add: threads_of_def getProcessThreads_def solo_fs_def demo_numbers convertQStringList_def demo_conv_def int_or_zero_def)
  ultimately have live: "live_tasks demo_conv solo_fs 7 = {7}" by (simp add: live_tasks_def)
  have "(7, 7) \<notin> (child_rel demo_conv solo_fs)\<^sup>+"
    using none by (auto simp: child_rel_def dest: tranclD)
  moreover have "entryList solo_fs ''/proc'' = Some [''7'']" by (simp add: solo_fs_def)
  ultimately show ?thesis
    using tree_live_tasks[of proc c solo_fs _ demo_conv 2, unfolded p live] assms listed by simp
qed

lemma solo_attach:
  assumes "running proc" and "op_pid proc = 7" and "tt_tasks th = {}" and "\<not> isError (tt_context th)"
  shows "\<exists>th'. attach_loop demo_kernel demo_conv (\<lambda>_. solo_fs) 2 proc (Suc (Suc 0)) 0 {} th = Some ({}, th') \<and>
    tt_tasks th' = {7} \<and> tt_pid th' = tt_pid th \<and> exreq th' = exreq th"
proof -
  obtain t1 c1 where t1: "getProcessTree demo_conv solo_fs 2 proc (tt_context th) = Some (t1, c1)" "\<not> isError c1" "getAllTasks t1 = {7}"
    using solo_tasks[OF assms(1,2,4)] by auto
  obtain t2 c2 where t2: "getProcessTree demo_conv solo_fs 2 proc c1 = Some (t2, c2)" "getAllTasks t2 = {7}"
    using solo_tasks[OF assms(1,2) t1(2)] by auto
  show ?thesis by (simp add: t1 t2 attach_task_def ptrace_def demo_kernel_def assms(3))
qed

definition solo_strategy :: "pinner \<times> world" where
  "solo_strategy = (Noop_pinner ControlStrategy_new [], \<lparr>pinning = [emptyTask], affinity_calls = [], runtime = AutopinContext_new ''w''\<rparr>)"

lemma solo_start:
  "\<exists>st. traced_start demo_host_env demo_kernel demo_conv (\<lambda>_. solo_fs) 2 demo_op (Suc (Suc 0)) (0, 0) (AutopinContext_new ''w'')
      solo_strategy = Some st \<and>
    tt_tasks (tr_thread st) = {7} \<and> \<not> exreq (tr_thread st) \<and> tr_queue st = [] \<and> \<not> tr_left st \<and> \<not> is_scatter (tr_strategy st) \<and>
    pinner_tasks (tr_strategy st) = [7] \<and> length (pinning (tr_world st)) = 1"
proof -
  let ?th = "snd (TraceThread_init demo_op (TraceThread_new (AutopinContext_new ''w'')))"
  have p: "op_pid demo_op = 7" and running: "running demo_op" by (simp_all add: demo_op_def ObservedProcess_new_def)
  obtain th where th: "attach_loop demo_kernel demo_conv (\<lambda>_. solo_fs) 2 demo_op (Suc (Suc 0)) 0 {} ?th = Some ({}, th)"
      "tt_tasks th = {7}" "tt_pid th = 7" "\<not> exreq th"
    using solo_attach[of demo_op ?th] p running by (auto simp: TraceThread_init_def TraceThread_new_def)
  have "\<exists>th'. run_start demo_kernel demo_conv (\<lambda>_. solo_fs) 2 demo_op (Suc (Suc 0)) (0, 0) ?th = Some th' \<and> tt_tasks th' = {7} \<and> \<not> exreq th'"
    unfolding run_start_def setupSignalHandler_def attach_def Let_def
    using th by (simp add: ptraceContinue_def ptrace_def demo_kernel_def del: attach_loop.simps)
  moreover have "\<exists>s w. pinner_events demo_host_env demo_op (strategy_events demo_op (Sig_TaskCreated (op_pid demo_op))) solo_strategy = Some (s, w) \<and>
      \<not> is_scatter s \<and> pinner_tasks s = [7] \<and> length (pinning w) = 1"
    by (simp add: solo_strategy_def noop_slot_TaskCreated_def base_created p ControlStrategy_new_def)
  ultimately show ?thesis by (auto simp: traced_start_def)
qed


subsection \<open>The queue is emptied\<close>

lemma queue_drains:
  assumes "distances_known (h_topology env) (length (pinning (tr_world st)))" and "\<not> is_scatter (tr_strategy st)"
  shows "\<exists>st'. (tracing_step env k proc)\<^sup>*\<^sup>* st st' \<and> tr_queue st' = [] \<and> tr_thread st' = tr_thread st"
  using assms
proof (induction "tr_queue st" arbitrary: st)
  case Nil
  then show ?case by (metis rtranclp.rtrancl_refl)
next
  case (Cons sig queue)
  obtain s w where sw: "pinner_events env proc (strategy_events proc sig) (tr_strategy st, tr_world st) = Some (s, w)"
      "\<not> is_scatter s" "length (pinning w) = length (pinning (tr_world st))"
    using pinner_events_return[OF Cons.prems] by blast
  let ?st = "st\<lparr>tr_queue := queue, tr_strategy := s, tr_world := w\<rparr>"
  have step: "tracing_step env k proc st ?st" using Cons.hyps(2) sw(1) by (intro delivers) simp_all
  have "\<exists>st'. (tracing_step env k proc)\<^sup>*\<^sup>* ?st st' \<and> tr_queue st' = [] \<and> tr_thread st' = tr_thread ?st"
    using Cons.hyps(1)[of ?st] Cons.prems(1) sw by simp
  with step show ?case by (auto intro: converse_rtranclp_into_rtranclp)
qed



subsection \<open>The program starts when it is traced\<close>

text \<open>What attaching has done between two states: no task was let go, and each new one has its tracing options.\<close>

definition attached_between :: "trace_thread \<Rightarrow> trace_thread \<Rightarrow> bool" where
  "attached_between st st' \<longleftrightarrow> tt_pid st' = tt_pid st \<and> tt_tasks st \<subseteq> tt_tasks st' \<and>
     (\<exists>cs. sys_calls st' = sys_calls st @ cs \<and> (\<forall>p. KILL p \<notin> set cs) \<and>
       (\<forall>t\<in>tt_tasks st' - tt_tasks st. PTRACE_SETOPTIONS t \<in> set cs))"

lemma attached_refl: "tt_pid st' = tt_pid st \<Longrightarrow> tt_tasks st' = tt_tasks st \<Longrightarrow> sys_calls st' = sys_calls st \<Longrightarrow> attached_between st st'"
  by (simp add: attached_between_def)

lemma attached_trans:
  assumes "attached_between st st1" and "attached_between st1 st2"
  shows "attached_between st st2"
proof -
  obtain a b where "sys_calls st1 = sys_calls st @ a" "\<forall>p. KILL p \<notin> set a" "\<forall>t\<in>tt_tasks st1 - tt_tasks st. PTRACE_SETOPTIONS t \<in> set a"
    "sys_calls st2 = sys_calls st1 @ b" "\<forall>p. KILL p \<notin> set b" "\<forall>t\<in>tt_tasks st2 - tt_tasks st1. PTRACE_SETOPTIONS t \<in> set b"
    using assms unfolding attached_between_def by blast
  then have "sys_calls st2 = sys_calls st @ (a @ b)" "\<forall>p. KILL p \<notin> set (a @ b)"
    "\<forall>t\<in>tt_tasks st2 - tt_tasks st. PTRACE_SETOPTIONS t \<in> set (a @ b)" by auto
  then show ?thesis using assms unfolding attached_between_def by (intro conjI exI[of _ "a @ b"]) auto
qed

lemma attach_task_attached: "attach_task k t (ch, nt, st) = (ch', nt', st') \<Longrightarrow> attached_between st st'"
  by (auto simp: attach_task_def ptrace_def attached_between_def Let_def split: if_splits option.splits wait_status.splits)

lemma attach_fold_attached: "fold (attach_task k) ts (ch, nt, st) = (ch', nt', st') \<Longrightarrow> attached_between st st'"
proof (induction ts arbitrary: ch nt st)
  case Nil
  then show ?case by (simp add: attached_refl)
next
  case (Cons t ts)
  obtain ch1 nt1 st1 where s1: "attach_task k t (ch, nt, st) = (ch1, nt1, st1)" by (metis prod_cases3)
  from attached_trans[OF attach_task_attached[OF s1] Cons.IH[of ch1 nt1 st1]] Cons.prems s1 show ?case by simp
qed

lemma attach_loop_attached:
  "attach_loop k qt fs walk proc fuel n nt st = Some (nt', st') \<Longrightarrow> attached_between st st'"
proof (induction fuel arbitrary: n nt st)
  case 0
  then show ?case by simp
next
  case (Suc fuel)
  then obtain tree c where t: "getProcessTree qt (fs n) walk proc (tt_context st) = Some (tree, c)" by (auto split: option.splits)
  obtain ch nt1 st1 where f: "fold (attach_task k) (sorted_list_of_set (getAllTasks tree)) (False, nt, st\<lparr>tt_context := c\<rparr>)
      = (ch, nt1, st1)" by (metis prod_cases3)
  have "attached_between st st1"
    by (rule attached_trans[OF attached_refl attach_fold_attached[OF f]]) simp_all
  with attached_trans[OF this Suc.IH[of "n + 1" nt1]] Suc.prems t f show ?case by (auto split: if_splits)
qed

lemma continue_attached: "attached_between st (ptraceContinue k t 0 st)"
  by (simp add: attached_between_def ptraceContinue_def ptrace_def)

lemma continue_all_attached: "attached_between st (fold (\<lambda>e. ptraceContinue k e 0) ts st)"
  by (induction ts arbitrary: st) (auto intro: attached_refl attached_trans[OF continue_attached])

text \<open>
  C20. A program that autopin+ starts and traces runs only under the tracer: the child waits for \<open>SIGUSR1\<close>, and executes the program after the
  first sleep in which it arrives, never without it; \<open>attach\<close> sends it once, as its last call, when every task it
  traces has been given its tracing options.
\<close>

theorem program_starts_traced:
  assumes "attach k qt fs walk proc fuel st = Some st'" and "exec proc"
  shows "child_wait False sigs = (if True \<in> set sigs then Some (Suc (length (takeWhile Not sigs))) else None) \<and>
    (\<exists>cs. sys_calls st' = sys_calls st @ cs @ [KILL (tt_pid st)] \<and> (\<forall>p. KILL p \<notin> set cs) \<and>
       (\<forall>t\<in>tt_tasks st' - tt_tasks st. PTRACE_SETOPTIONS t \<in> set cs))"
proof -
  from assms obtain nt st1 where a: "attach_loop k qt fs walk proc fuel 0 {} st = Some (nt, st1)"
    and st': "st' = (let st2 = fold (\<lambda>e. ptraceContinue k e 0) (sorted_list_of_set (tt_tasks st1)) st1
      in st2\<lparr>sys_calls := sys_calls st2 @ [KILL (tt_pid st2)]\<rparr>)"
    by (auto simp: attach_def Let_def split: option.splits)
  let ?st2 = "fold (\<lambda>e. ptraceContinue k e 0) (sorted_list_of_set (tt_tasks st1)) st1"
  have b: "attached_between st ?st2" using attached_trans[OF attach_loop_attached[OF a] continue_all_attached] .
  then obtain cs where "sys_calls ?st2 = sys_calls st @ cs" "\<forall>p. KILL p \<notin> set cs"
    "\<forall>t\<in>tt_tasks ?st2 - tt_tasks st. PTRACE_SETOPTIONS t \<in> set cs" "tt_pid ?st2 = tt_pid st"
    unfolding attached_between_def by blast
  then show ?thesis by (simp add: child_wait_first st' Let_def)
qed

theorem program_starts_traced_witness:
  "\<exists>st' cs. attach demo_kernel demo_conv (\<lambda>_. solo_fs) 2 (demo_op\<lparr>exec := True\<rparr>) (Suc (Suc 0)) (snd (TraceThread_init demo_op (TraceThread_new (AutopinContext_new ''w'')))) = Some st' \<and>
    sys_calls st' = cs @ [KILL 7]"
proof -
  let ?op = "demo_op\<lparr>exec := True\<rparr>"
  have "running ?op" "op_pid ?op = 7" by (simp_all add: demo_op_def ObservedProcess_new_def)
  then obtain th where "attach demo_kernel demo_conv (\<lambda>_. solo_fs) 2 ?op (Suc (Suc 0)) (snd (TraceThread_init demo_op (TraceThread_new (AutopinContext_new ''w'')))) = Some th"
    using solo_attach[of ?op "snd (TraceThread_init demo_op (TraceThread_new (AutopinContext_new ''w'')))"]
    by (auto simp: attach_def TraceThread_init_def TraceThread_new_def Let_def simp del: attach_loop.simps)
  from program_starts_traced[OF this, of "[]"] this show ?thesis
    by (auto simp: TraceThread_init_def TraceThread_new_def demo_op_def ObservedProcess_new_def)
qed

end
