(* ===== verification/Autopin.thy ===== *)
theory Autopin
  imports Watchdog
begin

text \<open>
  \<open>src/AutopinPlus/Autopin.cpp\<close>: the application object. It reads the command line and the global
  configuration, sets up logging, the MQTT client, the signal handler and the CPU topology, creates a watchdog for
  each configuration, and removes the watchdogs that have stopped. Watchdogs are named by
  consecutive numbers, which stand for their addresses. The results of \<open>getopt_long\<close>, which are the
  values it returns before -1 and the argument at \<open>optind\<close>, are arguments of the setup; files and
  libraries are in \<open>ap_env\<close>. \<open>None\<close> is undefined behaviour or an exception nobody catches.
\<close>

datatype getopt_result = Opt_v | Opt_h | Opt_c QString | Opt_d | Opt_unknown

datatype logging_t = STDOUT | LOGFILE QString | SYSLOG

record ap_env =
  ae_files :: files
  ae_logger :: "logging_t \<Rightarrow> bool" \<comment> \<open>whether spdlog creates the logger without an exception\<close>
  ae_mosquitto :: mosquitto
  ae_qt :: qt_conv
  ae_hostname :: string \<comment> \<open>what \<open>gethostname\<close> would store in a buffer that is large enough\<close>
  ae_signals :: "int \<times> int" \<comment> \<open>the results of \<open>sigemptyset\<close> and \<open>sigaction\<close>\<close>
  ae_socketpair :: int
  ae_nprocs :: nat
  ae_watchdog :: "nat \<Rightarrow> wd_env" \<comment> \<open>the system as the n-th watchdog finds it\<close>

record autopin =
  ap_context :: "apcontext option"
  watchdogs :: "nat list"
  isDaemon :: bool
  ap_logger :: "logging_t option" \<comment> \<open>the static member \<open>AutopinContext::logger\<close>\<close>
  ap_clust :: clust_static
  ap_dispatcher :: dispatcher
  ap_topology :: cpu_info
  ap_mqtt :: bool \<comment> \<open>whether \<open>sig_receivedProcessConfig\<close> is connected\<close>
  ap_world :: world \<comment> \<open>the pinning shared by all watchdogs\<close>
  ap_counter :: nat \<comment> \<open>\<open>Watchdog::counter\<close>\<close>
  ap_new :: nat \<comment> \<open>how many watchdogs have been created\<close>
  ap_deleted :: "nat list" \<comment> \<open>the watchdogs \<open>deleteLater\<close> was called for\<close>
  ap_ready :: bool \<comment> \<open>whether \<open>sig_autopinReady\<close> was emitted\<close>
  ap_exits :: "int list" \<comment> \<open>the calls of \<open>QCoreApplication::exit\<close>\<close>
  ap_dogs :: "nat \<Rightarrow> (watchdog \<times> apcontext) option" \<comment> \<open>the watchdogs after their \<open>slot_watchdogRun\<close>\<close>

definition autopin_new :: autopin where
  "autopin_new = \<lparr>ap_context = None, watchdogs = [], isDaemon = False, ap_logger = None, ap_clust = clust_static_new,
     ap_dispatcher = dispatcher_new, ap_topology = \<lparr>distances = [], mapping = []\<rparr>, ap_mqtt = False,
     ap_world = \<lparr>pinning = [], affinity_calls = [], runtime = AutopinContext_new []\<rparr>,
     ap_counter = 0, ap_new = 0, ap_deleted = [], ap_ready = False, ap_exits = [], ap_dogs = Map.empty\<rparr>"

definition ap_exit :: "int \<Rightarrow> autopin \<Rightarrow> autopin" where
  "ap_exit n ap = ap\<lparr>ap_exits := ap_exits ap @ [n]\<rparr>"

definition ap_report :: "autopin_errors \<Rightarrow> string \<Rightarrow> autopin \<Rightarrow> autopin" where
  "ap_report e opt ap = ap\<lparr>ap_context := map_option (report e opt) (ap_context ap)\<rparr>"

subsection \<open>The options\<close>

text \<open>The array \<open>long_options\<close>: the name, whether an argument is required, and the value; a terminating entry is missing.\<close>

definition long_options :: "(string \<times> bool \<times> char) list" where
  "long_options = [(''conf'', True, CHR ''c''), (''daemon'', False, CHR ''d''), (''version'', False, CHR ''v''), (''help'', False, CHR ''h'')]"

definition printVersion :: "string \<Rightarrow> string \<Rightarrow> string \<Rightarrow> string" where
  "printVersion app version qt = app @ '' '' @ version @ [CHR 0x0A] @ ''QT Version: '' @ qt @ [CHR 0x0A]"

definition setw_left :: "nat \<Rightarrow> string \<Rightarrow> string" where \<comment> \<open>\<open>std::left << std::setw(n) << s\<close>\<close>
  "setw_left n s = s @ replicate (n - length s) CHR '' ''"

definition printHelp :: "string \<Rightarrow> string \<Rightarrow> string \<Rightarrow> string" where
  "printHelp app version qt = printVersion app version qt @
     [CHR 0x0A] @ ''Usage: '' @ app @ '' [OPTION] [GLOBAL_CONFIG_FILE]'' @ [CHR 0x0A] @
     ''Options:'' @ [CHR 0x0A] @
     setw_left 30 ''  -c, --config=CONFIG_FILE'' @ ''Read process-configuration options from file.'' @ [CHR 0x0A] @
     setw_left 30 [] @ ''There can be multiple occurrences of this option!'' @ [CHR 0x0A] @
     setw_left 30 ''  -d, --daemon'' @ ''Run autopin as a daemon.'' @ [CHR 0x0A] @
     setw_left 30 ''  -v, --version'' @ ''Prints version and exit'' @ [CHR 0x0A] @
     setw_left 30 ''  -h, --help'' @ ''Prints this help and exit'' @ [CHR 0x0A]"

text \<open>\<open>getopt_long\<close> accepts a name when it begins the name of exactly one entry.\<close>

definition long_matches :: "string \<Rightarrow> (string \<times> bool \<times> char) list" where
  "long_matches name = filter (\<lambda>entry. take (length name) (fst entry) = name) long_options"

text \<open>Of the long options in the help text, the first one is not accepted.\<close>

lemma documented_options:
  "long_matches ''config'' = []" "long_matches ''daemon'' = [(''daemon'', False, CHR ''d'')]"
  "long_matches ''version'' = [(''version'', False, CHR ''v'')]" "long_matches ''help'' = [(''help'', False, CHR ''h'')]"
  by (simp_all add: long_matches_def long_options_def)

subsection \<open>Setup\<close>

text \<open>The loop over the options; \<open>Inl\<close> is an exit code.\<close>

fun parse_options :: "getopt_result list \<Rightarrow> QStringList \<times> bool \<Rightarrow> (int \<times> bool) + (QStringList \<times> bool)" where
  "parse_options [] st = Inr st"
| "parse_options (Opt_v # os) (configPaths, daemon) = Inl (0, daemon)"
| "parse_options (Opt_h # os) (configPaths, daemon) = Inl (0, daemon)"
| "parse_options (Opt_c optarg # os) (configPaths, daemon) = parse_options os (configPaths @ [optarg], daemon)"
| "parse_options (Opt_d # os) (configPaths, daemon) = parse_options os (configPaths, True)"
| "parse_options (Opt_unknown # os) (configPaths, daemon) = Inl (2, daemon)"

text \<open>
  The global configuration is read before there is a logger: a report of the parser goes through
  the null pointer.
\<close>

definition globalConfig :: "ap_env \<Rightarrow> QString option \<Rightarrow> string_map option option" where
  "globalConfig env arg =
     (case ae_files env (case arg of None \<Rightarrow> [] | Some path \<Rightarrow> path) of
        None \<Rightarrow> Some None
      | Some text \<Rightarrow>
          (let (config, c) = StandardConfiguration_init text (AutopinContext_new ''GlobalConfig'') in
           if errors (err c) \<noteq> [] then None else Some (Some config)))"

definition logging_of :: "string_map option \<Rightarrow> logging_t" where
  "logging_of config =
     (case config of None \<Rightarrow> STDOUT
      | Some config \<Rightarrow>
          (let logtype = getConfigOption config ''log.type'' 0 in
           if logtype = ''syslog'' then SYSLOG
           else if logtype = ''file'' then
             (let logfilePath = getConfigOption config ''log.file'' 0 in
              if logfilePath \<noteq> [] then LOGFILE logfilePath else LOGFILE ''log.txt'')
           else STDOUT))"

text \<open>When spdlog throws, there is no logger and the next log message goes through the null pointer.\<close>

definition setupLogging :: "ap_env \<Rightarrow> logging_t \<Rightarrow> autopin \<Rightarrow> autopin" where
  "setupLogging env type ap = (if ae_logger env type then ap\<lparr>ap_logger := Some type\<rparr> else ap_exit (-2) ap)"

text \<open>\<open>Inl\<close> stands for the early return after a call of \<open>exit\<close>.\<close>

definition setup_services :: "ap_env \<Rightarrow> QString \<Rightarrow> string_map option \<Rightarrow> autopin \<Rightarrow> autopin + autopin" where
  "setup_services env host config ap =
     (case config of None \<Rightarrow> Inr ap
      | Some config \<Rightarrow>
          if isDaemon ap \<and> mqtt_init (ae_mosquitto env) (ae_qt env) host config \<noteq> [] then Inl (ap_exit 1 ap)
          else Inr (ap\<lparr>ap_mqtt := isDaemon ap, ap_clust := init_static (ae_qt env) config (ap_clust ap)\<rparr>))"

definition setup_signals :: "ap_env \<Rightarrow> autopin \<Rightarrow> autopin + autopin" where
  "setup_signals env ap =
     (let (ret, d) = setupSignalHandler_chld (ae_signals env) (ae_socketpair env) (ap_dispatcher ap);
          ap = ap\<lparr>ap_dispatcher := d\<rparr>
      in if ret \<noteq> 0 then Inl (ap_exit 1 (ap_report SYSTEM ''sigset'' ap)) else Inr ap)"

text \<open>A configuration is parsed with the global context, then the watchdog is created.\<close>

definition new_watchdog :: "QString \<Rightarrow> autopin \<Rightarrow> (nat \<times> string_map \<times> autopin) option" where
  "new_watchdog configText ap =
     (case ap_context ap of None \<Rightarrow> None
      | Some c \<Rightarrow>
          (let (config, c) = StandardConfiguration_init configText c
           in Some (ap_new ap, config,
                ap\<lparr>ap_context := Some c, watchdogs := watchdogs ap @ [ap_new ap], ap_new := ap_new ap + 1\<rparr>)))"

fun read_configs :: "ap_env \<Rightarrow> QStringList \<Rightarrow> (nat \<times> string_map) list \<times> autopin \<Rightarrow> ((nat \<times> string_map) list \<times> autopin) option" where
  "read_configs env [] (ds, ap) = Some (ds, ap)"
| "read_configs env (configPath # configPaths) (ds, ap) =
     (case ae_files env configPath of
        Some text \<Rightarrow>
          (case new_watchdog text ap of None \<Rightarrow> None
           | Some (k, config, ap) \<Rightarrow> read_configs env configPaths (ds @ [(k, config)], ap))
      | None \<Rightarrow> read_configs env configPaths (ds, ap_report FILE_NOT_FOUND ''config_file'' ap))"

subsection \<open>Watchdogs\<close>

definition slot_watchdogStop :: "nat \<Rightarrow> autopin \<Rightarrow> autopin" where
  "slot_watchdogStop sender ap =
     (let ap = ap\<lparr>watchdogs := removeAll sender (watchdogs ap), ap_deleted := ap_deleted ap @ [sender]\<rparr>
      in if \<not> isDaemon ap \<and> watchdogs ap = [] then ap_exit 0 ap else ap)"

text \<open>
  The slot of the watchdog with everything it triggers here: each time its context emits
  \<open>sig_error\<close> the watchdog emits \<open>sig_watchdogStop\<close>.
\<close>

definition run_watchdog :: "ap_env \<Rightarrow> nat \<times> string_map \<Rightarrow> autopin \<Rightarrow> autopin option" where
  "run_watchdog env = (\<lambda>(k, config) ap.
     (case slot_watchdogRun ((ae_watchdog env k)\<lparr>wd_topology := ap_topology ap\<rparr>) config (ap_counter ap) (ap_world ap) of
        None \<Rightarrow> None
      | Some (counter, d, w) \<Rightarrow>
          Some ((slot_watchdogStop k ^^ sig_error (runtime w))
            (ap\<lparr>ap_counter := counter, ap_world := w, ap_dogs := (ap_dogs ap)(k \<mapsto> (d, runtime w))\<rparr>))))"

fun run_watchdogs :: "ap_env \<Rightarrow> (nat \<times> string_map) list \<Rightarrow> autopin \<Rightarrow> autopin option" where
  "run_watchdogs env [] ap = Some ap"
| "run_watchdogs env (kc # kcs) ap =
     (case run_watchdog env kc ap of None \<Rightarrow> None | Some ap \<Rightarrow> run_watchdogs env kcs ap)"

definition slot_runProcess :: "ap_env \<Rightarrow> QString \<Rightarrow> autopin \<Rightarrow> autopin option" where
  "slot_runProcess env configText ap =
     (case new_watchdog configText ap of None \<Rightarrow> None | Some (k, config, ap) \<Rightarrow> run_watchdog env (k, config) ap)"

text \<open>The part of the setup after the signal handler: topology, configurations, \<open>sig_autopinReady\<close>.\<close>

definition setup_watchdogs :: "ap_env \<Rightarrow> QStringList \<Rightarrow> autopin \<Rightarrow> autopin option" where
  "setup_watchdogs env configPaths ap = do {
     ci \<leftarrow> setupCpuInfo (ae_qt env) (ae_files env) (ae_nprocs env) (ap_topology ap);
     (ds, ap) \<leftarrow> read_configs env configPaths ([], ap\<lparr>ap_topology := ci\<rparr>);
     let ap = (if \<not> isDaemon ap \<and> watchdogs ap = [] then ap_exit 0 ap else ap);
     run_watchdogs env ds (ap\<lparr>ap_ready := True\<rparr>)
   }"

definition slot_autopinSetup :: "ap_env \<Rightarrow> getopt_result list \<Rightarrow> QString option \<Rightarrow> autopin \<Rightarrow> autopin option" where
  "slot_autopinSetup env opts arg ap =
     (case parse_options opts ([], isDaemon ap) of
        Inl (code, daemon) \<Rightarrow> Some (ap_exit code (ap\<lparr>isDaemon := daemon\<rparr>))
      | Inr (configPaths, daemon) \<Rightarrow>
          do {
            config \<leftarrow> globalConfig env arg;
            let ap = setupLogging env (logging_of config) (ap\<lparr>isDaemon := daemon\<rparr>);
            _ \<leftarrow> ap_logger ap;
            let ap = ap\<lparr>ap_context := Some (AutopinContext_new ''global'')\<rparr>;
            host \<leftarrow> getHostname_static (ae_hostname env);
            (case setup_services env host config ap of
               Inl ap \<Rightarrow> Some ap
             | Inr ap \<Rightarrow>
                 (case setup_signals env ap of
                    Inl ap \<Rightarrow> Some ap
                  | Inr ap \<Rightarrow> setup_watchdogs env configPaths ap))
          })"

subsection \<open>Life cycle\<close>

text \<open>
  A child process has terminated. \<open>sig_ProcTerminated\<close> of the dispatcher is connected to the process of each watchdog
  that got as far as starting it; if it is that process which has terminated, the watchdog emits \<open>sig_watchdogStop\<close>.
\<close>

definition dog_ProcTerminated :: "int \<times> int \<Rightarrow> nat \<Rightarrow> autopin \<Rightarrow> autopin" where
  "dog_ProcTerminated = (\<lambda>(p, status) k ap.
     (case ap_dogs ap k of None \<Rightarrow> ap
      | Some (d, c) \<Rightarrow>
          if wd_ready d then
            let (op, sigs) = op_slot_ProcTerminated p status (wd_process d);
                ap = ap\<lparr>ap_dogs := (ap_dogs ap)(k \<mapsto> (d\<lparr>wd_process := op\<rparr>, c))\<rparr>;
                slots = concat (map (\<lambda>s. createComponentConnections (Process_signal s)) sigs)
            in (slot_watchdogStop k ^^ count_list slots Emit_watchdogStop) ap
          else ap))"

definition dispatch_ProcTerminated :: "int \<times> int \<Rightarrow> autopin \<Rightarrow> autopin" where
  "dispatch_ProcTerminated info ap = fold (dog_ProcTerminated info) (watchdogs ap) ap"

text \<open>
  What happens after the setup: a watchdog emits \<open>sig_watchdogStop\<close> because its context has an error; the MQTT client
  receives a message, which reaches the application when it is a command and the signal is connected;
  the signal handler reaps children, or the event loop reads one of them from the socket pair.
\<close>

datatype ap_event = Dog_stops nat | Message string string | Dispatcher dispatch_event

fun ap_step :: "ap_env \<Rightarrow> ap_event \<Rightarrow> autopin \<Rightarrow> autopin option" where
  "ap_step env (Dog_stops k) ap = Some (if k < ap_new ap then slot_watchdogStop k ap else ap)"
| "ap_step env (Message topic payload) ap =
     (case (ap_mqtt ap, messageCallback topic payload) of
        (True, Some configText) \<Rightarrow> slot_runProcess env configText ap
      | _ \<Rightarrow> Some ap)"
| "ap_step env (Dispatcher e) ap =
     (let d = dispatch_run [e] (ap_dispatcher ap);
          emitted = drop (length (proc_terminated (ap_dispatcher ap))) (proc_terminated d)
      in Some (fold dispatch_ProcTerminated emitted (ap\<lparr>ap_dispatcher := d\<rparr>)))"

fun ap_run :: "ap_env \<Rightarrow> ap_event list \<Rightarrow> autopin \<Rightarrow> autopin option" where
  "ap_run env [] ap = Some ap"
| "ap_run env (e # es) ap = (case ap_step env e ap of None \<Rightarrow> None | Some ap \<Rightarrow> ap_run env es ap)"

text \<open>
  The bookkeeping: the list holds the watchdogs that have been created and have not stopped, and the
  application has been asked to exit exactly when it is no daemon and the list is empty.
\<close>

definition bookkeeping :: "autopin \<Rightarrow> bool" where
  "bookkeeping ap \<longleftrightarrow> distinct (watchdogs ap) \<and> set (watchdogs ap) = {k. k < ap_new ap \<and> k \<notin> set (ap_deleted ap)} \<and>
     set (ap_deleted ap) \<subseteq> {..<ap_new ap} \<and> (ap_mqtt ap \<longrightarrow> isDaemon ap) \<and>
     (\<forall>k d c. ap_dogs ap k = Some (d, c) \<and> 0 < sig_error c \<longrightarrow> k \<in> set (ap_deleted ap))"

definition exits_when_idle :: "autopin \<Rightarrow> bool" where
  "exits_when_idle ap \<longleftrightarrow> set (ap_exits ap) \<subseteq> {0} \<and> (ap_exits ap \<noteq> [] \<longleftrightarrow> \<not> isDaemon ap \<and> watchdogs ap = [])"

lemma stop_fields [simp]:
  "ap_new (slot_watchdogStop k ap) = ap_new ap" "isDaemon (slot_watchdogStop k ap) = isDaemon ap"
  "ap_mqtt (slot_watchdogStop k ap) = ap_mqtt ap" "ap_dogs (slot_watchdogStop k ap) = ap_dogs ap"
  "ap_ready (slot_watchdogStop k ap) = ap_ready ap"
  "watchdogs (slot_watchdogStop k ap) = removeAll k (watchdogs ap)" "ap_deleted (slot_watchdogStop k ap) = ap_deleted ap @ [k]"
  by (simp_all add: slot_watchdogStop_def ap_exit_def Let_def)

lemma stop_bookkeeping: "bookkeeping ap \<Longrightarrow> k < ap_new ap \<Longrightarrow> bookkeeping (slot_watchdogStop k ap)"
  by (auto simp: bookkeeping_def distinct_removeAll)

lemma stop_exits: "exits_when_idle ap \<Longrightarrow> exits_when_idle (slot_watchdogStop k ap)"
  by (auto simp: exits_when_idle_def slot_watchdogStop_def ap_exit_def Let_def)

lemma stops_fields [simp]:
  "ap_new ((slot_watchdogStop k ^^ n) ap) = ap_new ap" "isDaemon ((slot_watchdogStop k ^^ n) ap) = isDaemon ap"
  "ap_mqtt ((slot_watchdogStop k ^^ n) ap) = ap_mqtt ap" "ap_dogs ((slot_watchdogStop k ^^ n) ap) = ap_dogs ap"
  "ap_ready ((slot_watchdogStop k ^^ n) ap) = ap_ready ap"
  "watchdogs ((slot_watchdogStop k ^^ n) ap) = (if n = 0 then watchdogs ap else removeAll k (watchdogs ap))"
  "set (ap_deleted ((slot_watchdogStop k ^^ n) ap)) = set (ap_deleted ap) \<union> (if n = 0 then {} else {k})"
  by (induction n) auto

lemma stops_exits: "exits_when_idle ap \<Longrightarrow> exits_when_idle ((slot_watchdogStop k ^^ n) ap)"
  by (induction n) (simp_all add: stop_exits)

lemma run_watchdog_keeps:
  assumes "run_watchdog env (k, config) ap = Some ap'" and "bookkeeping ap" and "exits_when_idle ap" and "k < ap_new ap"
  shows "bookkeeping ap' \<and> exits_when_idle ap' \<and> ap_new ap' = ap_new ap \<and> ap_ready ap' = ap_ready ap"
proof -
  from assms(1) obtain counter d w where ap': "ap' = (slot_watchdogStop k ^^ sig_error (runtime w))
      (ap\<lparr>ap_counter := counter, ap_world := w, ap_dogs := (ap_dogs ap)(k \<mapsto> (d, runtime w))\<rparr>)"
    by (auto simp: run_watchdog_def split: option.splits)
  have "bookkeeping ap'"
    using assms(2,4) by (auto simp: ap' bookkeeping_def distinct_removeAll split: if_splits)
  moreover have "exits_when_idle (ap\<lparr>ap_counter := counter, ap_world := w, ap_dogs := (ap_dogs ap)(k \<mapsto> (d, runtime w))\<rparr>)"
    using assms(3) by (simp add: exits_when_idle_def)
  ultimately show ?thesis by (simp add: ap' stops_exits)
qed

lemma run_watchdogs_keeps:
  assumes "run_watchdogs env kcs ap = Some ap'" and "bookkeeping ap" and "exits_when_idle ap" and "\<forall>(k, config)\<in>set kcs. k < ap_new ap"
  shows "bookkeeping ap' \<and> exits_when_idle ap' \<and> ap_new ap' = ap_new ap \<and> ap_ready ap' = ap_ready ap"
  using assms
proof (induction kcs arbitrary: ap)
  case Nil
  then show ?case by simp
next
  case (Cons kc kcs)
  obtain k config where kc: "kc = (k, config)" by fastforce
  with Cons.prems obtain ap1 where ap1: "run_watchdog env (k, config) ap = Some ap1" "run_watchdogs env kcs ap1 = Some ap'"
    by (auto split: option.splits)
  from Cons.prems kc run_watchdog_keeps[OF ap1(1)]
  have k: "bookkeeping ap1" "exits_when_idle ap1" "ap_new ap1 = ap_new ap" "ap_ready ap1 = ap_ready ap" by auto
  with Cons.IH[OF ap1(2)] Cons.prems(4) show ?case by simp
qed

lemma new_watchdog_effect:
  assumes "new_watchdog text ap = Some (k, config, ap')"
  shows "k = ap_new ap \<and> ap_new ap' = ap_new ap + 1 \<and> watchdogs ap' = watchdogs ap @ [k] \<and> ap_exits ap' = ap_exits ap \<and>
    isDaemon ap' = isDaemon ap \<and> ap_mqtt ap' = ap_mqtt ap \<and> ap_dogs ap' = ap_dogs ap \<and> ap_deleted ap' = ap_deleted ap \<and>
    ap_ready ap' = ap_ready ap"
  using assms by (auto simp: new_watchdog_def Let_def split: option.splits prod.splits)

lemma new_watchdog_bookkeeping:
  assumes "new_watchdog text ap = Some (k, config, ap')" and "bookkeeping ap"
  shows "bookkeeping ap'"
  using assms(2) new_watchdog_effect[OF assms(1)] by (auto simp: bookkeeping_def less_Suc_eq)

lemma report_bookkeeping [simp]:
  "bookkeeping (ap_report e opt ap) = bookkeeping ap" "ap_new (ap_report e opt ap) = ap_new ap"
  "ap_exits (ap_report e opt ap) = ap_exits ap"
  by (simp_all add: bookkeeping_def ap_report_def)

text \<open>The configurations that can be read get one watchdog each, in order.\<close>

lemma read_configs_effect:
  assumes "read_configs env paths (ds, ap) = Some (ds', ap')" and "bookkeeping ap"
    and "\<forall>(k, config)\<in>set ds. k < ap_new ap"
  shows "bookkeeping ap' \<and> (\<forall>(k, config)\<in>set ds'. k < ap_new ap') \<and> ap_exits ap' = ap_exits ap \<and>
    ap_new ap' = ap_new ap + length (filter (\<lambda>p. ae_files env p \<noteq> None) paths)"
  using assms
proof (induction env paths "(ds, ap)" arbitrary: ds ap rule: read_configs.induct)
  case (1 env ds ap)
  then show ?case by simp
next
  case (2 env path paths ds ap)
  show ?case
  proof (cases "ae_files env path")
    case None
    have "read_configs env paths (ds, ap_report FILE_NOT_FOUND ''config_file'' ap) = Some (ds', ap')" using 2(3) None by simp
    from 2(1)[OF None this] 2(4,5) None show ?thesis by (auto simp: case_prod_unfold)
  next
    case (Some configText)
    with 2(3) obtain k config ap1 where ap1: "new_watchdog configText ap = Some (k, config, ap1)"
      and r: "read_configs env paths (ds @ [(k, config)], ap1) = Some (ds', ap')" by (auto split: option.splits)
    note e = new_watchdog_effect[OF ap1]
    have "\<forall>(k, config)\<in>set (ds @ [(k, config)]). k < ap_new ap1" using 2(5) e by auto
    from 2(2)[OF Some ap1 refl refl r new_watchdog_bookkeeping[OF ap1 2(4)] this] e Some show ?thesis by (auto simp: case_prod_unfold)
  qed
qed

lemma setup_watchdogs_keeps:
  assumes "setup_watchdogs env paths ap = Some ap'" and "bookkeeping ap" and "ap_exits ap = []"
  shows "bookkeeping ap' \<and> exits_when_idle ap' \<and> ap_new ap' = ap_new ap + length (filter (\<lambda>p. ae_files env p \<noteq> None) paths)"
proof -
  from assms(1) obtain ci ds ap1 where r: "read_configs env paths ([], ap\<lparr>ap_topology := ci\<rparr>) = Some (ds, ap1)"
    and run: "run_watchdogs env ds ((if \<not> isDaemon ap1 \<and> watchdogs ap1 = [] then ap_exit 0 ap1 else ap1)\<lparr>ap_ready := True\<rparr>) = Some ap'"
    by (auto simp: setup_watchdogs_def bind_eq_Some_conv Let_def)
  let ?ap = "(if \<not> isDaemon ap1 \<and> watchdogs ap1 = [] then ap_exit 0 ap1 else ap1)\<lparr>ap_ready := True\<rparr>"
  have b: "bookkeeping (ap\<lparr>ap_topology := ci\<rparr>)" using assms(2) by (simp add: bookkeeping_def)
  from read_configs_effect[OF r b] assms(3) have e: "bookkeeping ap1" "\<forall>(k, config)\<in>set ds. k < ap_new ap1" "ap_exits ap1 = []"
    "ap_new ap1 = ap_new ap + length (filter (\<lambda>p. ae_files env p \<noteq> None) paths)" by auto
  then have "bookkeeping ?ap" "exits_when_idle ?ap" "ap_new ?ap = ap_new ap1"
    by (auto simp: bookkeeping_def exits_when_idle_def ap_exit_def)
  with run_watchdogs_keeps[OF run] e(2,4) show ?thesis by simp
qed

text \<open>The setup that becomes ready has got as far as the configurations.\<close>

lemma setup_phases:
  assumes "slot_autopinSetup env opts arg autopin_new = Some ap" and "ap_ready ap"
  shows "\<exists>paths daemon ap2. parse_options opts ([], False) = Inr (paths, daemon) \<and> setup_watchdogs env paths ap2 = Some ap \<and>
    bookkeeping ap2 \<and> ap_exits ap2 = [] \<and> ap_new ap2 = 0"
proof -
  have new: "isDaemon autopin_new = False" "ap_ready autopin_new = False" "ap_logger autopin_new = None"
    by (simp_all add: autopin_new_def)
  obtain paths daemon where p: "parse_options opts ([], False) = Inr (paths, daemon)"
    using assms by (auto simp: slot_autopinSetup_def new ap_exit_def split: sum.splits prod.splits)
  from assms p obtain config host where config: "globalConfig env arg = Some config" and logger: "ae_logger env (logging_of config)"
    and rest: "(case setup_services env host config (autopin_new\<lparr>isDaemon := daemon, ap_logger := Some (logging_of config),
        ap_context := Some (AutopinContext_new ''global'')\<rparr>) of Inl ap \<Rightarrow> Some ap
      | Inr ap \<Rightarrow> (case setup_signals env ap of Inl ap \<Rightarrow> Some ap | Inr ap \<Rightarrow> setup_watchdogs env paths ap)) = Some ap"
    by (auto simp: slot_autopinSetup_def new bind_eq_Some_conv Let_def setupLogging_def ap_exit_def split: if_splits)
  let ?ap = "autopin_new\<lparr>isDaemon := daemon, ap_logger := Some (logging_of config), ap_context := Some (AutopinContext_new ''global'')\<rparr>"
  obtain ap1 where ap1: "setup_services env host config ?ap = Inr ap1"
    using rest assms(2) by (auto simp: setup_services_def ap_exit_def new split: option.splits if_splits sum.splits)
  have s1: "bookkeeping ap1 \<and> ap_exits ap1 = [] \<and> ap_ready ap1 = False \<and> ap_new ap1 = 0"
    using ap1 by (auto simp: setup_services_def bookkeeping_def autopin_new_def split: option.splits if_splits)
  obtain ap2 where ap2: "setup_signals env ap1 = Inr ap2"
    using rest ap1 s1 assms(2) by (auto simp: setup_signals_def ap_exit_def ap_report_def Let_def split: if_splits sum.splits prod.splits)
  have "bookkeeping ap2 \<and> ap_exits ap2 = [] \<and> ap_new ap2 = 0"
    using s1 ap2 by (auto simp: setup_signals_def bookkeeping_def Let_def split: if_splits prod.splits)
  with rest ap1 ap2 p show ?thesis by auto
qed

lemma setup_keeps:
  assumes "slot_autopinSetup env opts arg autopin_new = Some ap" and "ap_ready ap"
  shows "bookkeeping ap \<and> exits_when_idle ap \<and>
    (\<exists>paths daemon. parse_options opts ([], False) = Inr (paths, daemon) \<and>
       ap_new ap = length (filter (\<lambda>p. ae_files env p \<noteq> None) paths))"
proof -
  obtain paths daemon ap2 where p: "parse_options opts ([], False) = Inr (paths, daemon)"
    and s: "setup_watchdogs env paths ap2 = Some ap" "bookkeeping ap2" "ap_exits ap2 = []" "ap_new ap2 = 0"
    using setup_phases[OF assms] by auto
  from setup_watchdogs_keeps[OF s(1-3)] s(4) p show ?thesis by simp
qed

lemma dog_ProcTerminated_keeps:
  assumes "bookkeeping ap" and "exits_when_idle ap" and "k < ap_new ap"
  shows "bookkeeping (dog_ProcTerminated info k ap) \<and> exits_when_idle (dog_ProcTerminated info k ap) \<and>
    ap_new (dog_ProcTerminated info k ap) = ap_new ap"
proof (cases "ap_dogs ap k")
  case None
  with assms show ?thesis by (simp add: dog_ProcTerminated_def split: prod.splits)
next
  case (Some dc)
  obtain d c p status where dc: "dc = (d, c)" "info = (p, status)" by fastforce
  have b: "bookkeeping (ap\<lparr>ap_dogs := (ap_dogs ap)(k \<mapsto> (d', c))\<rparr>)" for d'
    using assms(1) Some dc by (auto simp: bookkeeping_def)
  have e: "exits_when_idle (ap\<lparr>ap_dogs := (ap_dogs ap)(k \<mapsto> (d', c))\<rparr>)" for d' using assms(2) by (simp add: exits_when_idle_def)
  have s: "bookkeeping ((slot_watchdogStop k ^^ n) ap')" if "bookkeeping ap'" "k < ap_new ap'" for n ap'
    using that by (induction n) (auto simp: stop_bookkeeping)
  show ?thesis using assms Some s[OF b] stops_exits[OF e]
    by (auto simp: dog_ProcTerminated_def dc Let_def split: prod.splits)
qed

lemma dispatch_ProcTerminated_keeps:
  assumes "bookkeeping ap" and "exits_when_idle ap"
  shows "bookkeeping (dispatch_ProcTerminated info ap) \<and> exits_when_idle (dispatch_ProcTerminated info ap)"
proof -
  have "bookkeeping (fold (dog_ProcTerminated info) ks ap) \<and> exits_when_idle (fold (dog_ProcTerminated info) ks ap)"
    if "\<forall>k\<in>set ks. k < ap_new ap" for ks
    using that assms by (induction ks arbitrary: ap) (auto simp: dog_ProcTerminated_keeps)
  moreover have "\<forall>k\<in>set (watchdogs ap). k < ap_new ap" using assms(1) by (simp add: bookkeeping_def)
  ultimately show ?thesis by (simp add: dispatch_ProcTerminated_def)
qed

lemma slot_runProcess_keeps:
  assumes "slot_runProcess env configText ap = Some ap'" and "bookkeeping ap" and "exits_when_idle ap" and "isDaemon ap"
  shows "bookkeeping ap' \<and> exits_when_idle ap'"
proof -
  from assms(1) obtain k config ap1 where ap1: "new_watchdog configText ap = Some (k, config, ap1)"
    "run_watchdog env (k, config) ap1 = Some ap'" by (auto simp: slot_runProcess_def split: option.splits)
  from assms(4) new_watchdog_effect[OF ap1(1)] assms(3) have "exits_when_idle ap1" "k < ap_new ap1" by (auto simp: exits_when_idle_def)
  with run_watchdog_keeps[OF ap1(2) new_watchdog_bookkeeping[OF ap1(1) assms(2)]] show ?thesis by simp
qed

lemma ap_step_keeps:
  assumes "ap_step env e ap = Some ap'" and "bookkeeping ap" and "exits_when_idle ap"
  shows "bookkeeping ap' \<and> exits_when_idle ap'"
proof (cases e)
  case (Dog_stops k)
  with assms show ?thesis by (auto simp: stop_bookkeeping stop_exits)
next
  case (Message topic payload)
  have "ap_mqtt ap \<Longrightarrow> isDaemon ap" using assms(2) by (simp add: bookkeeping_def)
  with Message assms slot_runProcess_keeps show ?thesis by (auto split: bool.splits option.splits)
next
  case (Dispatcher x)
  let ?ap = "ap\<lparr>ap_dispatcher := dispatch_run [x] (ap_dispatcher ap)\<rparr>"
  have b: "bookkeeping ?ap" "exits_when_idle ?ap" using assms(2,3) by (simp_all add: bookkeeping_def exits_when_idle_def)
  have "bookkeeping (fold dispatch_ProcTerminated infos ap2) \<and> exits_when_idle (fold dispatch_ProcTerminated infos ap2)"
    if "bookkeeping ap2" "exits_when_idle ap2" for infos ap2
    using that by (induction infos arbitrary: ap2) (auto simp: dispatch_ProcTerminated_keeps)
  from this[OF b] Dispatcher assms(1) show ?thesis by (auto simp: Let_def)
qed

lemma ap_run_keeps:
  "ap_run env es ap = Some ap' \<Longrightarrow> bookkeeping ap \<Longrightarrow> exits_when_idle ap \<Longrightarrow> bookkeeping ap' \<and> exits_when_idle ap'"
  by (induction es arbitrary: ap) (auto split: option.splits dest: ap_step_keeps)


text \<open>A system with a process configuration and a global one: the first configures no component, the second has a blank line.\<close>

definition demo_ap_env :: ap_env where
  "demo_ap_env = \<lparr>ae_files = [''c'' \<mapsto> ''# nothing'', ''g'' \<mapsto> ''log.type = syslog'' @ [CHR 0x0A, CHR 0x0A] @ ''clust.port = 1''],
     ae_logger = (\<lambda>_. True),
     ae_mosquitto = \<lparr>mosquitto_new = True, mosquitto_connect = (\<lambda>_ _. True), mosquitto_loop_start = True, mosquitto_subscribe = (\<lambda>_. True)\<rparr>,
     ae_qt = dec_conv, ae_hostname = ''host'', ae_signals = (0, 0), ae_socketpair = 0, ae_nprocs = 2, ae_watchdog = (\<lambda>_. demo_wd_env)\<rparr>"

lemma demo_config_read: "StandardConfiguration_init ''# nothing'' c = (Map.empty, c)"
  by (simp add: StandardConfiguration_init_def parseConfigurationFile_def text_lines_def parse_line_def)

lemma demo_failing_run:
  "\<exists>d w'. slot_watchdogRun env Map.empty n w = Some (n + 1, d, w') \<and> 0 < sig_error (runtime w')"
  by (simp add: slot_watchdogRun_def createContext_def createComponents_def createPerformanceMonitors_def createControlStrategy_def
      createDataLoggers_def configOptionExists_def getConfigOption_def Let_def)

lemma demo_setup:
  "\<exists>ap. slot_autopinSetup demo_ap_env [Opt_c ''c''] None autopin_new = Some ap \<and> ap_ready ap \<and> \<not> isDaemon ap \<and>
     ap_new ap = 1 \<and> 0 \<in> set (ap_deleted ap)"
proof -
  let ?env = "demo_wd_env\<lparr>wd_topology := \<lparr>distances = [], mapping = replicate 2 0\<rparr>\<rparr>"
  obtain d w' where "slot_watchdogRun ?env Map.empty 0 \<lparr>pinning = [], affinity_calls = [], runtime = AutopinContext_new []\<rparr> = Some (1, d, w')"
    "0 < sig_error (runtime w')" using demo_failing_run[of ?env 0 "\<lparr>pinning = [], affinity_calls = [], runtime = AutopinContext_new []\<rparr>"] by auto
  then show ?thesis
    by (simp add: slot_autopinSetup_def autopin_new_def globalConfig_def demo_ap_env_def setupLogging_def logging_of_def
        setup_services_def setup_signals_def setupSignalHandler_chld_def dispatcher_init_def setup_watchdogs_def
        setupCpuInfo_def parseSysRangeFile_def new_watchdog_def demo_config_read run_watchdog_def getHostname_static_def)
qed


text \<open>
  A host name of 30 characters or more (they may have 64) makes every setup undefined that gets as far as its start message.
\<close>

lemma long_hostname_undefined:
  assumes "parse_options opts ([], False) = Inr (paths, daemon)" and "30 \<le> length (ae_hostname env)"
  shows "slot_autopinSetup env opts arg autopin_new = None"
proof -
  have "getHostname_static (ae_hostname env) = None" using assms(2) by (simp add: getHostname_static_def)
  with assms(1) show ?thesis by (auto simp: slot_autopinSetup_def autopin_new_def Let_def bind_eq_None_conv)
qed

text \<open>
  The global configuration is read before there is a logger to report to: unless the options make
  autopin+ exit first, a line in it that is neither a comment nor an assignment, such as a blank
  one, makes the setup go through a null pointer; without such a line the file is read.
\<close>

theorem global_configuration_errors:
  assumes "parse_options opts ([], False) = Inr (paths, daemon)" and "ae_files env path = Some configText"
  shows "if \<exists>line\<in>set (text_lines configText). malformed line
    then slot_autopinSetup env opts (Some path) autopin_new = None
    else globalConfig env (Some path) \<noteq> None"
proof -
  have "globalConfig env (Some path) = None \<longleftrightarrow> (\<exists>line\<in>set (text_lines configText). malformed line)"
    using assms(2) configuration_reports[of configText "AutopinContext_new ''GlobalConfig''"]
    by (auto simp: globalConfig_def Let_def filter_empty_conv split: prod.splits)
  with assms(1) show ?thesis by (cases "globalConfig env (Some path)") (auto simp: slot_autopinSetup_def autopin_new_def)
qed

theorem global_configuration_errors_witness:
  "slot_autopinSetup demo_ap_env [Opt_d] (Some ''g'') autopin_new = None"
proof -
  have "\<exists>line\<in>set (text_lines (''log.type = syslog'' @ [CHR 0x0A, CHR 0x0A] @ ''clust.port = 1'')). malformed line"
    by (simp add: text_lines_def Let_def malformed_def is_comment_def chomp_cr_def)
  with global_configuration_errors[where opts = "[Opt_d]" and paths = "[]" and daemon = True and env = demo_ap_env and path = "''g''"]
  show ?thesis by (simp add: demo_ap_env_def)
qed

end
