(* ===== verification/Lifetime.thy ===== *)
theory Lifetime
  imports Autopin
begin

text \<open>
  From the termination of a process to the end of autopin+. A watchdog whose start failed has signalled its
  error, so it is removed at once; each of the others has a running process, and is removed when the
  signal handler has reaped that process. Without \<open>-d\<close> the application asks to exit once all of them are gone.
\<close>

subsection \<open>No error is silent\<close>

definition signalled :: "apcontext \<Rightarrow> bool" where
  "signalled c \<longleftrightarrow> (isError c \<longrightarrow> 0 < sig_error c)"

lemma signalled_report [simp]: "signalled (report e opt c)"
  by (simp add: signalled_def)

lemma signalled_new [simp]: "signalled (AutopinContext_new name)"
  by (simp add: signalled_def)

lemma signalled_create_monitor: "signalled c \<Longrightarrow> signalled (snd (create_monitor env config ids name (ms, c)))"
  by (auto simp: create_monitor_def Let_def)

lemma signalled_create_monitors:
  "signalled c \<Longrightarrow> signalled (snd (fold (create_monitor env config ids) names (ms, c)))"
proof (induction names arbitrary: ms c)
  case Nil
  then show ?case by simp
next
  case (Cons name names)
  obtain ms1 c1 where m: "create_monitor env config ids name (ms, c) = (ms1, c1)" by fastforce
  with signalled_create_monitor[OF Cons.prems, of env config ids name ms] Cons.IH[of c1 ms1] show ?case by simp
qed

lemma signalled_create_loggers: "signalled c \<Longrightarrow> signalled (snd (create_loggers ls (xs, c)))"
  by (induction ls arbitrary: xs) auto

lemma signalled_createComponents:
  assumes "signalled c"
  shows "signalled (snd (createComponents env config c))"
proof -
  obtain ms c1 where c1: "createPerformanceMonitors env config c = (ms, c1)" by fastforce
  have s1: "signalled c1"
    using signalled_create_monitors[of _ env config "[]" _ "[]"] c1 assms
    by (auto simp: createPerformanceMonitors_def Let_def split: if_splits) (metis snd_conv signalled_report)+
  obtain s c2 where c2: "createControlStrategy config c1 = (s, c2)" by fastforce
  have s2: "signalled c2" using c2 s1 by (auto simp: createControlStrategy_def Let_def split: if_splits)
  show ?thesis
    using signalled_create_loggers[OF s2] by (simp add: createComponents_def c1 c2 createDataLoggers_def Let_def split_beta)
qed

lemma signalled_init_monitor:
  "init_monitor env config (m, c) = Some (m', c') \<Longrightarrow> signalled c \<Longrightarrow> signalled c'"
  by (cases m) (auto simp: gperf_init_def init_sensor_def init_valtype_def Let_def
      split: if_splits option.splits sensor_result.splits)

lemma signalled_init_monitors:
  "init_monitors env config (ms, c) = Some (ms', c') \<Longrightarrow> signalled c \<Longrightarrow> signalled c'"
proof (induction ms arbitrary: c ms')
  case Nil
  then show ?case by simp
next
  case (Cons m ms)
  then show ?case by (auto split: option.splits dest: signalled_init_monitor)
qed

lemma signalled_init_loggers:
  "init_loggers env config (ls, c) = Some (ls', c') \<Longrightarrow> signalled c \<Longrightarrow> signalled c'"
proof (induction ls arbitrary: c ls')
  case Nil
  then show ?case by simp
next
  case (Cons l ls)
  have "signalled c1" if "external_init qt config st (l, c) = Some (l1, c1)" for qt st l1 c1
    using that Cons.prems(2) by (auto simp: external_init_def Let_def split: option.splits if_splits)
  with Cons show ?case by (auto split: option.splits)
qed

lemma signalled_getProcEntry: "getProcEntry fs p i b c = (entry, c') \<Longrightarrow> signalled c \<Longrightarrow> signalled c'"
  by (auto simp: getProcEntry_def Let_def split: option.splits if_splits)

lemma signalled_pid_scan: "signalled c \<Longrightarrow> signalled (snd (pid_scan qt fs name procs A c))"
  by (induction procs arbitrary: A c) (auto simp: Let_def split: option.splits prod.splits dest!: signalled_getProcEntry)

lemma signalled_ObservedProcess_init:
  assumes "signalled c"
  shows "signalled (snd (ObservedProcess_init qt fs home config (op, c)))"
proof -
  obtain op1 c1 where c1: "init_comm_addr qt config home (op\<lparr>trace := getConfigOptionBool qt config ''Trace'' 0\<rparr>, c) = (op1, c1)"
    by fastforce
  have "signalled c1"
    using c1 assms by (auto simp: init_comm_addr_def getCommDefaultAddr_def Let_def split: if_splits option.splits)
  then have "signalled (snd (init_process qt fs config (op2, c1)))" for op2
    using signalled_pid_scan[of c1 qt fs]
    by (auto simp: init_process_def getPid_def Let_def split_beta split: option.splits)
  then show ?thesis by (simp add: ObservedProcess_init_def c1 Let_def)
qed

lemma signalled_read_schedule: "signalled c \<Longrightarrow> signalled (snd (read_schedule qt ps acc c))"
  by (induction ps arbitrary: acc c) (auto simp: Let_def split: option.splits)

lemma signalled_read_skip: "signalled c \<Longrightarrow> signalled (snd (read_skip qt es sk c))"
  by (induction es arbitrary: sk c) (auto split: option.splits)

lemma signalled_init_interval:
  "signalled (runtime w) \<Longrightarrow> signalled (runtime (snd (snd (init_interval qt config name (s, w)))))"
  by (simp add: init_interval_def wreport_def split: option.splits)

lemma signalled_init_strategy:
  assumes "signalled (runtime w)"
  shows "signalled (runtime (snd (init_strategy env config types (s, w))))"
proof -
  have i: "signalled (runtime (ControlStrategy_init n w))" for n using assms by (simp add: ControlStrategy_init_def)
  show ?thesis
  proof (cases s)
    case (Autopin1_strategy x)
    have "signalled (snd (readPinnings qt config opt c))" if "signalled c" for qt opt c
      using that by (simp add: readPinnings_def signalled_read_schedule)
    then show ?thesis
      using i[of "wd_cpus env"]
      by (auto simp: Autopin1_strategy autopin1_init_def Let_def split_beta check_time_def signalled_read_skip)
  next
    case (Noop_strategy x)
    then show ?thesis by (simp add: noop_init_def signalled_init_interval i)
  next
    case (Compact_strategy x)
    then show ?thesis by (simp add: compact_init_def signalled_init_interval i)
  next
    case (Scatter_strategy x)
    then show ?thesis by (simp add: scatter_init_def signalled_init_interval i split_beta Let_def)
  qed
qed

lemma signalled_initComponents:
  assumes "initComponents env config (d, w) = Some (d', w')" and "signalled (runtime w)"
  shows "signalled (runtime w')"
proof -
  from assms(1) obtain ms c s ls c2 where
    m: "init_monitors env config (wd_monitors d, runtime w) = Some (ms, c)"
    and l: "init_loggers env config (wd_loggers d, runtime (snd (init_strategy env config (map monitor_valtype ms)
      (s, w\<lparr>runtime := snd (ObservedProcess_init (wd_qt env) (wd_fs env) (wd_home env) config (wd_process d, c))\<rparr>)))) = Some (ls, c2)"
    and w': "runtime w' = c2"
    by (auto simp: initComponents_def Let_def bind_eq_Some_conv split_beta)
  have "signalled c" by (rule signalled_init_monitors[OF m assms(2)])
  from signalled_ObservedProcess_init[OF this] signalled_init_loggers[OF l] show ?thesis
    by (simp add: w' signalled_init_strategy)
qed

text \<open>A watchdog that is not ready after it has run has signalled an error.\<close>

lemma failed_run_signals:
  assumes "slot_watchdogRun env config counter w = Some (counter', d, w')" and "\<not> wd_ready d"
  shows "0 < sig_error (runtime w')"
proof -
  obtain c d0 c0 where c: "createContext config counter = (c, counter + 1)" and d0: "createComponents env config c = (d0, c0)"
    by (metis createContext_def prod.collapse)
  have "signalled c" using c by (auto simp: createContext_def)
  with signalled_createComponents[of c env config] d0 have s0: "signalled c0" by simp
  have "isError (runtime w')" using run_outcome[OF assms(1)] assms(2) by simp
  moreover have "signalled (runtime w')"
  proof (cases "isError c0")
    case True
    with assms(1) c d0 s0 show ?thesis by (auto simp: slot_watchdogRun_def)
  next
    case False
    with assms(1) c d0 obtain d1 w1 where d1: "initComponents env config (d0, w\<lparr>runtime := c0\<rparr>) = Some (d1, w1)"
      and rest: "if isError (runtime w1) then w' = w1 else startComponents env config (d1, w1) = Some (d, w')"
      by (auto simp: slot_watchdogRun_def bind_eq_Some_conv split: if_splits)
    have "wd_ready d" if "startComponents env config (d1, w1) = Some (d, w')"
      using that by (auto simp: startComponents_def bind_eq_Some_conv)
    with rest assms(2) have "w' = w1" by (auto split: if_splits)
    with signalled_initComponents[OF d1] s0 show ?thesis by simp
  qed
  ultimately show ?thesis by (simp add: signalled_def)
qed

subsection \<open>Every listed watchdog has a process\<close>

definition serving :: "autopin \<Rightarrow> nat \<Rightarrow> bool" where
  "serving ap k \<longleftrightarrow> (\<exists>d c. ap_dogs ap k = Some (d, c) \<and> wd_ready d \<and> running (wd_process d))"

text \<open>\<open>todo\<close>: the watchdogs that have not run.\<close>

definition all_serving :: "nat set \<Rightarrow> autopin \<Rightarrow> bool" where
  "all_serving todo ap \<longleftrightarrow> (\<forall>k\<in>set (watchdogs ap). k \<in> todo \<or> serving ap k)"

lemma run_watchdog_serving:
  assumes "run_watchdog env (k, config) ap = Some ap'" and "all_serving (insert k todo) ap"
  shows "all_serving todo ap'"
proof -
  from assms(1) obtain counter d w where
    run: "slot_watchdogRun ((ae_watchdog env k)\<lparr>wd_topology := ap_topology ap\<rparr>) config (ap_counter ap) (ap_world ap) = Some (counter, d, w)"
    and ap': "ap' = (slot_watchdogStop k ^^ sig_error (runtime w))
      (ap\<lparr>ap_counter := counter, ap_world := w, ap_dogs := (ap_dogs ap)(k \<mapsto> (d, runtime w))\<rparr>)"
    by (auto simp: run_watchdog_def split: option.splits)
  have "wd_ready d \<and> running (wd_process d) \<or> 0 < sig_error (runtime w)"
    using run_outcome[OF run] failed_run_signals[OF run] by metis
  then show ?thesis
    using assms(2) by (auto simp: all_serving_def serving_def ap' split: if_splits)
qed

lemma run_watchdogs_serving:
  "run_watchdogs env kcs ap = Some ap' \<Longrightarrow> all_serving (fst ` set kcs) ap \<Longrightarrow> all_serving {} ap'"
proof (induction kcs arbitrary: ap)
  case Nil
  then show ?case by simp
next
  case (Cons kc kcs)
  obtain k config where kc: "kc = (k, config)" by fastforce
  with Cons.prems(1) obtain ap1 where ap1: "run_watchdog env (k, config) ap = Some ap1" "run_watchdogs env kcs ap1 = Some ap'"
    by (auto split: option.splits)
  have "all_serving (fst ` set kcs) ap1" using run_watchdog_serving[OF ap1(1)] Cons.prems(2) kc by simp
  from Cons.IH[OF ap1(2) this] show ?case .
qed

lemma new_watchdog_serving:
  "new_watchdog configText ap = Some (k, config, ap') \<Longrightarrow> all_serving todo ap \<Longrightarrow> all_serving (insert k todo) ap'"
  by (auto simp: all_serving_def serving_def dest!: new_watchdog_effect)

lemma read_configs_serving:
  "read_configs env paths (ds, ap) = Some (ds', ap') \<Longrightarrow> all_serving (fst ` set ds) ap \<Longrightarrow> all_serving (fst ` set ds') ap'"
proof (induction paths arbitrary: ds ap)
  case Nil
  then show ?case by simp
next
  case (Cons path paths)
  show ?case
  proof (cases "ae_files env path")
    case None
    with Cons.prems have "read_configs env paths (ds, ap_report FILE_NOT_FOUND ''config_file'' ap) = Some (ds', ap')" by simp
    from Cons.IH[OF this] Cons.prems(2) show ?thesis by (simp add: all_serving_def serving_def ap_report_def)
  next
    case (Some configText)
    with Cons.prems(1) obtain k config ap1 where ap1: "new_watchdog configText ap = Some (k, config, ap1)"
      and r: "read_configs env paths (ds @ [(k, config)], ap1) = Some (ds', ap')" by (auto split: option.splits)
    from Cons.IH[OF r] new_watchdog_serving[OF ap1 Cons.prems(2)] show ?thesis by simp
  qed
qed

lemma setup_serving:
  assumes "slot_autopinSetup env opts arg autopin_new = Some ap" and "ap_ready ap"
  shows "all_serving {} ap"
proof -
  obtain paths ap2 where s: "setup_watchdogs env paths ap2 = Some ap" "bookkeeping ap2" "ap_new ap2 = 0"
    using setup_phases[OF assms] by blast
  from s(2,3) have none: "watchdogs ap2 = []" by (simp add: bookkeeping_def)
  from s(1) obtain ci ds ap1 where r: "read_configs env paths ([], ap2\<lparr>ap_topology := ci\<rparr>) = Some (ds, ap1)"
    and run: "run_watchdogs env ds ((if \<not> isDaemon ap1 \<and> watchdogs ap1 = [] then ap_exit 0 ap1 else ap1)\<lparr>ap_ready := True\<rparr>) = Some ap"
    by (auto simp: setup_watchdogs_def bind_eq_Some_conv Let_def)
  have "all_serving (fst ` set ds) ap1"
    using read_configs_serving[OF r] none by (simp add: all_serving_def)
  with run_watchdogs_serving[OF run] show ?thesis
    by (simp add: all_serving_def serving_def ap_exit_def)
qed

subsection \<open>A terminated process stops its watchdogs\<close>

definition watches :: "autopin \<Rightarrow> nat \<Rightarrow> int \<Rightarrow> bool" where
  "watches ap k p \<longleftrightarrow> (\<exists>d c. ap_dogs ap k = Some (d, c) \<and> wd_ready d \<and> op_pid (wd_process d) = p)"

lemma stop_dispatcher [simp]: "ap_dispatcher (slot_watchdogStop k ap) = ap_dispatcher ap"
  by (simp add: slot_watchdogStop_def ap_exit_def Let_def)

lemma dog_ProcTerminated_effect:
  "watchdogs (dog_ProcTerminated (p, status) k ap) = (if watches ap k p then removeAll k (watchdogs ap) else watchdogs ap) \<and>
   ap_dogs (dog_ProcTerminated (p, status) k ap) = ap_dogs ap \<and> ap_dispatcher (dog_ProcTerminated (p, status) k ap) = ap_dispatcher ap"
  by (auto simp: dog_ProcTerminated_def watches_def op_slot_ProcTerminated_def Let_def fun_eq_iff split: option.splits)

lemma dispatch_ProcTerminated_effect:
  "watchdogs (dispatch_ProcTerminated (p, status) ap) = filter (\<lambda>k. \<not> watches ap k p) (watchdogs ap) \<and>
   ap_dogs (dispatch_ProcTerminated (p, status) ap) = ap_dogs ap \<and> ap_dispatcher (dispatch_ProcTerminated (p, status) ap) = ap_dispatcher ap"
proof -
  have "watchdogs (fold (dog_ProcTerminated (p, status)) ks ap) = filter (\<lambda>k. k \<notin> set ks \<or> \<not> watches ap k p) (watchdogs ap) \<and>
      ap_dogs (fold (dog_ProcTerminated (p, status)) ks ap) = ap_dogs ap \<and>
      ap_dispatcher (fold (dog_ProcTerminated (p, status)) ks ap) = ap_dispatcher ap" for ks
  proof (induction ks arbitrary: ap)
    case Nil
    then show ?case by simp
  next
    case (Cons k ks)
    let ?ap = "dog_ProcTerminated (p, status) k ap"
    note e = dog_ProcTerminated_effect[of p status k ap]
    have w: "watches ?ap j p = watches ap j p" for j using e by (simp add: watches_def)
    have "filter (\<lambda>j. j \<notin> set ks \<or> \<not> watches ap j p) (watchdogs ?ap) = filter (\<lambda>j. j \<notin> set (k # ks) \<or> \<not> watches ap j p) (watchdogs ap)"
      using e by (auto simp: removeAll_filter_not_eq intro!: filter_cong)
    with Cons.IH[of ?ap] e w show ?case by simp
  qed
  from this[of "watchdogs ap"] show ?thesis
    by (auto simp: dispatch_ProcTerminated_def intro!: filter_cong)
qed

lemma dispatches_effect:
  "watchdogs (fold dispatch_ProcTerminated infos ap) = filter (\<lambda>k. \<forall>p\<in>fst ` set infos. \<not> watches ap k p) (watchdogs ap) \<and>
   ap_dogs (fold dispatch_ProcTerminated infos ap) = ap_dogs ap \<and>
   ap_dispatcher (fold dispatch_ProcTerminated infos ap) = ap_dispatcher ap"
proof (induction infos arbitrary: ap)
  case Nil
  then show ?case by simp
next
  case (Cons info infos)
  obtain p status where info: "info = (p, status)" by fastforce
  let ?ap = "dispatch_ProcTerminated (p, status) ap"
  note e = dispatch_ProcTerminated_effect[of p status ap]
  have "watches ?ap k q = watches ap k q" for k q using e by (simp add: watches_def)
  with Cons.IH[of ?ap] e show ?case by (auto simp: info intro!: filter_cong)
qed

lemma step_serving:
  assumes "ap_step env e ap = Some ap'" and "all_serving {} ap"
  shows "all_serving {} ap'"
proof (cases e)
  case (Dog_stops k)
  with assms show ?thesis by (auto simp: all_serving_def serving_def split: if_splits)
next
  case (Message topic payload)
  have "all_serving {} ap'" if run: "slot_runProcess env configText ap = Some ap'" for configText
  proof -
    from run obtain k config ap1 where ap1: "new_watchdog configText ap = Some (k, config, ap1)"
      "run_watchdog env (k, config) ap1 = Some ap'" by (auto simp: slot_runProcess_def split: option.splits)
    from run_watchdog_serving[OF ap1(2) new_watchdog_serving[OF ap1(1) assms(2)]] show ?thesis .
  qed
  with Message assms show ?thesis by (auto split: bool.splits option.splits)
next
  case (Dispatcher x)
  with assms dispatches_effect[of _ "ap\<lparr>ap_dispatcher := dispatch_run [x] (ap_dispatcher ap)\<rparr>"] show ?thesis
    by (auto simp: all_serving_def serving_def Let_def)
qed

lemma run_serving: "ap_run env es ap = Some ap' \<Longrightarrow> all_serving {} ap \<Longrightarrow> all_serving {} ap'"
  by (induction es arbitrary: ap) (auto split: option.splits dest: step_serving)

text \<open>The shared pinning is left as it is.\<close>

lemma dispatch_world: "ap_world (dispatch_ProcTerminated info ap) = ap_world ap"
proof -
  have stop: "ap_world ((slot_watchdogStop k ^^ n) ap2) = ap_world ap2" for k n ap2
    by (induction n) (auto simp: slot_watchdogStop_def ap_exit_def Let_def)
  have "ap_world (dog_ProcTerminated info k ap2) = ap_world ap2" for k ap2
    by (auto simp: dog_ProcTerminated_def Let_def stop split: option.splits prod.splits)
  then have "ap_world (fold (dog_ProcTerminated info) ks ap2) = ap_world ap2" for ks ap2
    by (induction ks arbitrary: ap2) simp_all
  then show ?thesis by (simp add: dispatch_ProcTerminated_def)
qed

text \<open>Reading one termination from the socket pair.\<close>

lemma activated_effect:
  assumes "sigchld_pipe (ap_dispatcher ap) = (p, status) # rest"
  shows "\<exists>ap'. ap_step env (Dispatcher Activated) ap = Some ap' \<and> sigchld_pipe (ap_dispatcher ap') = rest \<and> ap_dogs ap' = ap_dogs ap \<and>
    ap_world ap' = ap_world ap \<and> watchdogs ap' = filter (\<lambda>k. \<not> watches ap k p) (watchdogs ap)"
proof -
  let ?d = "(ap_dispatcher ap)\<lparr>sigchld_pipe := rest, proc_terminated := proc_terminated (ap_dispatcher ap) @ [(p, status)]\<rparr>"
  have "dispatch_run [Activated] (ap_dispatcher ap) = ?d" using assms by (simp add: slot_handleSigChld_ok)
  with dispatch_ProcTerminated_effect[of p status "ap\<lparr>ap_dispatcher := ?d\<rparr>"] show ?thesis
    by (simp add: Let_def watches_def dispatch_world)
qed

lemma activations_effect:
  "\<exists>ap'. ap_run env (replicate (length (sigchld_pipe (ap_dispatcher ap))) (Dispatcher Activated)) ap = Some ap' \<and>
     sigchld_pipe (ap_dispatcher ap') = [] \<and> ap_dogs ap' = ap_dogs ap \<and>
     watchdogs ap' = filter (\<lambda>k. \<forall>p\<in>fst ` set (sigchld_pipe (ap_dispatcher ap)). \<not> watches ap k p) (watchdogs ap)"
proof (induction "sigchld_pipe (ap_dispatcher ap)" arbitrary: ap)
  case Nil
  then show ?case by simp
next
  case (Cons info rest)
  obtain p status where info: "info = (p, status)" by fastforce
  with Cons.hyps(2) obtain ap1 where s: "ap_step env (Dispatcher Activated) ap = Some ap1" "sigchld_pipe (ap_dispatcher ap1) = rest"
      "ap_dogs ap1 = ap_dogs ap" "watchdogs ap1 = filter (\<lambda>k. \<not> watches ap k p) (watchdogs ap)"
    using activated_effect[of ap p status rest env] by auto
  have w: "watches ap1 k q = watches ap k q" for k q using s(3) by (simp add: watches_def)
  obtain ap' where ap': "ap_run env (replicate (length rest) (Dispatcher Activated)) ap1 = Some ap'"
      "sigchld_pipe (ap_dispatcher ap') = []" "ap_dogs ap' = ap_dogs ap1"
      "watchdogs ap' = filter (\<lambda>k. \<forall>p\<in>fst ` set rest. \<not> watches ap1 k p) (watchdogs ap1)"
    using Cons.hyps(1)[OF s(2)[symmetric]] s(2) by auto
  then show ?case
    unfolding Cons.hyps(2)[symmetric] by (auto simp: s w info simp del: ap_step.simps)
qed

definition dog_pid :: "autopin \<Rightarrow> nat \<Rightarrow> int" where
  "dog_pid ap k = op_pid (wd_process (fst (the (ap_dogs ap k))))"

lemma serving_watches: "serving ap k \<Longrightarrow> watches ap k p \<longleftrightarrow> dog_pid ap k = p"
  by (auto simp: serving_def watches_def dog_pid_def)


text \<open>
  C9. autopin+ comes to an end: in any state it can get into, if the signal handler reaps the processes of all its watchdogs,
  then reading the terminations, one activation of the notifier each, removes all watchdogs, and unless it is a daemon autopin+ has
  then asked to exit, with code 0 only.
\<close>

theorem autopin_ends_with_processes:
  assumes "slot_autopinSetup env opts arg autopin_new = Some ap" and "ap_ready ap" and "ap_run env es ap = Some ap1"
    and "\<forall>k\<in>set (watchdogs ap1). dog_pid ap1 k \<in> fst ` set infos"
  shows "\<exists>ap2. ap_run env (Dispatcher (Reap infos) #
      replicate (length (sigchld_pipe (ap_dispatcher ap1)) + length infos) (Dispatcher Activated)) ap1 = Some ap2 \<and>
    watchdogs ap2 = [] \<and> set (ap_exits ap2) \<subseteq> {0} \<and> (ap_exits ap2 = [] \<longleftrightarrow> isDaemon ap2)"
proof -
  let ?ap = "ap1\<lparr>ap_dispatcher := (ap_dispatcher ap1)\<lparr>sigchld_pipe := sigchld_pipe (ap_dispatcher ap1) @ infos\<rparr>\<rparr>"
  let ?n = "length (sigchld_pipe (ap_dispatcher ap1)) + length infos"
  have reap: "ap_step env (Dispatcher (Reap infos)) ap1 = Some ?ap" by (simp add: chldSignalHandler_ok Let_def)
  obtain ap2 where ap2: "ap_run env (replicate ?n (Dispatcher Activated)) ?ap = Some ap2"
      "watchdogs ap2 = filter (\<lambda>k. \<forall>p\<in>fst ` set (sigchld_pipe (ap_dispatcher ap1) @ infos). \<not> watches ?ap k p) (watchdogs ap1)"
    using activations_effect[of env ?ap] by auto
  have run: "ap_run env (Dispatcher (Reap infos) # replicate ?n (Dispatcher Activated)) ap1 = Some ap2"
    using reap ap2(1) by (simp del: ap_step.simps)
  have "watches ?ap k (dog_pid ap1 k)" if "k \<in> set (watchdogs ap1)" for k
    using that run_serving[OF assms(3) setup_serving[OF assms(1,2)]] serving_watches[of ap1 k "dog_pid ap1 k"]
    by (simp add: all_serving_def watches_def)
  then have "\<exists>p\<in>fst ` set (sigchld_pipe (ap_dispatcher ap1) @ infos). watches ?ap k p" if "k \<in> set (watchdogs ap1)" for k
    using that bspec[OF assms(4) that] unfolding set_append image_Un by blast
  then have w: "watchdogs ap2 = []" unfolding ap2(2) filter_empty_conv by blast
  have "exits_when_idle ap1 \<and> bookkeeping ap1" using setup_keeps[OF assms(1,2)] ap_run_keeps[OF assms(3)] by blast
  with ap_run_keeps[OF run] have "exits_when_idle ap2" by blast
  with run w show ?thesis by (auto simp: exits_when_idle_def)
qed

subsection \<open>The whole run\<close>

text \<open>
  \<open>src/AutopinPlus/main.cpp\<close>: the setup is the first thing the event loop does. The loop goes on until \<open>exit\<close> was called;
  it ends after the event during which that happened, and \<open>exec\<close> returns the code. The list holds the events there are, in their
  order; \<open>None\<close> as a code: the loop is waiting for more.
\<close>

fun event_loop :: "ap_env \<Rightarrow> ap_event list \<Rightarrow> autopin \<Rightarrow> (int option \<times> autopin) option" where
  "event_loop env es ap =
     (if ap_exits ap \<noteq> [] then Some (Some (last (ap_exits ap)), ap)
      else case es of
             [] \<Rightarrow> Some (None, ap)
           | e # es \<Rightarrow> (case ap_step env e ap of None \<Rightarrow> None | Some ap \<Rightarrow> event_loop env es ap))"

declare event_loop.simps [simp del]

definition main :: "ap_env \<Rightarrow> getopt_result list \<Rightarrow> QString option \<Rightarrow> ap_event list \<Rightarrow> (int option \<times> autopin) option" where
  "main env opts arg es =
     (case slot_autopinSetup env opts arg autopin_new of None \<Rightarrow> None | Some ap \<Rightarrow> event_loop env es ap)"

lemma event_loop_run:
  assumes "event_loop env es ap = Some (r, ap')"
  shows "(\<exists>es'. ap_run env es' ap = Some ap') \<and> (r = (if ap_exits ap' = [] then None else Some (last (ap_exits ap'))))"
  using assms
proof (induction es arbitrary: ap)
  case Nil
  have "ap_run env [] ap = Some ap" by simp
  with Nil show ?case by (auto simp: event_loop.simps[of env "[]"] simp del: ap_run.simps split: if_splits)
next
  case (Cons e es)
  show ?case
  proof (cases "ap_exits ap = []")
    case False
    have "ap_run env [] ap = Some ap" by simp
    with Cons.prems False show ?thesis by (auto simp: event_loop.simps[of env "e # es"] simp del: ap_run.simps)
  next
    case True
    with Cons.prems obtain ap1 where ap1: "ap_step env e ap = Some ap1" "event_loop env es ap1 = Some (r, ap')"
      by (auto simp: event_loop.simps[of env "e # es"] split: option.splits)
    from Cons.IH[OF ap1(2)] obtain es' where "ap_run env es' ap1 = Some ap'" by blast
    then have "ap_run env (e # es') ap = Some ap'" using ap1(1) by simp
    with Cons.IH[OF ap1(2)] show ?thesis by blast
  qed
qed

lemma event_loop_stopped: "ap_exits ap \<noteq> [] \<Longrightarrow> event_loop env es ap = Some (Some (last (ap_exits ap)), ap)"
  by (simp add: event_loop.simps)

lemma run_watchdogs_ready: "run_watchdogs env kcs ap = Some ap' \<Longrightarrow> ap_ready ap' = ap_ready ap"
proof (induction kcs arbitrary: ap)
  case Nil
  then show ?case by simp
next
  case (Cons kc kcs)
  then obtain ap1 where ap1: "run_watchdog env kc ap = Some ap1" "run_watchdogs env kcs ap1 = Some ap'" by (auto split: option.splits)
  then have "ap_ready ap1 = ap_ready ap" by (auto simp: run_watchdog_def split: option.splits prod.splits)
  with Cons.IH[OF ap1(2)] show ?case by simp
qed

lemma run_ready: "ap_run env es ap = Some ap' \<Longrightarrow> ap_ready ap' = ap_ready ap"
proof (induction es arbitrary: ap)
  case Nil
  then show ?case by simp
next
  case (Cons e es)
  then obtain ap1 where ap1: "ap_step env e ap = Some ap1" "ap_run env es ap1 = Some ap'" by (auto split: option.splits)
  have dogs: "ap_ready (fold (dog_ProcTerminated info) ks ap2) = ap_ready ap2" for info ks ap2
    by (induction ks arbitrary: ap2) (auto simp: dog_ProcTerminated_def Let_def split: option.splits prod.splits)
  have infos: "ap_ready (fold dispatch_ProcTerminated is ap2) = ap_ready ap2" for "is" ap2
    by (induction "is" arbitrary: ap2) (simp_all add: dispatch_ProcTerminated_def dogs)
  have "ap_ready ap1 = ap_ready ap" if "slot_runProcess env configText ap = Some ap1" for configText
    using that by (auto simp: slot_runProcess_def run_watchdog_def split: option.splits prod.splits dest!: new_watchdog_effect)
  then have "ap_ready ap1 = ap_ready ap"
    using ap1(1) by (cases e) (auto simp: Let_def infos split: bool.splits option.splits if_splits)
  with Cons.IH[OF ap1(2)] show ?case by simp
qed

text \<open>The first option that ends autopin+ decides.\<close>

lemma parse_options_ends:
  "case filter (\<lambda>opt. opt \<in> {Opt_v, Opt_h, Opt_unknown}) opts of
     [] \<Rightarrow> \<exists>x. parse_options opts (paths, daemon) = Inr x
   | opt # _ \<Rightarrow> \<exists>daemon'. parse_options opts (paths, daemon) = Inl (if opt = Opt_unknown then 2 else 0, daemon')"
proof (induction opts arbitrary: paths daemon)
  case Nil
  then show ?case by simp
next
  case (Cons x opts)
  then show ?case by (cases x) (auto split: list.splits)
qed

lemma setup_outcome:
  assumes "slot_autopinSetup env opts arg autopin_new = Some ap"
  shows "case parse_options opts ([], False) of
      Inl (code, daemon) \<Rightarrow> ap_exits ap = [code] \<and> \<not> ap_ready ap
    | Inr _ \<Rightarrow> ap_exits ap = [1] \<and> \<not> ap_ready ap \<or> ap_ready ap"
proof (cases "parse_options opts ([], False)")
  case (Inl x)
  with assms show ?thesis by (auto simp: slot_autopinSetup_def autopin_new_def ap_exit_def split: prod.splits)
next
  case (Inr x)
  obtain paths daemon where x: "x = (paths, daemon)" by fastforce
  have new: "isDaemon autopin_new = False" "ap_logger autopin_new = None" by (simp_all add: autopin_new_def)
  have ready: "ap_ready ap" if "setup_watchdogs env paths ap2 = Some ap" for ap2
    using that by (auto simp: setup_watchdogs_def bind_eq_Some_conv Let_def dest!: run_watchdogs_ready)
  from assms Inr x obtain config host where
    "(case setup_services env host config (autopin_new\<lparr>isDaemon := daemon, ap_logger := Some (logging_of config),
        ap_context := Some (AutopinContext_new ''global'')\<rparr>) of Inl ap \<Rightarrow> Some ap
      | Inr ap \<Rightarrow> (case setup_signals env ap of Inl ap \<Rightarrow> Some ap | Inr ap \<Rightarrow> setup_watchdogs env paths ap)) = Some ap"
    by (auto simp: slot_autopinSetup_def new bind_eq_Some_conv Let_def setupLogging_def ap_exit_def split: if_splits)
  then show ?thesis using ready Inr x
    by (auto simp: setup_services_def setup_signals_def ap_exit_def ap_report_def autopin_new_def Let_def
        split: option.splits if_splits sum.splits prod.splits)
qed


text \<open>A system on which autopin+ runs one program.\<close>

definition demo_text :: QString where
  "demo_text = ''PerformanceMonitors=r'' @ [CHR 0x0A] @ ''r.type=random'' @ [CHR 0x0A] @ ''ControlStrategy=noop'' @ [CHR 0x0A] @ ''Exec=true''"

lemma demo_lines: "text_lines demo_text = [''PerformanceMonitors=r'', ''r.type=random'', ''ControlStrategy=noop'', ''Exec=true'']"
  by code_simp

lemma demo_text_read: "StandardConfiguration_init demo_text c = (demo_config, c)"
proof -
  have "getArgs ''PerformanceMonitors=r'' (m, c) = (m(''PerformanceMonitors'' \<mapsto> [''r'']), c)"
    "getArgs ''r.type=random'' (m, c) = (m(''r.type'' \<mapsto> [''random'']), c)"
    "getArgs ''ControlStrategy=noop'' (m, c) = (m(''ControlStrategy'' \<mapsto> [''noop'']), c)"
    "getArgs ''Exec=true'' (m, c) = (m(''Exec'' \<mapsto> [''true'']), c)" for m
    by (simp_all add: getArgs_def indexOf_def left_part_def mid_def trimmed_def isSpace_def setOption_def split_skip_empty_def)
  then show ?thesis
    by (simp add: StandardConfiguration_init_def parseConfigurationFile_def demo_lines parse_line_def demo_config_def)
qed

definition demo_life_env :: ap_env where
  "demo_life_env = demo_ap_env\<lparr>ae_files := [''p'' \<mapsto> demo_text]\<rparr>"

lemma sig_error_new: "sig_error (AutopinContext_new name) = 0"
  by (simp add: AutopinContext_new_def)

lemma demo_life_run:
  "\<exists>d w'. slot_watchdogRun (demo_wd_env\<lparr>wd_topology := ci\<rparr>) demo_config 0
      \<lparr>pinning = [], affinity_calls = [], runtime = AutopinContext_new []\<rparr> = Some (1, d, w') \<and>
    op_pid (wd_process d) = 42 \<and> sig_error (runtime w') = 0"
  by (simp add: slot_watchdogRun_def createContext_def createComponents_def createPerformanceMonitors_def create_monitor_def
      createControlStrategy_def createDataLoggers_def initComponents_def startComponents_def configOptionExists_def
      getConfigOption_def demo_lookup Let_def demo_wd_env_def ObservedProcess_init_def init_comm_addr_def init_timeout_def
      init_process_def noop_init_def init_interval_def ControlStrategy_init_def ObservedProcess_start_def ObservedProcess_new_def
      createProcess_def getConfigOptionBool_def getConfigOptionInt_def setPid_def attachToProcess_def dec_conv_def double_or_zero_def sig_error_new)

lemma demo_life_setup:
  "\<exists>ap. slot_autopinSetup demo_life_env [Opt_c ''p''] None autopin_new = Some ap \<and> ap_ready ap \<and> \<not> isDaemon ap \<and>
     watchdogs ap = [0] \<and> dog_pid ap 0 = 42 \<and> sigchld_pipe (ap_dispatcher ap) = []"
proof -
  let ?ci = "\<lparr>distances = [], mapping = replicate 2 0\<rparr>"
  obtain d w' where "slot_watchdogRun (demo_wd_env\<lparr>wd_topology := ?ci\<rparr>) demo_config 0
      \<lparr>pinning = [], affinity_calls = [], runtime = AutopinContext_new []\<rparr> = Some (1, d, w')"
    "op_pid (wd_process d) = 42" "sig_error (runtime w') = 0" using demo_life_run by blast
  then show ?thesis
    by (simp add: slot_autopinSetup_def autopin_new_def globalConfig_def demo_life_env_def demo_ap_env_def setupLogging_def logging_of_def
        setup_services_def setup_signals_def setupSignalHandler_chld_def dispatcher_init_def dispatcher_new_def setup_watchdogs_def
        setupCpuInfo_def parseSysRangeFile_def new_watchdog_def demo_text_read run_watchdog_def dog_pid_def getHostname_static_def)
qed

theorem autopin_ends_with_processes_witness:
  "\<exists>ap ap2. slot_autopinSetup demo_life_env [Opt_c ''p''] None autopin_new = Some ap \<and> watchdogs ap = [0] \<and>
     ap_run demo_life_env [Dispatcher (Reap [(42, 0)]), Dispatcher Activated] ap = Some ap2 \<and> watchdogs ap2 = []"
proof -
  obtain ap where ap: "slot_autopinSetup demo_life_env [Opt_c ''p''] None autopin_new = Some ap" "ap_ready ap" "watchdogs ap = [0]"
    "dog_pid ap 0 = 42" "sigchld_pipe (ap_dispatcher ap) = []" using demo_life_setup by blast
  have "ap_run demo_life_env [] ap = Some ap" by simp
  from autopin_ends_with_processes[OF ap(1,2) this, of "[(42, 0)]"] ap show ?thesis by (auto simp del: ap_step.simps)
qed



end
