(* ===== verification/Monitors.thy ===== *)
theory Monitors
  imports Watchdog
begin

text \<open>
  The monitors of a watchdog together: calls through \<open>PerformanceMonitor\<close> reach the function of the kind a
  monitor has. The state of a call is the monitor with the static members of ClustSafe, which all instances share, and the
  runtime context. Autopin1 uses the first monitor of the list, noop all of them. What the monitors need of the system
  is gathered in \<open>mon_env\<close>.
\<close>

record mon_env =
  me_clust :: clust_env
  me_kernel :: perf_kernel
  me_rounding :: rounding
  me_random :: random_env
  me_spm :: "sampling_settings \<Rightarrow> sampling_settings" \<comment> \<open>\<open>init_spm\<close>\<close>
  me_metrics :: spm_metrics

type_synonym shared_monitor = "(any_monitor \<times> clust_static) \<times> apcontext"

subsection \<open>The virtual functions\<close>

fun any_start :: "mon_env \<Rightarrow> int \<Rightarrow> shared_monitor \<Rightarrow> shared_monitor" where
  "any_start env t ((ClustSafe_monitor m, st), c) =
     (let ((m, st), c) = clust_start (me_clust env) t ((m, st), c) in ((ClustSafe_monitor m, st), c))"
| "any_start env t ((GPerf_monitor m, st), c) =
     (let (m, c) = gperf_start (me_kernel env) t (m, c) in ((GPerf_monitor m, st), c))"
| "any_start env t ((Random_monitor m, st), c) =
     (let (m, c) = random_start (me_random env) t (m, c) in ((Random_monitor m, st), c))"
| "any_start env t ((PageMigrate_monitor m, st), c) = ((PageMigrate_monitor (page_migrate_start (me_spm env) t m), st), c)"

fun any_stop :: "mon_env \<Rightarrow> int \<Rightarrow> shared_monitor \<Rightarrow> double \<times> shared_monitor" where
  "any_stop env t ((ClustSafe_monitor m, st), c) =
     (let (v, (m, st), c) = clust_stop (me_clust env) t ((m, st), c) in (v, (ClustSafe_monitor m, st), c))"
| "any_stop env t ((GPerf_monitor m, st), c) =
     (let (v, m, c) = gperf_stop (me_rounding env) (me_kernel env) t (m, c) in (v, (GPerf_monitor m, st), c))"
| "any_stop env t ((Random_monitor m, st), c) =
     (let (v, m, c) = random_stop t (m, c) in (v, (Random_monitor m, st), c))"
| "any_stop env t ((PageMigrate_monitor m, st), c) =
     (let (v, m) = page_migrate_stop t m in (v, (PageMigrate_monitor m, st), c))"

fun any_clear :: "mon_env \<Rightarrow> int \<Rightarrow> shared_monitor \<Rightarrow> shared_monitor" where
  "any_clear env t ((ClustSafe_monitor m, st), c) =
     (let ((m, st), c) = clust_clear t ((m, st), c) in ((ClustSafe_monitor m, st), c))"
| "any_clear env t ((GPerf_monitor m, st), c) =
     (let (m, c) = gperf_clear (me_kernel env) t (m, c) in ((GPerf_monitor m, st), c))"
| "any_clear env t ((Random_monitor m, st), c) =
     (let (m, c) = random_clear t (m, c) in ((Random_monitor m, st), c))"
| "any_clear env t ((PageMigrate_monitor m, st), c) = ((PageMigrate_monitor (page_migrate_clear t m), st), c)"

text \<open>
  Values are asked for only by the data logger, and only for the tasks a monitor lists; the page migration monitor
  lists none, so that its accumulators need not have the third element that is read here.
\<close>

fun any_value :: "mon_env \<Rightarrow> int \<Rightarrow> shared_monitor \<Rightarrow> double \<times> shared_monitor" where
  "any_value env t ((ClustSafe_monitor m, st), c) =
     (let (v, (m, st), c) = clust_value (me_clust env) t ((m, st), c) in (v, (ClustSafe_monitor m, st), c))"
| "any_value env t ((GPerf_monitor m, st), c) =
     (let (v, m, c) = gperf_value (me_rounding env) (me_kernel env) t (m, c) in (v, (GPerf_monitor m, st), c))"
| "any_value env t ((Random_monitor m, st), c) =
     (let (v, m, c) = random_value t (m, c) in (v, (Random_monitor m, st), c))"
| "any_value env t ((PageMigrate_monitor m, st), c) =
     (the (page_migrate_value (me_rounding env) (me_metrics env) t m), (PageMigrate_monitor m, st), c)"

fun any_tasks :: "any_monitor \<Rightarrow> autopin_tid_list" where
  "any_tasks (ClustSafe_monitor m) = threads m"
| "any_tasks (GPerf_monitor m) = gperf_getMonitoredTasks m"
| "any_tasks (Random_monitor m) = random_getMonitoredTasks m"
| "any_tasks (PageMigrate_monitor m) = page_migrate_getMonitoredTasks m"

definition any_ops :: "mon_env \<Rightarrow> (any_monitor \<times> clust_static) monitor_ops" where
  "any_ops env = \<lparr>op_start = any_start env, op_value = any_value env, op_stop = any_stop env, op_clear = any_clear env,
     op_getMonitoredTasks = (\<lambda>(m, st). any_tasks m)\<rparr>"

subsection \<open>The contract holds for all kinds but one\<close>

fun lists_tasks :: "any_monitor \<Rightarrow> bool" where \<comment> \<open>the page migration monitor never lists a task\<close>
  "lists_tasks (PageMigrate_monitor m) \<longleftrightarrow> False"
| "lists_tasks _ \<longleftrightarrow> True"

definition any_inv :: "any_monitor \<times> clust_static \<Rightarrow> bool" where
  "any_inv = (\<lambda>(m, st). lists_tasks m \<and> finite (any_tasks m))"

lemma clust_ops_simps:
  "op_start (clust_ops env) = clust_start env" "op_value (clust_ops env) = clust_value env" "op_stop (clust_ops env) = clust_stop env"
  "op_clear (clust_ops env) = clust_clear" "op_getMonitoredTasks (clust_ops env) mst = threads (fst mst)"
  by (simp_all add: clust_ops_def clust_getMonitoredTasks_def)

lemma gperf_ops_simps:
  "op_start (gperf_ops rnd kern) = gperf_start kern" "op_value (gperf_ops rnd kern) = gperf_value rnd kern"
  "op_stop (gperf_ops rnd kern) = gperf_stop rnd kern" "op_clear (gperf_ops rnd kern) = gperf_clear kern"
  "op_getMonitoredTasks (gperf_ops rnd kern) m = dom (gp_threads m)"
  by (simp_all add: gperf_ops_def gperf_getMonitoredTasks_def)

lemma random_ops_simps:
  "op_start (random_ops env) = random_start env" "op_value (random_ops env) = random_value" "op_stop (random_ops env) = random_stop"
  "op_clear (random_ops env) = random_clear" "op_getMonitoredTasks (random_ops env) m = dom (rands m)" "random_inv m = finite (dom (rands m))"
  by (simp_all add: random_ops_def random_getMonitoredTasks_def random_inv_def)

lemmas kind_ops = clust_ops_simps gperf_ops_simps random_ops_simps gperf_getMonitoredTasks_def random_getMonitoredTasks_def

lemma any_start_tasks:
  assumes "any_start env t ((m, st), c) = ((m', st'), c')" and "lists_tasks m" and "finite (any_tasks m)"
  shows "lists_tasks m' \<and> finite (any_tasks m') \<and> (\<not> isError c' \<longrightarrow> \<not> isError c \<and> any_tasks m' = insert t (any_tasks m))"
proof (cases m)
  case (ClustSafe_monitor x)
  obtain x1 st1 c1 where f: "clust_start (me_clust env) t ((x, st), c) = ((x1, st1), c1)" by (metis prod.collapse)
  then have "m' = ClustSafe_monitor x1 \<and> c' = c1" using assms(1) ClustSafe_monitor by simp
  with clustsafe.set_started[of "(x, st)" "me_clust env" t c, unfolded kind_ops, OF _ f] assms(3) ClustSafe_monitor show ?thesis by (simp add: kind_ops)
next
  case (GPerf_monitor x)
  obtain x1 c1 where f: "gperf_start (me_kernel env) t (x, c) = (x1, c1)" by (metis prod.collapse)
  then have "m' = GPerf_monitor x1 \<and> c' = c1" using assms(1) GPerf_monitor by simp
  with gperf.set_started[of x "me_rounding env" "me_kernel env" t c, unfolded kind_ops, OF _ f] assms(3) GPerf_monitor show ?thesis by (simp add: kind_ops)
next
  case (Random_monitor x)
  obtain x1 c1 where f: "random_start (me_random env) t (x, c) = (x1, c1)" by (metis prod.collapse)
  then have "m' = Random_monitor x1 \<and> c' = c1" using assms(1) Random_monitor by simp
  with random.set_started[of x "me_random env" t c, unfolded kind_ops, OF _ f] assms(3) Random_monitor show ?thesis by (simp add: kind_ops)
next
  case (PageMigrate_monitor x)
  with assms(2) show ?thesis by simp
qed

lemma any_value_tasks:
  assumes "any_value env t ((m, st), c) = (v, (m', st'), c')" and "lists_tasks m" and "finite (any_tasks m)"
  shows "lists_tasks m' \<and> finite (any_tasks m') \<and> (\<not> isError c' \<longrightarrow> \<not> isError c \<and> t \<in> any_tasks m \<and> any_tasks m' = any_tasks m)"
proof (cases m)
  case (ClustSafe_monitor x)
  obtain v1 x1 st1 c1 where f: "clust_value (me_clust env) t ((x, st), c) = (v1, (x1, st1), c1)" by (metis prod.collapse)
  then have "m' = ClustSafe_monitor x1 \<and> c' = c1" using assms(1) ClustSafe_monitor by simp
  with clustsafe.set_valued[of "(x, st)" "me_clust env" t c, unfolded kind_ops, OF _ f] assms(3) ClustSafe_monitor show ?thesis by (simp add: kind_ops)
next
  case (GPerf_monitor x)
  obtain v1 x1 c1 where f: "gperf_value (me_rounding env) (me_kernel env) t (x, c) = (v1, x1, c1)" by (metis prod.collapse)
  then have "m' = GPerf_monitor x1 \<and> c' = c1" using assms(1) GPerf_monitor by simp
  with gperf.set_valued[of x "me_rounding env" "me_kernel env" t c, unfolded kind_ops, OF _ f] assms(3) GPerf_monitor show ?thesis by (simp add: kind_ops)
next
  case (Random_monitor x)
  obtain v1 x1 c1 where f: "random_value t (x, c) = (v1, x1, c1)" by (metis prod.collapse)
  then have "m' = Random_monitor x1 \<and> c' = c1" using assms(1) Random_monitor by simp
  with random.set_valued[of x "me_random env" t c, unfolded kind_ops, OF _ f] assms(3) Random_monitor show ?thesis by (simp add: kind_ops)
next
  case (PageMigrate_monitor x)
  with assms(2) show ?thesis by simp
qed

lemma any_stop_tasks:
  assumes "any_stop env t ((m, st), c) = (v, (m', st'), c')" and "lists_tasks m" and "finite (any_tasks m)"
  shows "lists_tasks m' \<and> finite (any_tasks m') \<and> (\<not> isError c' \<longrightarrow> \<not> isError c \<and> any_tasks m' = any_tasks m - {t})"
proof (cases m)
  case (ClustSafe_monitor x)
  obtain v1 x1 st1 c1 where f: "clust_stop (me_clust env) t ((x, st), c) = (v1, (x1, st1), c1)" by (metis prod.collapse)
  then have "m' = ClustSafe_monitor x1 \<and> c' = c1" using assms(1) ClustSafe_monitor by simp
  with clustsafe.set_stopped[of "(x, st)" "me_clust env" t c, unfolded kind_ops, OF _ f] assms(3) ClustSafe_monitor show ?thesis by (simp add: kind_ops)
next
  case (GPerf_monitor x)
  obtain v1 x1 c1 where f: "gperf_stop (me_rounding env) (me_kernel env) t (x, c) = (v1, x1, c1)" by (metis prod.collapse)
  then have "m' = GPerf_monitor x1 \<and> c' = c1" using assms(1) GPerf_monitor by simp
  with gperf.set_stopped[of x "me_rounding env" "me_kernel env" t c, unfolded kind_ops, OF _ f] assms(3) GPerf_monitor show ?thesis by (simp add: kind_ops)
next
  case (Random_monitor x)
  obtain v1 x1 c1 where f: "random_stop t (x, c) = (v1, x1, c1)" by (metis prod.collapse)
  then have "m' = Random_monitor x1 \<and> c' = c1" using assms(1) Random_monitor by simp
  with random.set_stopped[of x "me_random env" t c, unfolded kind_ops, OF _ f] assms(3) Random_monitor show ?thesis by (simp add: kind_ops)
next
  case (PageMigrate_monitor x)
  with assms(2) show ?thesis by simp
qed

lemma any_clear_tasks:
  assumes "any_clear env t ((m, st), c) = ((m', st'), c')" and "lists_tasks m" and "finite (any_tasks m)"
  shows "lists_tasks m' \<and> finite (any_tasks m') \<and> (\<not> isError c' \<longrightarrow> \<not> isError c \<and> any_tasks m' = any_tasks m - {t})"
proof (cases m)
  case (ClustSafe_monitor x)
  obtain x1 st1 c1 where f: "clust_clear t ((x, st), c) = ((x1, st1), c1)" by (metis prod.collapse)
  then have "m' = ClustSafe_monitor x1 \<and> c' = c1" using assms(1) ClustSafe_monitor by simp
  with clustsafe.set_cleared[of "(x, st)" "me_clust env" t c, unfolded kind_ops, OF _ f] assms(3) ClustSafe_monitor show ?thesis by (simp add: kind_ops)
next
  case (GPerf_monitor x)
  obtain x1 c1 where f: "gperf_clear (me_kernel env) t (x, c) = (x1, c1)" by (metis prod.collapse)
  then have "m' = GPerf_monitor x1 \<and> c' = c1" using assms(1) GPerf_monitor by simp
  with gperf.set_cleared[of x "me_rounding env" "me_kernel env" t c, unfolded kind_ops, OF _ f] assms(3) GPerf_monitor show ?thesis by (simp add: kind_ops)
next
  case (Random_monitor x)
  obtain x1 c1 where f: "random_clear t (x, c) = (x1, c1)" by (metis prod.collapse)
  then have "m' = Random_monitor x1 \<and> c' = c1" using assms(1) Random_monitor by simp
  with random.set_cleared[of x "me_random env" t c, unfolded kind_ops, OF _ f] assms(3) Random_monitor show ?thesis by (simp add: kind_ops)
next
  case (PageMigrate_monitor x)
  with assms(2) show ?thesis by simp
qed

interpretation any: task_set_monitor "any_ops env" any_inv for env
  by unfold_locales
    (auto simp: any_ops_def any_inv_def dest: any_start_tasks any_value_tasks any_stop_tasks any_clear_tasks)

subsection \<open>The monitors of a strategy\<close>

text \<open>Noop with the list of monitors it refers to; the slots of \<open>Noop\<close> with every kind of monitor in the list.\<close>

record noop = strategy +
  noop_monitors :: "any_monitor list"
  noop_static :: clust_static

definition with_static :: "(shared_monitor \<Rightarrow> shared_monitor) \<Rightarrow>
    any_monitor \<times> clust_static \<times> apcontext \<Rightarrow> any_monitor \<times> clust_static \<times> apcontext" where
  "with_static f = (\<lambda>(m, st, c). let ((m, st), c) = f ((m, st), c) in (m, st, c))"

lemma with_static_eq: "f ((m, st), c) = ((m', st'), c') \<Longrightarrow> with_static f (m, st, c) = (m', st', c')"
  by (simp add: with_static_def)

definition each_shared ::
  "(shared_monitor \<Rightarrow> shared_monitor) \<Rightarrow> noop \<times> world \<Rightarrow> noop \<times> world" where
  "each_shared f = (\<lambda>(s, w).
     (let (ms, st, c) = each_monitor (with_static f)
            (noop_monitors s) (noop_static s, runtime w)
      in (s\<lparr>noop_monitors := ms, noop_static := st\<rparr>, w\<lparr>runtime := c\<rparr>)))"

definition noop_created ::
  "mon_env \<Rightarrow> affinity_oracle \<Rightarrow> observed_process \<Rightarrow> int \<Rightarrow> noop \<times> world \<Rightarrow> (noop \<times> world) option" where
  "noop_created env aff proc tid sw =
     map_option (each_shared (any_start env tid)) (slot_TaskCreated base_getPinning aff proc tid sw)"

definition noop_terminated ::
  "mon_env \<Rightarrow> affinity_oracle \<Rightarrow> observed_process \<Rightarrow> int \<Rightarrow> noop \<times> world \<Rightarrow> (noop \<times> world) option" where
  "noop_terminated env aff proc tid sw =
     map_option (each_shared (any_clear env tid)) (slot_TaskTerminated base_getPinning aff proc tid sw)"

text \<open>For random monitors these are the slots of \<open>Noop\<close>.\<close>

definition with_random :: "clust_static \<Rightarrow> strategy \<times> world \<times> random list \<Rightarrow> noop \<times> world" where
  "with_random st = (\<lambda>(s, w, ms). (strategy.extend s \<lparr>noop_monitors = map Random_monitor ms, noop_static = st\<rparr>, w))"

lemma each_random:
  assumes "\<And>m c. f ((Random_monitor m, st), c) = (let (m, c) = g (m, c) in ((Random_monitor m, st), c))"
  shows "each_monitor (with_static f) (map Random_monitor ms) (st, c) =
    (let (ms, c) = each_monitor g ms c in (map Random_monitor ms, st, c))"
proof (induction ms arbitrary: c)
  case Nil
  then show ?case by simp
next
  case (Cons m ms)
  obtain m1 c1 where g: "g (m, c) = (m1, c1)" by fastforce
  then have "with_static f (Random_monitor m, st, c) = (Random_monitor m1, st, c1)" using assms[of m c] by (intro with_static_eq) simp
  with Cons[of c1] g show ?case by (simp split: prod.splits)
qed

lemma noop_random_created:
  "noop_created env aff proc tid (with_random st (s, w, ms)) =
     map_option (with_random st) (noop_slot_TaskCreated (random_ops (me_random env)) aff proc tid (s, w, ms))"
  using each_random[of "any_start env tid" st "random_start (me_random env) tid" ms "runtime w"]
  by (simp add: noop_created_def noop_slot_TaskCreated_def base_created with_random_def each_shared_def random_ops_simps strategy.defs
      split: prod.splits)

lemma noop_random_terminated:
  "noop_terminated env aff proc tid (with_random st (s, w, ms)) =
     map_option (with_random st) (noop_slot_TaskTerminated (random_ops (me_random env)) aff proc tid (s, w, ms))"
  using each_random[of "any_clear env tid" st "random_clear tid" ms "runtime w"]
  by (simp add: noop_terminated_def noop_slot_TaskTerminated_def base_terminated with_random_def each_shared_def random_ops_simps
      strategy.defs split: prod.splits)

fun noop_events ::
  "mon_env \<Rightarrow> affinity_oracle \<Rightarrow> observed_process \<Rightarrow> task_event list \<Rightarrow> noop \<times> world \<Rightarrow> (noop \<times> world) option" where
  "noop_events env aff proc [] sw = Some sw"
| "noop_events env aff proc (Created tid # es) sw =
     (case noop_created env aff proc tid sw of None \<Rightarrow> None | Some sw \<Rightarrow> noop_events env aff proc es sw)"
| "noop_events env aff proc (Terminated tid # es) sw =
     (case noop_terminated env aff proc tid sw of None \<Rightarrow> None | Some sw \<Rightarrow> noop_events env aff proc es sw)"

text \<open>The monitors that list tasks list those of \<open>A\<close>.\<close>

definition watching :: "int set \<Rightarrow> any_monitor \<Rightarrow> bool" where
  "watching A m \<longleftrightarrow> lists_tasks m \<longrightarrow> finite A \<and> any_tasks m = A"

definition sound_monitor :: "any_monitor \<Rightarrow> bool" where
  "sound_monitor m \<longleftrightarrow> lists_tasks m \<longrightarrow> finite (any_tasks m)"

text \<open>What one call of a monitor does, as noop's loops need it: \<open>A\<close> becomes \<open>B\<close>.\<close>

definition moves :: "(shared_monitor \<Rightarrow> shared_monitor) \<Rightarrow> int set \<Rightarrow> int set \<Rightarrow> bool" where
  "moves f A B \<longleftrightarrow> (\<forall>m st c m' st' c'. f ((m, st), c) = ((m', st'), c') \<and> sound_monitor m \<longrightarrow>
     sound_monitor m' \<and> (\<not> isError c' \<longrightarrow> \<not> isError c \<and> (watching A m \<longrightarrow> watching B m')))"

lemma start_moves: "finite A \<Longrightarrow> moves (any_start env t) A (insert t A)"
  unfolding moves_def sound_monitor_def watching_def
proof (intro allI impI, elim conjE)
  fix m st c m' st' c'
  assume "finite A" and f: "any_start env t ((m, st), c) = ((m', st'), c')" and "lists_tasks m \<longrightarrow> finite (any_tasks m)"
  then show "(lists_tasks m' \<longrightarrow> finite (any_tasks m')) \<and> (\<not> isError c' \<longrightarrow> \<not> isError c \<and>
      ((lists_tasks m \<longrightarrow> finite A \<and> any_tasks m = A) \<longrightarrow> (lists_tasks m' \<longrightarrow> finite (insert t A) \<and> any_tasks m' = insert t A)))"
    using any_start_tasks[OF f] by (cases "lists_tasks m"; cases m) auto
qed

lemma clear_moves: "finite A \<Longrightarrow> moves (any_clear env t) A (A - {t})"
  unfolding moves_def sound_monitor_def watching_def
proof (intro allI impI, elim conjE)
  fix m st c m' st' c'
  assume "finite A" and f: "any_clear env t ((m, st), c) = ((m', st'), c')" and "lists_tasks m \<longrightarrow> finite (any_tasks m)"
  then show "(lists_tasks m' \<longrightarrow> finite (any_tasks m')) \<and> (\<not> isError c' \<longrightarrow> \<not> isError c \<and>
      ((lists_tasks m \<longrightarrow> finite A \<and> any_tasks m = A) \<longrightarrow> (lists_tasks m' \<longrightarrow> finite (A - {t}) \<and> any_tasks m' = A - {t})))"
    using any_clear_tasks[OF f] by (cases "lists_tasks m"; cases m) auto
qed

lemma each_moves:
  assumes "moves f A B" and "\<forall>m\<in>set ms. sound_monitor m"
    and "each_monitor (with_static f) ms (st, c) = (ms', st', c')"
  shows "length ms' = length ms \<and> (\<forall>m\<in>set ms'. sound_monitor m) \<and>
    (\<not> isError c' \<longrightarrow> \<not> isError c \<and> ((\<forall>m\<in>set ms. watching A m) \<longrightarrow> (\<forall>m\<in>set ms'. watching B m)))"
  using assms(2,3)
proof (induction ms arbitrary: st c ms')
  case Nil
  then show ?case by simp
next
  case (Cons m ms)
  obtain m1 st1 c1 where f: "f ((m, st), c) = ((m1, st1), c1)" by (metis prod.collapse)
  obtain ms2 st2 c2 where r: "each_monitor (with_static f) ms (st1, c1) = (ms2, st2, c2)"
    by (metis prod.collapse)
  have eq: "ms' = m1 # ms2" "c' = c2" "st' = st2" using Cons.prems(2) by (simp_all add: with_static_eq[of f, OF f] r)
  have "sound_monitor m1 \<and> (\<not> isError c1 \<longrightarrow> \<not> isError c \<and> (watching A m \<longrightarrow> watching B m1))"
    using assms(1) f Cons.prems(1) unfolding moves_def by (meson list.set_intros(1))
  with Cons.IH[of st1 c1 ms2] Cons.prems(1) r eq show ?case by auto
qed

text \<open>What an event of the tasks does to noop and all its monitors.\<close>

definition noop_moves :: "int set \<Rightarrow> int set \<Rightarrow> noop \<times> world \<Rightarrow> noop \<times> world \<Rightarrow> bool" where
  "noop_moves A B = (\<lambda>(s, w) (s', w'). (\<forall>m\<in>set (noop_monitors s). sound_monitor m) \<longrightarrow>
     length (noop_monitors s') = length (noop_monitors s) \<and> (\<forall>m\<in>set (noop_monitors s'). sound_monitor m) \<and>
     affinity_calls w' = affinity_calls w \<and>
     (\<not> isError (runtime w') \<longrightarrow> \<not> isError (runtime w) \<and>
        ((\<forall>m\<in>set (noop_monitors s). watching A m) \<longrightarrow> (\<forall>m\<in>set (noop_monitors s'). watching B m))))"

lemma each_shared_moves:
  assumes "moves f A B"
  shows "noop_moves A B (s, w) (each_shared f (s, w))"
proof -
  obtain ms st c where r: "each_monitor (with_static f)
      (noop_monitors s) (noop_static s, runtime w) = (ms, st, c)" by (metis prod.collapse)
  show ?thesis using each_moves[OF assms _ r] by (simp add: noop_moves_def each_shared_def r)
qed

lemma noop_moves_trans: "noop_moves A B sw sw1 \<Longrightarrow> noop_moves B C sw1 sw2 \<Longrightarrow> noop_moves A C sw sw2"
  by (cases sw; cases sw1; cases sw2) (simp only: noop_moves_def prod.case, metis)

lemma noop_created_moves:
  assumes "finite A"
  shows "\<exists>sw'. noop_created env aff proc t (s, w) = Some sw' \<and> noop_moves A (insert t A) (s, w) sw'"
  using each_shared_moves[OF start_moves[where t = t and env = env, OF assms], where s = "s\<lparr>tasks := tasks s @ [t]\<rparr>" and w = w]
  by (auto simp: noop_created_def base_created noop_moves_def split: prod.splits)

lemma noop_terminated_moves:
  assumes "finite A"
  shows "\<exists>sw'. noop_terminated env aff proc t (s, w) = Some sw' \<and> noop_moves A (A - {t}) (s, w) sw'"
proof -
  let ?s = "s\<lparr>tasks := remove1 t (tasks s)\<rparr>"
  let ?w = "w\<lparr>pinning := find_assign \<lparr>t_pid = op_pid proc, t_tid = t\<rparr> emptyTask (pinning w)\<rparr>"
  show ?thesis
    using each_shared_moves[OF clear_moves[where t = t and env = env, OF assms], where s = ?s and w = ?w]
    by (auto simp: noop_terminated_def base_terminated noop_moves_def split: prod.splits)
qed

lemma alive_finite: "finite A \<Longrightarrow> finite (alive es A)"
  by (induction es A rule: alive.induct) simp_all

lemma noop_events_moves:
  assumes "finite A"
  shows "\<exists>sw'. noop_events env aff proc es sw = Some sw' \<and> noop_moves A (alive es A) sw sw'"
  using assms
proof (induction es arbitrary: sw A)
  case Nil
  then show ?case by (cases sw) (simp add: noop_moves_def)
next
  case (Cons e es)
  obtain s w where sw: "sw = (s, w)" by fastforce
  show ?case
  proof (cases e)
    case (Created t)
    from noop_created_moves[OF Cons.prems, of env aff proc t s w] obtain sw1 where
      1: "noop_created env aff proc t sw = Some sw1" "noop_moves A (insert t A) sw sw1" by (auto simp: sw)
    with Cons.IH[of "insert t A" sw1] Cons.prems Created show ?thesis by (auto intro: noop_moves_trans)
  next
    case (Terminated t)
    from noop_terminated_moves[OF Cons.prems, of env aff proc t s w] obtain sw1 where
      1: "noop_terminated env aff proc t sw = Some sw1" "noop_moves A (A - {t}) sw sw1" by (auto simp: sw)
    with Cons.IH[of "A - {t}" sw1] Cons.prems Terminated show ?thesis by (auto intro: noop_moves_trans)
  qed
qed


definition demo_mon_env :: mon_env where
  "demo_mon_env = \<lparr>me_clust = demo_device, me_kernel = demo_perf, me_rounding = Fin,
     me_random = \<lparr>qrand = (\<lambda>n. int n), RAND_MAX = 2147483647, rounding = Fin\<rparr>, me_spm = id,
     me_metrics = \<lparr>number_pf_samples = 0, running_accum = None\<rparr>\<rparr>"

definition demo_noop :: noop where
  "demo_noop = strategy.extend ControlStrategy_new
     \<lparr>noop_monitors = [Random_monitor (random_new ''r''), GPerf_monitor (gperf_new demo_sensor ''g''),
        PageMigrate_monitor (page_migrate_new settings_zero 7 ''p'')], noop_static = clust_static_new\<rparr>"

lemma demo_noop_error_free:
  "\<not> isError (runtime (snd (the (noop_events demo_mon_env (\<lambda>_ _ _. 0) demo_op [Created 7, Created 8, Terminated 7]
     (demo_noop, \<lparr>pinning = [], affinity_calls = [], runtime = AutopinContext_new ''w''\<rparr>)))))"
  by code_simp


end
