(* ===== verification/Slots.thy ===== *)
theory Slots
  imports Monitors Follow
begin

text \<open>
  All slots and timers of all strategies, with all kinds of monitors: what a call of the event loop does to the strategy of a
  watchdog, its monitors, the static members of ClustSafe and the shared pinning; and several watchdogs on one host with
  such calls in any order.
\<close>

subsection \<open>The walk over /proc finds only tasks of the process\<close>

lemma omap_put_values: "(k, v) \<in> set (omap_put c t xs) \<Longrightarrow> (k, v) = (c, t) \<or> (k, v) \<in> set xs"
  by (induction xs) (auto split: if_splits)

lemma addChildProcess_tasks: "getAllTasks (addChildProcess p c t) \<subseteq> insert c (getAllTasks t)"
proof (induction t)
  case (Process q ts cs)
  show ?case
  proof (cases "q = p")
    case True
    have "x = c \<or> (\<exists>(k, u)\<in>set cs. x \<in> getAllTasks u)" if "(k, u) \<in> set (omap_put c (ProcessTree_new c) cs)" "x \<in> getAllTasks u" for x k u
      using omap_put_values[OF that(1)] that(2) by (auto simp: ProcessTree_new_def)
    with True show ?thesis by (fastforce simp: fold_Un)
  next
    case False
    with Process show ?thesis by (fastforce simp: fold_Un)
  qed
qed

lemma addProcessTaskList_tasks: "getAllTasks (addProcessTaskList p tids t) \<subseteq> getAllTasks t \<union> tids"
proof (induction t)
  case (Process q ts cs)
  show ?case
  proof (cases "q = p")
    case False
    with Process show ?thesis by (fastforce simp: fold_Un)
  qed (auto simp: fold_Un)
qed

lemma empty_tree_tasks: "getAllTasks ProcessTree_empty = {0}"
  by (simp add: ProcessTree_empty_def ProcessTree_new_def)

lemma descendants_step: "q \<in> descendants qt fs r \<Longrightarrow> d \<in> children_of qt fs q \<Longrightarrow> d \<in> descendants qt fs r"
  by (auto simp: descendants_def child_rel_def intro: rtrancl_into_rtrancl)

lemma live_tasksI: "q \<in> descendants qt fs r \<Longrightarrow> insert q (threads_of qt fs q) \<subseteq> live_tasks qt fs r"
  by (auto simp: live_tasks_def)

lemma getChildProcesses_sound:
  assumes "getChildProcesses qt fs p c = (ch, c')" and "\<not> isError c'"
  shows "ch = children_of qt fs p"
proof (cases "entryList fs ''/proc''")
  case None
  with assms show ?thesis by (auto simp: getChildProcesses_def fatal_def fatal_reports_def)
next
  case (Some procs)
  with getChildProcesses_pure[OF this, of qt p c] assms(1) show ?thesis by auto
qed

lemma tree_loop_sound:
  assumes "tree_loop qt fs fuel wl t c = Some (t', c')" and "snd ` set wl \<subseteq> descendants qt fs r"
    and "getAllTasks t \<subseteq> live_tasks qt fs r"
  shows "getAllTasks t' \<subseteq> live_tasks qt fs r \<or> t' = ProcessTree_empty \<and> isError c'"
  using assms
proof (induction qt fs fuel wl t c rule: tree_loop.induct)
  case (3 qt fs fuel w wl t c)
  obtain p q where w: "w = (p, q)" by fastforce
  have q: "q \<in> descendants qt fs r" using 3(3) w by simp
  obtain c1 where c1: "getProcessThreads qt fs q c = (threads_of qt fs q, c1)" using getProcessThreads_pure by blast
  obtain ch c2 where c2: "getChildProcesses qt fs q c1 = (ch, c2)" by fastforce
  show ?case
  proof (cases "isError c1 \<or> isError c2")
    case True
    with 3(2) w c1 c2 show ?thesis by (auto simp: Let_def split: if_splits)
  next
    case False
    let ?t = "addProcessTaskList q (threads_of qt fs q) (addChildProcess p q t)"
    let ?wl = "wl @ map (\<lambda>d. (q, d)) (sorted_list_of_set ch)"
    have "ch = children_of qt fs q" using getChildProcesses_sound[OF c2] False by simp
    then have "snd ` set ?wl \<subseteq> descendants qt fs r"
      using 3(3) descendants_step[OF q] by (cases "finite ch") auto
    moreover have "getAllTasks ?t \<subseteq> live_tasks qt fs r"
      using addProcessTaskList_tasks[of q "threads_of qt fs q" "addChildProcess p q t"] addChildProcess_tasks[of p q t]
        live_tasksI[OF q] 3(4) by blast
    moreover have "tree_loop qt fs fuel ?wl ?t c2 = Some (t', c')" using 3(2) w c1 c2 False by simp
    ultimately show ?thesis using 3(1)[of "addChildProcess p q t" "(threads_of qt fs q, c1)" "threads_of qt fs q" c1 ?t "(ch, c2)" ch c2]
      w c1 c2 False by simp
  qed
qed auto

lemma getProcessTree_sound:
  assumes "getProcessTree qt fs fuel proc c = Some (t, c')"
  shows "getAllTasks t \<subseteq> live_tasks qt fs (op_pid proc) \<or> t = ProcessTree_empty \<and> (\<not> running proc \<or> isError c')"
proof (cases "running proc")
  case False
  with assms show ?thesis by (simp add: getProcessTree_def)
next
  case True
  let ?r = "op_pid proc"
  have r: "?r \<in> descendants qt fs ?r" by (simp add: descendants_def)
  obtain c1 where c1: "getProcessThreads qt fs ?r c = (threads_of qt fs ?r, c1)" using getProcessThreads_pure by blast
  obtain ch c2 where c2: "getChildProcesses qt fs ?r c1 = (ch, c2)" by fastforce
  show ?thesis
  proof (cases "isError c1 \<or> isError c2")
    case True
    with assms \<open>running proc\<close> c1 c2 show ?thesis by (auto simp: getProcessTree_def Let_def split: if_splits)
  next
    case False
    let ?t = "addProcessTaskList ?r (threads_of qt fs ?r) (ProcessTree_new ?r)"
    have "ch = children_of qt fs ?r" using getChildProcesses_sound[OF c2] False by simp
    then have wl: "snd ` set (map (\<lambda>d. (?r, d)) (sorted_list_of_set ch)) \<subseteq> descendants qt fs ?r"
      using descendants_step[OF r] by (cases "finite ch") auto
    have "getAllTasks (ProcessTree_new ?r) = {?r}" by (simp add: ProcessTree_new_def)
    then have "getAllTasks ?t \<subseteq> live_tasks qt fs ?r"
      using addProcessTaskList_tasks[of ?r "threads_of qt fs ?r" "ProcessTree_new ?r"] live_tasksI[OF r] by auto
    moreover have "tree_loop qt fs fuel (map (\<lambda>d. (?r, d)) (sorted_list_of_set ch)) ?t c2 = Some (t, c')"
      using assms True c1 c2 False by (simp add: getProcessTree_def)
    ultimately show ?thesis using tree_loop_sound[OF _ wl] by blast
  qed
qed

subsection \<open>The calls of the event loop\<close>

text \<open>
  Besides the slots that are connected, the timeouts: the polling timer of the base class, the three single-shot timers of
  autopin1 and its queued call of \<open>slot_startPinning\<close>.
\<close>

datatype strategy_call = Slot wd_slot | Poll | Init_timeout | Queued_start | Warmup_timeout | Measure_timeout

record slot_env =
  sl_topology :: cpu_info
  sl_sort :: sorter
  sl_order :: "int set \<Rightarrow> int list"
  sl_monitors :: mon_env
  sl_a1 :: a1_env \<comment> \<open>\<open>/proc\<close>, number conversions, \<open>sched_setaffinity\<close> and the clock\<close>

text \<open>A strategy that has the slots of the base class, with the two virtual ones as arguments.\<close>

fun polling_call ::
  "slot_env \<Rightarrow> observed_process \<Rightarrow> (int \<Rightarrow> 'a strategy_scheme \<times> world \<Rightarrow> ('a strategy_scheme \<times> world) option) \<Rightarrow>
    (int \<Rightarrow> 'a strategy_scheme \<times> world \<Rightarrow> ('a strategy_scheme \<times> world) option) \<Rightarrow> strategy_call \<Rightarrow>
    'a strategy_scheme \<times> world \<Rightarrow> ('a strategy_scheme \<times> world) option" where
  "polling_call env proc created terminated (Slot (Strategy_TaskCreated t)) sw = created t sw"
| "polling_call env proc created terminated (Slot (Strategy_TaskTerminated t)) sw = terminated t sw"
| "polling_call env proc created terminated (Slot Strategy_watchdogReady) (s, w) = Some (slot_watchdogReady proc s, w)"
| "polling_call env proc created terminated Poll (s, w) =
     (if timer_interval s = None then Some (s, w)
      else slot_timer (sl_order env) (a_qt (sl_a1 env)) (a_fs (sl_a1 env)) (a_fuel (sl_a1 env)) proc created terminated (s, w))"
| "polling_call env proc created terminated _ sw = Some sw"

text \<open>Autopin1 has a pointer to the first monitor; without one it never gets as far as a call (\<open>monitor_set\<close>).\<close>

fun on_first :: "(shared_monitor \<Rightarrow> shared_monitor) \<Rightarrow> (any_monitor list \<times> clust_static) \<times> apcontext \<Rightarrow>
    (any_monitor list \<times> clust_static) \<times> apcontext" where
  "on_first f ((m # ms, st), c) = (let ((m, st), c) = f ((m, st), c) in ((m # ms, st), c))"
| "on_first f (([], st), c) = (([], st), c)"

fun ask_first :: "(shared_monitor \<Rightarrow> double \<times> shared_monitor) \<Rightarrow> (any_monitor list \<times> clust_static) \<times> apcontext \<Rightarrow>
    double \<times> (any_monitor list \<times> clust_static) \<times> apcontext" where
  "ask_first f ((m # ms, st), c) = (let (v, (m, st), c) = f ((m, st), c) in (v, (m # ms, st), c))"
| "ask_first f (([], st), c) = (Fin 0, ([], st), c)"

definition first_ops :: "mon_env \<Rightarrow> (any_monitor list \<times> clust_static) monitor_ops" where
  "first_ops env = \<lparr>op_start = (\<lambda>t. on_first (any_start env t)), op_value = (\<lambda>t. ask_first (any_value env t)),
     op_stop = (\<lambda>t. ask_first (any_stop env t)), op_clear = (\<lambda>t. on_first (any_clear env t)),
     op_getMonitoredTasks = (\<lambda>(ms, st). if ms = [] then {} else any_tasks (hd ms))\<rparr>"

text \<open>
  A single-shot timer is no longer active when its slot runs; a timer that is not active does not call its slot. The message
  \<open>slot_watchdogReady\<close> sends to the process changes nothing here.
\<close>

fun autopin1_call ::
  "slot_env \<Rightarrow> observed_process \<Rightarrow> strategy_call \<Rightarrow> (any_monitor list \<times> clust_static) a1_state \<Rightarrow>
    (any_monitor list \<times> clust_static) a1_state option" where
  "autopin1_call env proc (Slot (Strategy_TaskCreated t)) st = a1_slot_TaskCreated (sl_a1 env) (first_ops (sl_monitors env)) t st"
| "autopin1_call env proc (Slot (Strategy_TaskTerminated t)) st = a1_slot_TaskTerminated (sl_a1 env) (first_ops (sl_monitors env)) t st"
| "autopin1_call env proc (Slot Strategy_watchdogReady) (s, w, m) = Some (snd (a1_slot_watchdogReady proc s), w, m)"
| "autopin1_call env proc Init_timeout (s, w, m) =
     (if init_timer s then slot_startPinning (sl_a1 env) proc (s\<lparr>init_timer := False\<rparr>, w, m) else Some (s, w, m))"
| "autopin1_call env proc Queued_start (s, w, m) =
     (if queued_start s > 0 then slot_startPinning (sl_a1 env) proc (s\<lparr>queued_start := queued_start s - 1\<rparr>, w, m) else Some (s, w, m))"
| "autopin1_call env proc Warmup_timeout (s, w, m) =
     (if warmup_timer s then slot_startMonitor (sl_a1 env) (first_ops (sl_monitors env)) proc (s\<lparr>warmup_timer := False\<rparr>, w, m)
      else Some (s, w, m))"
| "autopin1_call env proc Measure_timeout (s, w, m) =
     (if measure_timer s then slot_stopPinning (sl_a1 env) (first_ops (sl_monitors env)) proc (s\<lparr>measure_timer := False\<rparr>, w, m)
      else Some (s, w, m))"
| "autopin1_call env proc _ st = Some st"

text \<open>The call for whichever strategy the watchdog has.\<close>

type_synonym strategy_state = "any_strategy \<times> any_monitor list \<times> clust_static \<times> world"

fun strategy_step :: "slot_env \<Rightarrow> observed_process \<Rightarrow> strategy_call \<Rightarrow> strategy_state \<Rightarrow> strategy_state option" where
  "strategy_step env proc call (Compact_strategy s, ms, st, w) =
     map_option (\<lambda>(s, w). (Compact_strategy s, ms, st, w))
       (polling_call env proc (compact_slot_TaskCreated (sl_topology env) (a_aff (sl_a1 env)) proc)
          (slot_TaskTerminated (compact_getPinning (sl_topology env) proc) (a_aff (sl_a1 env)) proc) call (s, w))"
| "strategy_step env proc call (Scatter_strategy s, ms, st, w) =
     map_option (\<lambda>(s, w). (Scatter_strategy s, ms, st, w))
       (polling_call env proc (scatter_slot_TaskCreated (sl_sort env) (sl_topology env) (a_aff (sl_a1 env)) proc)
          (scatter_slot_TaskTerminated (sl_sort env) (sl_topology env) (a_aff (sl_a1 env)) proc) call (s, w))"
| "strategy_step env proc call (Noop_strategy s, ms, st, w) =
     map_option (\<lambda>(s, w). (Noop_strategy (strategy.truncate s), noop_monitors s, noop_static s, w))
       (polling_call env proc (noop_created (sl_monitors env) (a_aff (sl_a1 env)) proc)
          (noop_terminated (sl_monitors env) (a_aff (sl_a1 env)) proc) call
          (strategy.extend s \<lparr>noop_monitors = ms, noop_static = st\<rparr>, w))"
| "strategy_step env proc call (Autopin1_strategy s, ms, st, w) =
     map_option (\<lambda>(s, w, ms, st). (Autopin1_strategy s, ms, st, w)) (autopin1_call env proc call (s, w, ms, st))"

subsection \<open>What a call pins\<close>

text \<open>
  The calls of \<open>sched_setaffinity\<close> a step adds are for threads of \<open>K\<close>, and the CPUs of other processes keep their
  tasks.
\<close>

definition pins_only :: "int set \<Rightarrow> int \<Rightarrow> world \<Rightarrow> world \<Rightarrow> bool" where
  "pins_only K p w w' \<longleftrightarrow> (\<exists>cs. affinity_calls w' = affinity_calls w @ cs \<and> fst ` set cs \<subseteq> K) \<and>
     length (pinning w') = length (pinning w) \<and>
     (\<forall>i<length (pinning w). foreign p (pinning w ! i) \<longrightarrow> pinning w' ! i = pinning w ! i)"

lemma pins_only_refl [simp]: "pins_only K p w w"
  by (simp add: pins_only_def)

lemma pins_only_trans:
  assumes "pins_only K p w w1" and "pins_only K p w1 w2"
  shows "pins_only K p w w2"
proof -
  obtain cs1 cs2 where "affinity_calls w1 = affinity_calls w @ cs1" "affinity_calls w2 = affinity_calls w1 @ cs2"
    "fst ` set cs1 \<subseteq> K" "fst ` set cs2 \<subseteq> K" using assms by (auto simp: pins_only_def)
  then have "\<exists>cs. affinity_calls w2 = affinity_calls w @ cs \<and> fst ` set cs \<subseteq> K" by (intro exI[of _ "cs1 @ cs2"]) auto
  with assms show ?thesis by (simp add: pins_only_def)
qed

lemma pins_only_mono: "pins_only K p w w' \<Longrightarrow> K \<subseteq> L \<Longrightarrow> pins_only L p w w'"
  by (fastforce simp: pins_only_def)

lemma pins_only_context:
  "pins_only K p w (w'\<lparr>runtime := c\<rparr>) \<longleftrightarrow> pins_only K p w w'" "pins_only K p (w\<lparr>runtime := c\<rparr>) w' \<longleftrightarrow> pins_only K p w w'"
  by (simp_all add: pins_only_def)

text \<open>The threads a call may pin: the one that is announced, or those \<open>/proc\<close> has for the process.\<close>

definition call_tasks :: "slot_env \<Rightarrow> observed_process \<Rightarrow> strategy_call \<Rightarrow> int set" where
  "call_tasks env proc call =
     (case call of Slot slot \<Rightarrow> (case slot of Strategy_TaskCreated t \<Rightarrow> {t} | _ \<Rightarrow> {})
      | Warmup_timeout \<Rightarrow> {}
      | _ \<Rightarrow> live_tasks (a_qt (sl_a1 env)) (a_fs (sl_a1 env)) (op_pid proc))"

text \<open>
  What the strategies with the slots of the base class promise: a created task may be pinned, unless its id is 0, which
  means that there is nothing to place; a terminated one makes no call.
\<close>

locale pinning_slots =
  fixes created :: "int \<Rightarrow> 'a strategy_scheme \<times> world \<Rightarrow> ('a strategy_scheme \<times> world) option"
    and terminated :: "int \<Rightarrow> 'a strategy_scheme \<times> world \<Rightarrow> ('a strategy_scheme \<times> world) option"
    and idle :: "'a strategy_scheme \<Rightarrow> bool"
    and p :: int
  assumes created_pins: "created t (s, w) = Some (s', w') \<Longrightarrow> idle s \<Longrightarrow> idle s' \<and> pins_only ({t} - {0}) p w w'"
    and terminated_pins: "terminated t (s, w) = Some (s', w') \<Longrightarrow> idle s \<Longrightarrow> idle s' \<and> pins_only {} p w w'"
    and idle_base: "idle (s\<lparr>tasks := ts\<rparr>) = idle s" "idle (s\<lparr>timer_interval := x\<rparr>) = idle s"
begin

lemma created_pins_task: "created t (s, w) = Some (s', w') \<Longrightarrow> idle s \<Longrightarrow> idle s' \<and> pins_only {t} p w w'"
  using created_pins by (blast intro: pins_only_mono)

lemma terminated_loop_pins:
  assumes "slot_loop terminated ts (s, w) = Some (s', w')" and "idle s"
  shows "idle s' \<and> pins_only {} p w w'"
  using assms
proof (induction ts arbitrary: s w)
  case Nil
  then show ?case by simp
next
  case (Cons t ts)
  then obtain s1 w1 where 1: "terminated t (s, w) = Some (s1, w1)" "slot_loop terminated ts (s1, w1) = Some (s', w')"
    by (auto split: option.splits)
  from terminated_pins[OF 1(1) Cons.prems(2)] Cons.IH[OF 1(2)] show ?case by (blast intro: pins_only_trans)
qed

lemma created_loop_pins:
  assumes "slot_loop created ts (s, w) = Some (s', w')" and "idle s" and "set ts \<subseteq> insert 0 K"
  shows "idle s' \<and> pins_only K p w w'"
  using assms
proof (induction ts arbitrary: s w)
  case Nil
  then show ?case by simp
next
  case (Cons t ts)
  then obtain s1 w1 where 1: "created t (s, w) = Some (s1, w1)" "slot_loop created ts (s1, w1) = Some (s', w')"
    by (auto split: option.splits)
  have "{t} - {0} \<subseteq> K" using Cons.prems(3) by auto
  with created_pins[OF 1(1) Cons.prems(2)] have "idle s1" "pins_only K p w w1" by (auto intro: pins_only_mono)
  with Cons.IH[OF 1(2)] Cons.prems(3) show ?case by (auto intro: pins_only_trans)
qed

lemma timer_pins:
  assumes "slot_timer order qt fs fuel proc created terminated (s, w) = Some (s', w')" and "idle s" and "iterates order"
  shows "idle s' \<and> pins_only (live_tasks qt fs (op_pid proc)) p w w'"
proof -
  let ?K = "live_tasks qt fs (op_pid proc)"
  from assms(1) obtain s1 w1 s2 w2 where r: "refreshTasks qt fs fuel proc (s, w) = Some (s1, w1)"
    and t: "slot_loop terminated (order (set (tasks s) - set (tasks s1))) (s1, w1) = Some (s2, w2)"
    and c: "slot_loop created (order (set (tasks s1) - set (tasks s))) (s2, w2) = Some (s', w')"
    by (auto simp: slot_timer_def Let_def split: option.splits)
  from r obtain tree ctx where tree: "getProcessTree qt fs fuel proc (runtime w) = Some (tree, ctx)"
    and s1: "s1 = s\<lparr>tasks := sorted_list_of_set (getAllTasks tree)\<rparr>" "w1 = w\<lparr>runtime := ctx\<rparr>"
    by (auto simp: refreshTasks_def split: option.splits)
  have "set (tasks s1) \<subseteq> insert 0 ?K"
    using getProcessTree_sound[OF tree] empty_tree_tasks by (cases "finite (getAllTasks tree)") (auto simp: s1)
  moreover have "set (order (set (tasks s1) - set (tasks s))) = set (tasks s1) - set (tasks s)"
    using assms(3) by (simp add: iterates_def)
  moreover have "idle s2 \<and> pins_only {} p w1 w2" using terminated_loop_pins[OF t] assms(2) by (simp add: s1 idle_base)
  ultimately have "idle s' \<and> pins_only ?K p w2 w'" "pins_only ?K p w1 w2"
    using created_loop_pins[OF c, of ?K] by (auto intro: pins_only_mono)
  then show ?thesis using pins_only_trans[of ?K p w1 w2 w'] by (simp add: s1 pins_only_context)
qed

lemma polling_call_pins:
  assumes "polling_call env proc created terminated call (s, w) = Some (s', w')" and "idle s" and "iterates (sl_order env)"
  shows "idle s' \<and> pins_only (call_tasks env proc call) p w w'"
proof (cases call)
  case (Slot slot)
  with assms(1,2) show ?thesis
    using created_pins_task terminated_pins
    by (cases slot) (auto simp: call_tasks_def slot_watchdogReady_def idle_base split: if_splits)
next
  case Poll
  with assms timer_pins show ?thesis by (fastforce simp: call_tasks_def split: if_splits)
qed (use assms in auto)

end

subsubsection \<open>Compact and scatter\<close>

text \<open>A strategy that places one task at a time, over its contract.\<close>

context placing_strategy
begin

lemma change_pins:
  assumes "op_pid proc = p" and "changePinning getPinning aff proc (s, w) = Some (s', w')"
  shows "pins_only ({placing s} - {0}) p w w'"
proof (cases "placing s = 0")
  case True
  from idle[OF this, of "pinning w"] assms(2) show ?thesis by (auto simp: changePinning_def change_loop_same)
next
  case False
  from change_effect_cases[OF assms] change_leaves_others[OF assms] False show ?thesis
    by (auto simp: pins_only_def leaves_others_def pin_simps)
qed

lemma created_change_pins:
  assumes "op_pid proc = p" and "slot_TaskCreated getPinning aff proc t (s, w) = Some (s', w')"
  shows "pins_only ({placing s} - {0}) p w w'"
  using change_pins[OF assms(1), of aff "s\<lparr>tasks := tasks s @ [t]\<rparr>" w s' w'] assms(2)
  by (simp add: slot_TaskCreated_def placing_tasks)

lemma terminated_change_pins:
  assumes "op_pid proc = p" and "placing s = 0" and "slot_TaskTerminated getPinning aff proc t (s, w) = Some (s', w')"
  shows "s' = s\<lparr>tasks := remove1 t (tasks s)\<rparr> \<and> pins_only {} p w w'"
  using terminated_eq[OF assms(1,2), of aff t w] assms(3) leaves_others_clear[of p w t]
  by (auto simp: pins_only_def leaves_others_def)

end

interpretation compact_pins: pinning_slots "compact_slot_TaskCreated ci aff proc"
  "slot_TaskTerminated (compact_getPinning ci proc) aff proc" "\<lambda>s. compact.new_task_tid s = 0" "op_pid proc"
  for ci aff proc
proof
  fix t :: int and s s' :: compact and w w' :: world
  assume "compact_slot_TaskCreated ci aff proc t (s, w) = Some (s', w')"
  then obtain s1 where c: "slot_TaskCreated (compact_getPinning ci proc) aff proc t (s\<lparr>compact.new_task_tid := t\<rparr>, w) = Some (s1, w')"
    and s': "s' = s1\<lparr>compact.new_task_tid := 0\<rparr>" by (auto simp: compact_slot_TaskCreated_def)
  from compact.created_change_pins[OF refl c] s' show "compact.new_task_tid s' = 0 \<and> pins_only ({t} - {0}) (op_pid proc) w w'" by simp
next
  fix t :: int and s s' :: compact and w w' :: world
  assume "slot_TaskTerminated (compact_getPinning ci proc) aff proc t (s, w) = Some (s', w')" "compact.new_task_tid s = 0"
  then show "compact.new_task_tid s' = 0 \<and> pins_only {} (op_pid proc) w w'"
    using compact.terminated_change_pins[OF refl] by fastforce
qed simp_all

interpretation scatter_pins: pinning_slots "scatter_slot_TaskCreated srt ci aff proc"
  "scatter_slot_TaskTerminated srt ci aff proc" "\<lambda>s. scatter.new_task_tid s = 0" "op_pid proc"
  for srt ci aff proc
proof
  fix t :: int and s s' :: scatter and w w' :: world
  assume "scatter_slot_TaskCreated srt ci aff proc t (s, w) = Some (s', w')"
  then obtain s1 where c: "slot_TaskCreated (scatter_getPinning srt ci proc) aff proc t (s\<lparr>scatter.new_task_tid := t\<rparr>, w) = Some (s1, w')"
    and s': "s' = s1\<lparr>scatter.new_task_tid := 0\<rparr>" by (auto simp: scatter_slot_TaskCreated_def)
  from scatter.created_change_pins[OF refl c] s' show "scatter.new_task_tid s' = 0 \<and> pins_only ({t} - {0}) (op_pid proc) w w'" by simp
next
  fix t :: int and s s' :: scatter and w w' :: world
  assume t: "scatter_slot_TaskTerminated srt ci aff proc t (s, w) = Some (s', w')" and "scatter.new_task_tid s = 0"
  from t obtain counts where c: "slot_TaskTerminated (scatter_getPinning srt ci proc) aff proc t (s\<lparr>pinCount := counts\<rparr>, w) = Some (s', w')"
    by (auto simp: scatter_slot_TaskTerminated_def Let_def split: option.splits)
  with scatter.terminated_change_pins[OF refl _ c] \<open>scatter.new_task_tid s = 0\<close>
  show "scatter.new_task_tid s' = 0 \<and> pins_only {} (op_pid proc) w w'" by simp
qed simp_all

subsubsection \<open>Noop\<close>

lemma each_shared_pins: "each_shared f (s, w) = (s', w') \<Longrightarrow> pinning w' = pinning w \<and> affinity_calls w' = affinity_calls w"
  by (auto simp: each_shared_def split: prod.splits)

interpretation noop_pins: pinning_slots "noop_created env aff proc" "noop_terminated env aff proc" "\<lambda>_. True" "op_pid proc"
  for env aff proc
proof
  fix t :: int and s s' :: noop and w w' :: world
  assume "noop_created env aff proc t (s, w) = Some (s', w')"
  then show "True \<and> pins_only ({t} - {0}) (op_pid proc) w w'"
    by (auto simp: noop_created_def base_created pins_only_def dest: each_shared_pins)
next
  fix t :: int and s s' :: noop and w w' :: world
  assume "noop_terminated env aff proc t (s, w) = Some (s', w')"
  then obtain s1 w1 where t: "slot_TaskTerminated base_getPinning aff proc t (s, w) = Some (s1, w1)"
    and "each_shared (any_clear env t) (s1, w1) = (s', w')" by (auto simp: noop_terminated_def)
  with base.terminated_change_pins[OF refl refl t] show "True \<and> pins_only {} (op_pid proc) w w'"
    by (auto simp: pins_only_def dest!: each_shared_pins)
qed simp_all

subsubsection \<open>Autopin1\<close>

text \<open>
  When the walk over \<open>/proc\<close> fails, the tasks are those of \<open>ProcessTree::empty\<close>, which is the tree of process 0: autopin1 then
  calls \<open>sched_setaffinity\<close> for 0, the calling thread.
\<close>

definition own_thread :: "observed_process \<Rightarrow> world \<Rightarrow> int set" where
  "own_thread proc w = (if running proc \<and> \<not> isError (runtime w) then {} else {0})"

lemma eligible_subset: "set (eligible s j ts) \<subseteq> set ts"
  by (auto simp: eligible_def dest: set_zip_rightD)

lemma applyPinning_pins:
  assumes "applyPinning env cpus (s, w) = (s', w')"
  shows "pins_only (set (tasks s)) p w w' \<and> runtime w' = runtime w"
proof -
  obtain w1 where "apply_loop env 0 cpus (tasks s) (s, w) = (s', w1)"
    "affinity_calls w1 = affinity_calls w @ zip (eligible s 0 (tasks s)) cpus" "pinning w1 = pinning w" "runtime w1 = runtime w"
    using apply_loop_eq[of env 0 cpus "tasks s" s w] assms by (auto simp: applyPinning_def)
  moreover have "fst ` set (zip (eligible s 0 (tasks s)) cpus) \<subseteq> set (tasks s)"
    using eligible_subset[of s 0 "tasks s"] by (auto dest: set_zip_leftD)
  ultimately show ?thesis using assms by (auto simp: applyPinning_def pins_only_def)
qed

lemma refreshTasks_live:
  assumes "refreshTasks qt fs fuel proc (s, w) = Some (s', w')"
  shows "set (tasks s') \<subseteq> live_tasks qt fs (op_pid proc) \<union> own_thread proc w' \<and> pinning w' = pinning w \<and>
    affinity_calls w' = affinity_calls w"
proof -
  from assms obtain tree c where tree: "getProcessTree qt fs fuel proc (runtime w) = Some (tree, c)"
    and s': "s' = s\<lparr>tasks := sorted_list_of_set (getAllTasks tree)\<rparr>" "w' = w\<lparr>runtime := c\<rparr>"
    by (auto simp: refreshTasks_def split: option.splits)
  have "set (tasks s') \<subseteq> getAllTasks tree" by (cases "finite (getAllTasks tree)") (auto simp: s')
  with getProcessTree_sound[OF tree] empty_tree_tasks show ?thesis by (auto simp: s' own_thread_def split: if_splits)
qed

lemma refresh_apply_pins:
  assumes "refreshTasks qt fs fuel proc (s, w) = Some (s1, w1)" and "tasks s2 = tasks s1" and "applyPinning env cpus (s2, w1) = (s', w')"
  shows "pins_only (live_tasks qt fs (op_pid proc) \<union> own_thread proc w') p w w'"
proof -
  have r: "runtime w' = runtime w1" and a: "pins_only (set (tasks s1)) p w1 w'"
    using applyPinning_pins[OF assms(3)] assms(2) by simp_all
  have "pins_only (set (tasks s1)) p w w'"
    using a refreshTasks_live[OF assms(1)] by (simp add: pins_only_def)
  moreover have "own_thread proc w1 = own_thread proc w'" by (simp add: own_thread_def r)
  ultimately show ?thesis using refreshTasks_live[OF assms(1)] by (metis pins_only_mono)
qed

lemma startPinning_pins:
  assumes "slot_startPinning env proc (s, w, m) = Some (s', w', m')"
  shows "pins_only (live_tasks (a_qt env) (a_fs env) (op_pid proc) \<union> own_thread proc w') p w w'"
proof -
  from assms obtain s1 w1 cpus s2 where r: "refreshTasks (a_qt env) (a_fs env) (a_fuel env) proc (s, w) = Some (s1, w1)"
    and a: "applyPinning env cpus (s1\<lparr>notifications := True\<rparr>, w1) = (s2, w')"
    by (auto simp: slot_startPinning_def bind_eq_Some_conv Let_def split_beta) (metis prod.collapse)
  show ?thesis using refresh_apply_pins[OF r _ a] by simp
qed

text \<open>The monitors change the context only.\<close>

definition same_pins :: "world \<Rightarrow> world \<Rightarrow> bool" where
  "same_pins w w' \<longleftrightarrow> pinning w' = pinning w \<and> affinity_calls w' = affinity_calls w"

lemma same_pins_pins: "same_pins w w' \<Longrightarrow> pins_only K p w w'"
  by (simp add: same_pins_def pins_only_def)

lemma run_monitor_same: "run_monitor f (w, m) = (w', m') \<Longrightarrow> same_pins w w'"
  by (auto simp: run_monitor_def same_pins_def split: prod.splits)

lemma ask_monitor_same: "ask_monitor f (w, m) = (v, w', m') \<Longrightarrow> same_pins w w'"
  by (auto simp: ask_monitor_def same_pins_def split: prod.splits)

lemma drop_terminated_same: "drop_terminated ops A ts (w, m) = (ts', w', m') \<Longrightarrow> same_pins w w'"
proof (induction ts arbitrary: w m ts')
  case Nil
  then show ?case by (simp add: same_pins_def)
next
  case (Cons t ts)
  show ?case
  proof (cases "pt_tid t \<in> A")
    case True
    with Cons show ?thesis by (auto split: prod.splits)
  next
    case False
    obtain w1 m1 where 1: "run_monitor (op_clear ops (pt_tid t)) (w, m) = (w1, m1)" by fastforce
    with False Cons.prems have "same_pins w1 w'" by (auto intro: Cons.IH)
    with run_monitor_same[OF 1] show ?thesis by (simp add: same_pins_def)
  qed
qed

lemma check_same: "checkPinnedTasks env ops proc (s, w, m) = Some (s', w', m') \<Longrightarrow> same_pins w w'"
  by (auto simp: checkPinnedTasks_def Let_def bind_eq_Some_conv same_pins_def wreport_def split: if_splits prod.splits
      dest!: drop_terminated_same)

lemma start_loop_same: "start_loop env ops ts (s, w, m) = (ts', s', w', m') \<Longrightarrow> same_pins w w'"
proof (induction ts arbitrary: s w m ts')
  case Nil
  then show ?case by (simp add: same_pins_def)
next
  case (Cons t ts)
  obtain w1 m1 where 1: "run_monitor (op_start ops (pt_tid t)) (w, m) = (w1, m1)" by fastforce
  with Cons.prems have "same_pins w1 w'" by (auto simp: Let_def split: prod.splits intro: Cons.IH)
  with run_monitor_same[OF 1] show ?case by (simp add: same_pins_def)
qed

lemma stop_loop_same: "stop_loop env ops ts r (s, w, m) = (ts', r', s', w', m') \<Longrightarrow> same_pins w w'"
proof (induction ts arbitrary: s w m r ts' r')
  case Nil
  then show ?case by (simp add: same_pins_def)
next
  case (Cons t ts)
  obtain v w1 m1 where 1: "ask_monitor (op_stop ops (pt_tid t)) (w, m) = (v, w1, m1)" by (metis prod_cases3)
  from Cons.prems 1 have "same_pins w1 w' \<or> same_pins w w'"
    by (cases "pt_stop t = -1") (auto simp: Let_def elapsed_def split: prod.splits dest: Cons.IH)
  with ask_monitor_same[OF 1] show ?case by (auto simp: same_pins_def)
qed

lemma measure_same:
  assumes "measure_pinning env ops proc (s, w, m) = Some (r, s', w', m')"
  shows "same_pins w w'"
proof -
  obtain s1 w1 m1 where c: "checkPinnedTasks env ops proc (s\<lparr>notifications := False\<rparr>, w, m) = Some (s1, w1, m1)"
    using assms by (auto simp: measure_pinning_def bind_eq_Some_conv)
  obtain ts sum s2 w2 m2 where l: "stop_loop env ops (pinned_tasks s1) (Fin 0) (s1, w1, m1) = (ts, sum, s2, w2, m2)"
    by (metis prod.collapse)
  with assms c have "w' = w2" by (auto simp: measure_pinning_def split: if_splits)
  with check_same[OF c] stop_loop_same[OF l] show ?thesis by (simp add: same_pins_def)
qed

lemma startMonitor_same:
  assumes "slot_startMonitor env ops proc (s, w, m) = Some (s', w', m')"
  shows "same_pins w w'"
proof -
  obtain s1 w1 m1 where c: "checkPinnedTasks env ops proc (s, w, m) = Some (s1, w1, m1)"
    using assms by (auto simp: slot_startMonitor_def bind_eq_Some_conv)
  obtain ts s2 w2 m2 where l: "start_loop env ops (pinned_tasks s1) (s1, w1, m1) = (ts, s2, w2, m2)" by (metis prod.collapse)
  with assms c have "w' = w2" by (auto simp: slot_startMonitor_def split: if_splits)
  with check_same[OF c] start_loop_same[OF l] show ?thesis by (simp add: same_pins_def)
qed

lemma stopPinning_pins:
  assumes "slot_stopPinning env ops proc (s, w, m) = Some (s', w', m')"
  shows "pins_only (live_tasks (a_qt env) (a_fs env) (op_pid proc) \<union> own_thread proc w') p w w'"
proof -
  obtain r s1 w1 m1 where meas: "measure_pinning env ops proc (s, w, m) = Some (r, s1, w1, m1)"
    using assms by (auto simp: slot_stopPinning_def bind_eq_Some_conv)
  note same = same_pins_pins[OF measure_same[OF meas]]
  have "same_pins w1 w' \<or> (\<exists>s2 s3 w3 cpus s4. refreshTasks (a_qt env) (a_fs env) (a_fuel env) proc (s2, w1) = Some (s3, w3) \<and>
      applyPinning env cpus (s3, w3) = (s4, w'))"
    using assms meas
    by (auto simp: slot_stopPinning_def bind_eq_Some_conv Let_def split_beta same_pins_def wreport_def split: option.splits if_splits)
      (metis prod.collapse)+
  then show ?thesis
  proof (elim disjE exE conjE)
    assume "same_pins w1 w'"
    with same show ?thesis by (blast intro: pins_only_trans same_pins_pins)
  next
    fix s2 s3 w3 cpus s4
    assume "refreshTasks (a_qt env) (a_fs env) (a_fuel env) proc (s2, w1) = Some (s3, w3)" "applyPinning env cpus (s3, w3) = (s4, w')"
    with same show ?thesis by (blast intro: pins_only_trans refresh_apply_pins)
  qed
qed

lemma a1_created_pins:
  assumes "a1_slot_TaskCreated env ops t (s, w, m) = Some (s', w', m')"
  shows "pins_only {t} p w w'"
proof -
  have "pins_only {t} p w w1" if "pin_new_task env ops t cpus (s, w, m) = Some (s1, w1, m1)" for cpus s1 w1 m1
    using that
    by (auto simp: pin_new_task_def Let_def split_beta setAffinity_def run_monitor_def pins_only_def split: if_splits)
  with assms show ?thesis by (auto simp: a1_slot_TaskCreated_def bind_eq_Some_conv split: if_splits)
qed

lemma a1_terminated_pins: "a1_slot_TaskTerminated env ops t (s, w, m) = Some (s', w', m') \<Longrightarrow> same_pins w w'"
  by (auto simp: a1_slot_TaskTerminated_def Let_def split_beta ask_monitor_def same_pins_def split: if_splits)

lemma autopin1_call_pins:
  assumes "autopin1_call env proc call (s, w, m) = Some (s', w', m')"
  shows "pins_only (call_tasks env proc call \<union> own_thread proc w') p w w'"
proof (cases call)
  case (Slot slot)
  with assms show ?thesis
    by (cases slot) (auto simp: call_tasks_def intro: same_pins_pins a1_terminated_pins pins_only_mono[OF a1_created_pins])
qed (use assms in \<open>auto simp: call_tasks_def split: if_splits intro: startPinning_pins stopPinning_pins same_pins_pins startMonitor_same\<close>)

subsection \<open>Every strategy\<close>

fun any_idle :: "any_strategy \<Rightarrow> bool" where \<comment> \<open>not in the middle of placing a task\<close>
  "any_idle (Compact_strategy s) \<longleftrightarrow> compact.new_task_tid s = 0"
| "any_idle (Scatter_strategy s) \<longleftrightarrow> scatter.new_task_tid s = 0"
| "any_idle _ \<longleftrightarrow> True"

fun is_autopin1 :: "any_strategy \<Rightarrow> bool" where
  "is_autopin1 (Autopin1_strategy s) \<longleftrightarrow> True"
| "is_autopin1 _ \<longleftrightarrow> False"

lemma strategy_step_pins:
  assumes "strategy_step env proc call (a, ms, st, w) = Some (a', ms', st', w')" and "any_idle a" and "iterates (sl_order env)"
  shows "any_idle a' \<and> (is_autopin1 a' \<longleftrightarrow> is_autopin1 a) \<and>
    pins_only (call_tasks env proc call \<union> (if is_autopin1 a then own_thread proc w' else {})) (op_pid proc) w w'"
proof (cases a)
  case (Compact_strategy s)
  with assms compact_pins.polling_call_pins show ?thesis by fastforce
next
  case (Scatter_strategy s)
  with assms scatter_pins.polling_call_pins show ?thesis by fastforce
next
  case (Noop_strategy s)
  with assms noop_pins.polling_call_pins show ?thesis by fastforce
next
  case (Autopin1_strategy s)
  with assms autopin1_call_pins show ?thesis by fastforce
qed

subsection \<open>Several watchdogs\<close>

record watched =
  wt_process :: observed_process
  wt_strategy :: any_strategy
  wt_monitors :: "any_monitor list"
  wt_context :: apcontext

record machine =
  mc_pinning :: Pinning
  mc_calls :: affinity_calls
  mc_static :: clust_static
  mc_watched :: "watched list"

type_synonym machine_event = "nat \<times> slot_env \<times> strategy_call"

definition machine_step :: "machine_event \<Rightarrow> machine \<Rightarrow> machine option" where
  "machine_step = (\<lambda>(k, env, call) mc.
     (if k < length (mc_watched mc) then
        let d = mc_watched mc ! k in
        map_option (\<lambda>(a, ms, st, w). mc\<lparr>mc_pinning := pinning w, mc_calls := affinity_calls w, mc_static := st,
            mc_watched := (mc_watched mc)[k := d\<lparr>wt_strategy := a, wt_monitors := ms, wt_context := runtime w\<rparr>]\<rparr>)
          (strategy_step env (wt_process d) call (wt_strategy d, wt_monitors d, mc_static mc,
             \<lparr>pinning = mc_pinning mc, affinity_calls = mc_calls mc, runtime = wt_context d\<rparr>))
      else Some mc))"

fun machine_run :: "machine_event list \<Rightarrow> machine \<Rightarrow> machine option" where
  "machine_run [] mc = Some mc"
| "machine_run (e # es) mc = (case machine_step e mc of None \<Rightarrow> None | Some mc \<Rightarrow> machine_run es mc)"

text \<open>The threads that the k-th watchdog may pin when it handles a call.\<close>

definition event_tasks :: "machine \<Rightarrow> machine_event \<Rightarrow> int set" where
  "event_tasks mc = (\<lambda>(k, env, call).
     (if k < length (mc_watched mc) then
        call_tasks env (wt_process (mc_watched mc ! k)) call \<union> (if is_autopin1 (wt_strategy (mc_watched mc ! k)) then {0} else {})
      else {}))"

text \<open>What a run does: the members stay who they are, the calls are for these threads, and only a process itself gives up its CPUs.\<close>

definition machine_keeps :: "machine_event list \<Rightarrow> machine \<Rightarrow> machine \<Rightarrow> bool" where
  "machine_keeps es mc mc' \<longleftrightarrow>
     map (\<lambda>d. (wt_process d, is_autopin1 (wt_strategy d))) (mc_watched mc') =
       map (\<lambda>d. (wt_process d, is_autopin1 (wt_strategy d))) (mc_watched mc) \<and>
     (\<exists>cs. mc_calls mc' = mc_calls mc @ cs \<and> fst ` set cs \<subseteq> \<Union>(event_tasks mc ` set es)) \<and>
     length (mc_pinning mc') = length (mc_pinning mc) \<and>
     (\<forall>i<length (mc_pinning mc). mc_pinning mc ! i \<noteq> emptyTask \<and>
        (\<forall>(k, env, call)\<in>set es. k < length (mc_watched mc) \<longrightarrow> op_pid (wt_process (mc_watched mc ! k)) \<noteq> t_pid (mc_pinning mc ! i))
        \<longrightarrow> mc_pinning mc' ! i = mc_pinning mc ! i)"

definition machine_idle :: "machine \<Rightarrow> bool" where
  "machine_idle mc \<longleftrightarrow> (\<forall>d\<in>set (mc_watched mc). any_idle (wt_strategy d))"

lemma machine_step_keeps:
  assumes "machine_step e mc = Some mc'" and "machine_idle mc" and "iterates (sl_order (fst (snd e)))"
  shows "machine_idle mc' \<and> machine_keeps [e] mc mc'"
proof -
  obtain k env call where e: "e = (k, env, call)" by (metis prod_cases3)
  show ?thesis
  proof (cases "k < length (mc_watched mc)")
    case False
    with assms e show ?thesis by (auto simp: machine_step_def machine_keeps_def)
  next
    case True
    let ?d = "mc_watched mc ! k"
    let ?w = "\<lparr>pinning = mc_pinning mc, affinity_calls = mc_calls mc, runtime = wt_context ?d\<rparr>"
    from assms(1) True obtain a ms st w where
      step: "strategy_step env (wt_process ?d) call (wt_strategy ?d, wt_monitors ?d, mc_static mc, ?w) = Some (a, ms, st, w)"
      and mc': "mc' = mc\<lparr>mc_pinning := pinning w, mc_calls := affinity_calls w, mc_static := st,
        mc_watched := (mc_watched mc)[k := ?d\<lparr>wt_strategy := a, wt_monitors := ms, wt_context := runtime w\<rparr>]\<rparr>"
      by (auto simp: machine_step_def e Let_def)
    have "any_idle (wt_strategy ?d)" using assms(2) True by (simp add: machine_idle_def)
    from strategy_step_pins[OF step this] assms(3) have
      a: "any_idle a" "is_autopin1 a = is_autopin1 (wt_strategy ?d)"
      and p: "pins_only (call_tasks env (wt_process ?d) call \<union> (if is_autopin1 (wt_strategy ?d) then own_thread (wt_process ?d) w else {}))
        (op_pid (wt_process ?d)) ?w w" by (simp_all add: e)
    have "machine_idle mc'"
      using assms(2) a(1) by (auto simp: machine_idle_def mc' dest!: set_update_subset_insert[THEN subsetD])
    moreover have "map (\<lambda>d. (wt_process d, is_autopin1 (wt_strategy d))) (mc_watched mc') =
        map (\<lambda>d. (wt_process d, is_autopin1 (wt_strategy d))) (mc_watched mc)"
      using a(2) True by (auto simp: mc' intro!: nth_equalityI simp: nth_list_update)
    moreover have "call_tasks env (wt_process ?d) call \<union> (if is_autopin1 (wt_strategy ?d) then own_thread (wt_process ?d) w else {})
        \<subseteq> event_tasks mc e" using True by (auto simp: event_tasks_def e own_thread_def split: if_splits)
    ultimately show ?thesis
      using pins_only_mono[OF p] True by (auto simp: machine_keeps_def pins_only_def mc' e foreign_def)
  qed
qed

lemma machine_keeps_members:
  assumes "machine_keeps es mc mc'"
  shows "length (mc_watched mc') = length (mc_watched mc)"
    and "k < length (mc_watched mc) \<Longrightarrow> wt_process (mc_watched mc' ! k) = wt_process (mc_watched mc ! k) \<and>
      is_autopin1 (wt_strategy (mc_watched mc' ! k)) = is_autopin1 (wt_strategy (mc_watched mc ! k))"
proof -
  have m: "map (\<lambda>d. (wt_process d, is_autopin1 (wt_strategy d))) (mc_watched mc') =
      map (\<lambda>d. (wt_process d, is_autopin1 (wt_strategy d))) (mc_watched mc)" using assms by (simp add: machine_keeps_def)
  then show l: "length (mc_watched mc') = length (mc_watched mc)" by (rule map_eq_imp_length_eq)
  assume "k < length (mc_watched mc)"
  with arg_cong[OF m, of "\<lambda>xs. xs ! k"] l show "wt_process (mc_watched mc' ! k) = wt_process (mc_watched mc ! k) \<and>
      is_autopin1 (wt_strategy (mc_watched mc' ! k)) = is_autopin1 (wt_strategy (mc_watched mc ! k))" by simp
qed

lemma machine_keeps_trans:
  assumes "machine_keeps es mc mc1" and "machine_keeps fs mc1 mc2"
  shows "machine_keeps (es @ fs) mc mc2"
proof -
  note k = machine_keeps_members[OF assms(1)]
  have "event_tasks mc1 e = event_tasks mc e" for e
    using k by (auto simp: event_tasks_def split: prod.splits)
  then have same: "event_tasks mc1 = event_tasks mc" by (rule ext)
  obtain cs cs1 where "mc_calls mc1 = mc_calls mc @ cs" "mc_calls mc2 = mc_calls mc1 @ cs1"
    "fst ` set cs \<subseteq> \<Union>(event_tasks mc ` set es)" "fst ` set cs1 \<subseteq> \<Union>(event_tasks mc ` set fs)"
    using assms unfolding machine_keeps_def same by blast
  then have calls: "\<exists>cs. mc_calls mc2 = mc_calls mc @ cs \<and> fst ` set cs \<subseteq> \<Union>(event_tasks mc ` set (es @ fs))"
    by (intro exI[of _ "cs @ cs1"]) (simp add: image_Un le_supI1 le_supI2)
  have "mc_pinning mc2 ! i = mc_pinning mc ! i"
    if "i < length (mc_pinning mc)" "mc_pinning mc ! i \<noteq> emptyTask"
      "\<forall>(k, env, call)\<in>set (es @ fs). k < length (mc_watched mc) \<longrightarrow> op_pid (wt_process (mc_watched mc ! k)) \<noteq> t_pid (mc_pinning mc ! i)" for i
  proof -
    have 1: "mc_pinning mc1 ! i = mc_pinning mc ! i" using assms(1) that by (simp add: machine_keeps_def)
    have "i < length (mc_pinning mc1)" using assms(1) that(1) by (simp add: machine_keeps_def)
    with assms(2) that(2,3) 1 k show ?thesis by (fastforce simp: machine_keeps_def)
  qed
  with calls assms show ?thesis by (simp add: machine_keeps_def)
qed

lemma machine_run_keeps:
  assumes "machine_run es mc = Some mc'" and "machine_idle mc" and "\<forall>(k, env, call)\<in>set es. iterates (sl_order env)"
  shows "machine_idle mc' \<and> machine_keeps es mc mc'"
  using assms
proof (induction es arbitrary: mc)
  case Nil
  then show ?case by (simp add: machine_keeps_def)
next
  case (Cons e es)
  then obtain mc1 where 1: "machine_step e mc = Some mc1" "machine_run es mc1 = Some mc'" by (auto split: option.splits)
  have "machine_idle mc1 \<and> machine_keeps [e] mc mc1" using machine_step_keeps[OF 1(1)] Cons.prems(2,3) by (cases e) auto
  with Cons.IH[OF 1(2)] Cons.prems(3) machine_keeps_trans[of "[e]" mc mc1 es mc'] show ?case by simp
qed

text \<open>
  C4. Autopin+ pins only the threads of the processes it watches. On a machine with any number of watchdogs, of any strategies
  and with any monitors, and for every interleaving of their slots and timeouts: each call of \<open>sched_setaffinity\<close> is for a
  thread that was announced to the watchdog that made it, or that \<open>/proc\<close> had as a thread of its process or of one
  of its descendants when the watchdog looked, with the one exception of autopin1, which may pin thread 0, that is itself;
  a taken CPU of the shared pinning keeps its task unless a watchdog of the same process acts; and
  the strategies are never left in the middle of placing a task.
\<close>

theorem machine_pins_only_watched:
  assumes "machine_run es mc = Some mc'" and "machine_idle mc" and "\<forall>(k, env, call)\<in>set es. iterates (sl_order env)"
  shows "machine_idle mc' \<and>
    (\<exists>cs. mc_calls mc' = mc_calls mc @ cs \<and> (\<forall>(t, cpu)\<in>set cs. \<exists>(k, env, call)\<in>set es. k < length (mc_watched mc) \<and>
       (t \<in> call_tasks env (wt_process (mc_watched mc ! k)) call \<or> t = 0 \<and> is_autopin1 (wt_strategy (mc_watched mc ! k))))) \<and>
    length (mc_pinning mc') = length (mc_pinning mc) \<and>
    (\<forall>i<length (mc_pinning mc). mc_pinning mc ! i \<noteq> emptyTask \<and>
       (\<forall>(k, env, call)\<in>set es. k < length (mc_watched mc) \<longrightarrow> op_pid (wt_process (mc_watched mc ! k)) \<noteq> t_pid (mc_pinning mc ! i))
       \<longrightarrow> mc_pinning mc' ! i = mc_pinning mc ! i)"
proof -
  from machine_run_keeps[OF assms] have idle: "machine_idle mc'" and keeps: "machine_keeps es mc mc'" by simp_all
  then obtain cs where cs: "mc_calls mc' = mc_calls mc @ cs" "fst ` set cs \<subseteq> \<Union>(event_tasks mc ` set es)"
    by (auto simp: machine_keeps_def)
  have "\<exists>(k, env, call)\<in>set es. k < length (mc_watched mc) \<and>
      (t \<in> call_tasks env (wt_process (mc_watched mc ! k)) call \<or> t = 0 \<and> is_autopin1 (wt_strategy (mc_watched mc ! k)))"
    if "(t, cpu) \<in> set cs" for t cpu
  proof -
    from that cs(2) obtain e where e: "e \<in> set es" "t \<in> event_tasks mc e" by force
    obtain k env call where "e = (k, env, call)" by (metis prod_cases3)
    with e show ?thesis by (intro bexI[of _ e]) (auto simp: event_tasks_def split: if_splits)
  qed
  with cs(1) have "\<exists>cs. mc_calls mc' = mc_calls mc @ cs \<and> (\<forall>(t, cpu)\<in>set cs. \<exists>(k, env, call)\<in>set es. k < length (mc_watched mc) \<and>
       (t \<in> call_tasks env (wt_process (mc_watched mc ! k)) call \<or> t = 0 \<and> is_autopin1 (wt_strategy (mc_watched mc ! k))))" by blast
  with idle keeps show ?thesis unfolding machine_keeps_def by blast
qed

text \<open>Process 7 is watched with compact and polled; process 5, with noop, has a CPU.\<close>

definition demo_slot_env :: slot_env where
  "demo_slot_env = \<lparr>sl_topology = two_cpus, sl_sort = isort, sl_order = sorted_list_of_set, sl_monitors = demo_mon_env, sl_a1 = demo_env\<rparr>"

definition demo_machine :: machine where
  "demo_machine = \<lparr>mc_pinning = [\<lparr>t_pid = 5, t_tid = 5\<rparr>, emptyTask], mc_calls = [], mc_static = clust_static_new,
     mc_watched = [\<lparr>wt_process = demo_op, wt_strategy = Compact_strategy compact_new, wt_monitors = [], wt_context = AutopinContext_new ''a''\<rparr>,
       \<lparr>wt_process = demo_op\<lparr>op_pid := 5\<rparr>, wt_strategy = Noop_strategy ControlStrategy_new,
         wt_monitors = [Random_monitor (random_new ''r'')], wt_context = AutopinContext_new ''b''\<rparr>]\<rparr>"

abbreviation demo_polled :: "compact \<times> world" where
  "demo_polled \<equiv> (compact_new\<lparr>tasks := [7, 8, 9, 7, 8, 9], timer_interval := Some 100\<rparr>,
     \<lparr>pinning = [\<lparr>t_pid = 5, t_tid = 5\<rparr>, \<lparr>t_pid = 7, t_tid = 7\<rparr>], affinity_calls = [(7, 1)], runtime = AutopinContext_new ''a''\<rparr>)"

lemma demo_poll:
  "polling_call demo_slot_env demo_op (compact_slot_TaskCreated two_cpus (\<lambda>_ _ _. 0) demo_op)
     (slot_TaskTerminated (compact_getPinning two_cpus demo_op) (\<lambda>_ _ _. 0) demo_op) Poll
     (compact_new\<lparr>timer_interval := Some 100\<rparr>,
      \<lparr>pinning = [\<lparr>t_pid = 5, t_tid = 5\<rparr>, emptyTask], affinity_calls = [], runtime = AutopinContext_new ''a''\<rparr>) = Some demo_polled"
  by code_simp

lemma demo_ready: "slot_watchdogReady demo_op compact_new = compact_new\<lparr>timer_interval := Some 100\<rparr>"
  by code_simp

lemma demo_slot_env_simps:
  "sl_topology demo_slot_env = two_cpus" "a_aff (sl_a1 demo_slot_env) = (\<lambda>_ _ _. 0)" "sl_order demo_slot_env = sorted_list_of_set"
  by (simp_all add: demo_slot_env_def demo_env_def)

lemma demo_machine_run:
  "\<exists>mc. machine_run [(0, demo_slot_env, Slot Strategy_watchdogReady), (0, demo_slot_env, Poll)] demo_machine = Some mc \<and>
     mc_calls mc = [(7, 1)]"
  by (simp add: machine_step_def demo_machine_def demo_ready demo_poll demo_slot_env_simps del: polling_call.simps(4))

theorem machine_pins_only_watched_witness:
  "\<exists>mc. machine_run [(0, demo_slot_env, Slot Strategy_watchdogReady), (0, demo_slot_env, Poll)] demo_machine = Some mc \<and>
     mc_calls mc = [(7, 1)] \<and> 7 \<in> live_tasks demo_conv demo_fs 7 \<and> mc_pinning mc ! 0 = \<lparr>t_pid = 5, t_tid = 5\<rparr>"
proof -
  let ?es = "[(0, demo_slot_env, Slot Strategy_watchdogReady), (0, demo_slot_env, Poll)]"
  obtain mc where mc: "machine_run ?es demo_machine = Some mc" "mc_calls mc = [(7, 1)]" using demo_machine_run by blast
  have idle: "machine_idle demo_machine"
    by (simp add: machine_idle_def demo_machine_def compact_new_def strategy.defs)
  have order: "\<forall>(k, env, call)\<in>set ?es. iterates (sl_order env)" by (simp add: demo_slot_env_simps iterates_def)
  have fields: "mc_calls demo_machine = []" "mc_pinning demo_machine = [\<lparr>t_pid = 5, t_tid = 5\<rparr>, emptyTask]"
    "wt_process (mc_watched demo_machine ! 0) = demo_op" "wt_strategy (mc_watched demo_machine ! 0) = Compact_strategy compact_new"
    "op_pid demo_op = 7" "a_qt (sl_a1 demo_slot_env) = demo_conv" "a_fs (sl_a1 demo_slot_env) = demo_fs"
    by (simp_all add: demo_machine_def demo_op_def ObservedProcess_new_def demo_slot_env_def demo_env_def)
  note t = machine_pins_only_watched[OF mc(1) idle order, unfolded mc(2) fields]
  then have "7 \<in> live_tasks demo_conv demo_fs 7"
    by (simp add: fields call_tasks_def)
  moreover have "mc_pinning mc ! 0 = \<lparr>t_pid = 5, t_tid = 5\<rparr>"
    using t by (auto simp: fields emptyTask_def dest: spec[of _ 0])
  ultimately show ?thesis using mc by blast
qed

subsection \<open>When the walk fails\<close>

lemma failed_walk:
  assumes "\<not> running proc \<or> entryList fs ''/proc'' = None \<or> isError c"
  shows "\<exists>c'. getProcessTree qt fs fuel proc c = Some (ProcessTree_empty, c') \<and> (running proc \<longrightarrow> isError c')"
proof (cases "running proc")
  case False
  then show ?thesis by (simp add: getProcessTree_def)
next
  case True
  obtain c1 where c1: "getProcessThreads qt fs (op_pid proc) c = (threads_of qt fs (op_pid proc), c1)" "isError c1 \<longleftrightarrow> isError c"
    using getProcessThreads_pure by blast
  show ?thesis
  proof (cases "isError c")
    case True
    with \<open>running proc\<close> c1 show ?thesis by (simp add: getProcessTree_def)
  next
    case False
    with assms True have "isError (snd (getChildProcesses qt fs (op_pid proc) c1))"
      by (simp add: getChildProcesses_def fatal_def fatal_reports_def)
    with True c1 False show ?thesis by (simp add: getProcessTree_def split_beta)
  qed
qed

text \<open>
  C39. When the tasks cannot be determined, because the process does not run, \<open>/proc\<close> cannot be listed or there has been an error,
  autopin1 goes on all the same: it takes 0 for the only task and calls \<open>sched_setaffinity\<close> for it with the first CPU of the
  pinning to be tested, which binds autopin+ itself to that CPU.
\<close>

theorem autopin1_pins_itself:
  assumes "\<not> running proc \<or> entryList (a_fs env) ''/proc'' = None \<or> isError (runtime w)"
    and "vec_at (pinnings s) (current_pinning s) = Some (cpu # cpus)" and "0 \<notin> skip s"
  shows "\<exists>s' w'. slot_startPinning env proc (s, w, m) = Some (s', w', m) \<and> affinity_calls w' = affinity_calls w @ [(0, cpu)] \<and>
    tasks s' = [0] \<and> warmup_timer s' \<and> (running proc \<longrightarrow> isError (runtime w'))"
proof -
  obtain c where c: "getProcessTree (a_qt env) (a_fs env) (a_fuel env) proc (runtime w) = Some (ProcessTree_empty, c)"
    "running proc \<longrightarrow> isError c" using failed_walk[OF assms(1)] by blast
  let ?s = "s\<lparr>tasks := [0], notifications := True\<rparr>"
  obtain s1 w1 where a: "applyPinning env (cpu # cpus) (?s, w\<lparr>runtime := c\<rparr>) = (s1, w1)" by fastforce
  have "affinity_calls w1 = affinity_calls w @ [(0, cpu)]" "runtime w1 = c" "tasks s1 = [0]"
    using a assms(3) by (auto simp: applyPinning_def setAffinity_def split: if_splits)
  with a c assms(2) show ?thesis
    by (simp add: slot_startPinning_def refreshTasks_def empty_tree_tasks)
qed

theorem autopin1_pins_itself_witness:
  "\<exists>s' w'. slot_startPinning (demo_env\<lparr>a_fs := \<lparr>entryList = Map.empty, fileText = Map.empty\<rparr>\<rparr>) demo_op
      (demo_a1, \<lparr>pinning = [], affinity_calls = [], runtime = AutopinContext_new ''w''\<rparr>, ()) = Some (s', w', ()) \<and>
    affinity_calls w' = [(0, 0)]"
  using autopin1_pins_itself[of demo_op "demo_env\<lparr>a_fs := \<lparr>entryList = Map.empty, fileText = Map.empty\<rparr>\<rparr>"
      "\<lparr>pinning = [], affinity_calls = [], runtime = AutopinContext_new ''w''\<rparr>" demo_a1 0 "[1]" "()"]
  by (auto simp: demo_a1_def autopin1_new_def strategy.defs vec_at_def)

end
