(* ===== verification/Service.thy ===== *)
theory Service
  imports Tracing Lifetime Slots
begin

text \<open>
  From a configuration to a pinned process: a watchdog that has become ready has a strategy that knows no task and is not
  in a slot, which is where the theorems on tracing and polling start; and the announcement of its
  process, made while the process is started, reaches the strategy through the connections of the watchdog.
\<close>

subsection \<open>The strategy of a watchdog that is ready\<close>

fun any_fresh :: "any_strategy \<Rightarrow> bool" where
  "any_fresh (Autopin1_strategy s) \<longleftrightarrow> tasks s = []"
| "any_fresh (Noop_strategy s) \<longleftrightarrow> tasks s = []"
| "any_fresh (Compact_strategy s) \<longleftrightarrow> tasks s = [] \<and> compact.new_task_tid s = 0"
| "any_fresh (Scatter_strategy s) \<longleftrightarrow> tasks s = [] \<and> scatter.new_task_tid s = 0"

fun is_compact :: "any_strategy \<Rightarrow> bool" where
  "is_compact (Compact_strategy s) \<longleftrightarrow> True"
| "is_compact _ \<longleftrightarrow> False"

lemma created_strategy:
  assumes "createControlStrategy config c = (Some a, c')"
  shows "any_fresh a \<and> (is_compact a \<longleftrightarrow> getConfigOption config ''ControlStrategy'' 0 = ''compact'')"
  using assms
  by (auto simp: createControlStrategy_def Let_def autopin1_new_def compact_new_def scatter_new_def ControlStrategy_new_def
      strategy.defs split: if_splits)

lemma init_interval_frame:
  "init_interval qt config name (s, w) = (ok, s', w') \<Longrightarrow> tasks s' = tasks s \<and> strategy.more s' = strategy.more s \<and>
    pinning w' = pinning w \<and> affinity_calls w' = affinity_calls w"
  by (auto simp: init_interval_def wreport_def split: if_splits option.splits)

lemma init_strategy_frame:
  assumes "init_strategy env config types (a, w) = (a', w')" and "any_fresh a"
  shows "any_fresh a' \<and> (is_compact a' \<longleftrightarrow> is_compact a) \<and> affinity_calls w' = affinity_calls w \<and>
    pinning w' = (if pinning w = [] then replicate (wd_cpus env) emptyTask else pinning w)"
proof (cases a)
  case (Autopin1_strategy s)
  with assms show ?thesis by (auto simp: autopin1_init_def ControlStrategy_init_def Let_def split: prod.splits if_splits)
next
  case (Noop_strategy s)
  with assms show ?thesis
    by (auto simp: noop_init_def ControlStrategy_init_def init_interval_def wreport_def split: if_splits option.splits)
next
  case (Compact_strategy s)
  with assms show ?thesis
    by (auto simp: compact_init_def ControlStrategy_init_def init_interval_def wreport_def split: if_splits option.splits)
next
  case (Scatter_strategy s)
  with assms show ?thesis
    by (auto simp: scatter_init_def ControlStrategy_init_def init_interval_def wreport_def Let_def split: if_splits option.splits)
qed

lemma ready_run_phases:
  assumes "slot_watchdogRun env config counter w = Some (n, d, w')" and "wd_ready d"
  obtains c d0 c0 d1 w1 where "createComponents env config c = (d0, c0)" "initComponents env config (d0, w\<lparr>runtime := c0\<rparr>) = Some (d1, w1)"
    "startComponents env config (d1, w1) = Some (d, w')"
proof -
  obtain c d0 c0 where c: "createContext config counter = (c, counter + 1)" and d0: "createComponents env config c = (d0, c0)"
    by (metis createContext_def prod.collapse)
  have "\<not> wd_ready d0" using d0 by (auto simp: createComponents_def Let_def split: prod.splits)
  with assms c d0 obtain d1 w1 where d1: "initComponents env config (d0, w\<lparr>runtime := c0\<rparr>) = Some (d1, w1)"
    and rest: "if isError (runtime w1) then d = d1 else startComponents env config (d1, w1) = Some (d, w')"
    by (auto simp: slot_watchdogRun_def Let_def bind_eq_Some_conv split: if_splits)
  have "\<not> wd_ready d1" using initComponents_frame[OF d1] \<open>\<not> wd_ready d0\<close> by simp
  with rest assms(2) have "startComponents env config (d1, w1) = Some (d, w')" by (auto split: if_splits)
  with that d0 d1 show ?thesis by blast
qed

lemma ready_strategy:
  assumes "slot_watchdogRun env config counter w = Some (n, d, w')" and "wd_ready d"
  shows "\<exists>a. wd_strategy d = Some a \<and> any_fresh a \<and> (is_compact a \<longleftrightarrow> getConfigOption config ''ControlStrategy'' 0 = ''compact'') \<and>
    affinity_calls w' = affinity_calls w \<and> pinning w' = (if pinning w = [] then replicate (wd_cpus env) emptyTask else pinning w)"
proof -
  obtain c d0 c0 d1 w1 where d0: "createComponents env config c = (d0, c0)"
    and d1: "initComponents env config (d0, w\<lparr>runtime := c0\<rparr>) = Some (d1, w1)"
    and d: "startComponents env config (d1, w1) = Some (d, w')" using assms by (rule ready_run_phases)
  from d1 obtain a c1 types where a: "wd_strategy d0 = Some a"
    and i: "wd_strategy d1 = Some (fst (init_strategy env config types (a, w\<lparr>runtime := c1\<rparr>)))"
      "pinning w1 = pinning (snd (init_strategy env config types (a, w\<lparr>runtime := c1\<rparr>)))"
      "affinity_calls w1 = affinity_calls (snd (init_strategy env config types (a, w\<lparr>runtime := c1\<rparr>)))"
    by (auto simp: initComponents_def Let_def bind_eq_Some_conv split_beta)
  obtain a' w2 where s: "init_strategy env config types (a, w\<lparr>runtime := c1\<rparr>) = (a', w2)" by fastforce
  have "wd_strategy d = wd_strategy d1" "pinning w' = pinning w1" "affinity_calls w' = affinity_calls w1"
    using d by (auto simp: startComponents_def bind_eq_Some_conv)
  moreover obtain c2 c3 where "createControlStrategy config c2 = (Some a, c3)"
    using d0 a by (auto simp: createComponents_def Let_def split: prod.splits)
  ultimately show ?thesis using created_strategy init_strategy_frame[OF s] i s by fastforce
qed

text \<open>
  The machine of the watchdogs that are ready, each with the context it has then: this is where the theorem on what
  is pinned starts.
\<close>

definition watched_of :: "watchdog \<times> apcontext \<Rightarrow> watched list" where
  "watched_of = (\<lambda>(d, c).
     (case wd_strategy d of None \<Rightarrow> []
      | Some a \<Rightarrow> [\<lparr>wt_process = wd_process d, wt_strategy = a, wt_monitors = wd_monitors d, wt_context = c\<rparr>]))"

definition machine_of :: "world \<Rightarrow> clust_static \<Rightarrow> (watchdog \<times> apcontext) list \<Rightarrow> machine" where
  "machine_of w st ds = \<lparr>mc_pinning = pinning w, mc_calls = affinity_calls w, mc_static = st, mc_watched = concat (map watched_of ds)\<rparr>"

lemma fresh_idle: "any_fresh a \<Longrightarrow> any_idle a"
  by (cases a) simp_all

lemma ready_machine_idle:
  assumes "\<forall>(d, c)\<in>set ds. wd_ready d \<and> (\<exists>env config counter w n w'. slot_watchdogRun env config counter w = Some (n, d, w'))"
  shows "machine_idle (machine_of w st ds)"
proof -
  have "any_idle a" if "(d, c) \<in> set ds" "wd_strategy d = Some a" for d c a
    using assms that ready_strategy fresh_idle by fastforce
  then show ?thesis
    by (fastforce simp: machine_idle_def machine_of_def watched_of_def split: prod.splits option.splits)
qed

subsection \<open>The start of the process reaches the strategy\<close>

text \<open>
  The slots of the strategy that what the process announces while it is started reaches. The connections are
  direct and are made before the start, so the slot runs before the watchdog goes on; what follows of \<open>slot_watchdogRun\<close>
  changes neither the strategy nor the pinning.
\<close>

definition started_events :: "watchdog \<Rightarrow> task_event list" where
  "started_events d = concat (map (\<lambda>sig. concat (map strategy_event (createComponentConnections (Process_signal sig)))) (wd_emitted d))"

lemma ready_started_events:
  assumes "slot_watchdogRun env config counter w = Some (n, d, w')" and "wd_ready d"
  shows "started_events d = [Created (op_pid (wd_process d))]"
  using run_outcome[OF assms(1)] assms(2) by (simp add: started_events_def)

text \<open>
  C6. From a configuration to a pinned process. When a watchdog whose \<open>ControlStrategy\<close> is compact becomes
  ready, its process runs and the one announcement made while it was started makes the strategy know exactly the
  process and pin it to the nearest free CPU of the pinning that all watchdogs share, with one call
  of \<open>sched_setaffinity\<close>; every other CPU keeps its task. Before that the watchdog has pinned nothing: it has only created the
  empty pinning, if it is the first. Without a free CPU nothing is pinned. This needs all distances to be known and the call to succeed.
\<close>

theorem process_pinned_at_start:
  assumes run: "slot_watchdogRun env config counter w = Some (n, d, w')" and ready: "wd_ready d"
    and compact: "getConfigOption config ''ControlStrategy'' 0 = ''compact''"
    and known: "distances_known (h_topology henv) (length (pinning w'))"
    and aff: "\<And>cs cpu. h_affinity henv cs (op_pid (wd_process d)) cpu = 0"
    and pid: "op_pid (wd_process d) \<noteq> 0"
  shows "\<exists>s s' w2. wd_strategy d = Some (Compact_strategy s) \<and> running (wd_process d) \<and>
    pinner_events henv (wd_process d) (started_events d) (Compact_pinner s, w') = Some (Compact_pinner s', w2) \<and>
    tasks s' = [op_pid (wd_process d)] \<and>
    pinning w' = (if pinning w = [] then replicate (wd_cpus env) emptyTask else pinning w) \<and> affinity_calls w' = affinity_calls w \<and>
    (if \<exists>f<length (pinning w'). pinning w' ! f = emptyTask then
       \<exists>i<length (pinning w'). pinning w' ! i = emptyTask \<and>
         pinning w2 = (pinning w')[i := \<lparr>t_pid = op_pid (wd_process d), t_tid = op_pid (wd_process d)\<rparr>] \<and>
         affinity_calls w2 = affinity_calls w @ [(op_pid (wd_process d), int i)] \<and>
         (\<forall>f<length (pinning w'). pinning w' ! f = emptyTask \<longrightarrow>
            (let far = own_distance (h_topology henv) (op_pid (wd_process d)) (pinning w') in
             far i \<le> far f \<and> (f < i \<longrightarrow> far i < far f)))
     else w2 = w')"
proof -
  from ready_strategy[OF run ready] compact obtain a where a: "wd_strategy d = Some a" "any_fresh a" "is_compact a"
    and keeps: "affinity_calls w' = affinity_calls w"
      "pinning w' = (if pinning w = [] then replicate (wd_cpus env) emptyTask else pinning w)" by blast
  from a(2,3) obtain s where s: "a = Compact_strategy s" "tasks s = []" by (cases a) auto
  let ?p = "op_pid (wd_process d)"
  let ?d = "own_distance (h_topology henv) ?p (pinning w')"
  have aff': "\<And>cs cpu. h_affinity henv cs ?p cpu = 0" by (fact aff)
  obtain s' w2 where
    slot: "compact_slot_TaskCreated (h_topology henv) (h_affinity henv) (wd_process d) ?p (s, w') = Some (s', w2)"
    and effect: "tasks s' = [?p]" "if \<exists>f<length (pinning w'). pinning w' ! f = emptyTask then
       \<exists>i<length (pinning w'). pinning w' ! i = emptyTask \<and> pinning w2 = (pinning w')[i := \<lparr>t_pid = ?p, t_tid = ?p\<rparr>] \<and>
         affinity_calls w2 = affinity_calls w' @ [(?p, int i)] \<and>
         (\<forall>f<length (pinning w'). pinning w' ! f = emptyTask \<longrightarrow> ?d i \<le> ?d f \<and> (f < i \<longrightarrow> ?d i < ?d f))
     else w2 = w'"
    using compact_created_nearest[where ci = "h_topology henv" and aff = "h_affinity henv" and proc = "wd_process d" and tid = ?p
        and s = s and w = w', OF known pid pid aff'] s(2) by auto
  have "pinner_events henv (wd_process d) (started_events d) (Compact_pinner s, w') = Some (Compact_pinner s', w2)"
    by (simp add: ready_started_events[OF run ready] slot)
  moreover have "running (wd_process d)" using run_outcome[OF run] ready by simp
  ultimately show ?thesis using a(1) s(1) effect keeps(2) unfolding keeps(1) Let_def by blast
qed

definition service_config :: string_map where
  "service_config = demo_config(''ControlStrategy'' \<mapsto> [''compact''])"

definition service_env :: host_env where
  "service_env = demo_host_env\<lparr>h_topology := two_cpus, h_affinity := \<lambda>_ _ _. 0\<rparr>"

lemma service_lookup:
  "getConfigOptionList service_config ''PerformanceMonitors'' = [''r'']" "getConfigOptionList service_config ''r.type'' = [''random'']"
  "getConfigOptionList service_config ''ControlStrategy'' = [''compact'']" "getConfigOptionList service_config ''Exec'' = [''true'']"
  "k \<notin> {''PerformanceMonitors'', ''r.type'', ''ControlStrategy'', ''Exec''} \<Longrightarrow> getConfigOptionList service_config k = []"
  by (simp_all add: service_config_def demo_config_def getConfigOptionList_def)

lemma service_run:
  "\<exists>d w'. slot_watchdogRun demo_wd_env service_config 0 \<lparr>pinning = [], affinity_calls = [], runtime = AutopinContext_new []\<rparr>
     = Some (1, d, w') \<and> wd_ready d \<and> op_pid (wd_process d) = 42"
  by (simp add: slot_watchdogRun_def createContext_def createComponents_def createPerformanceMonitors_def create_monitor_def
      createControlStrategy_def createDataLoggers_def initComponents_def startComponents_def configOptionExists_def
      getConfigOption_def service_lookup Let_def demo_wd_env_def ObservedProcess_init_def init_comm_addr_def init_timeout_def
      init_process_def compact_init_def init_interval_def ControlStrategy_init_def ObservedProcess_start_def ObservedProcess_new_def
      createProcess_def getConfigOptionBool_def getConfigOptionInt_def setPid_def attachToProcess_def dec_conv_def double_or_zero_def)

theorem process_pinned_at_start_witness:
  "\<exists>d w' s s' w2. slot_watchdogRun demo_wd_env service_config 0 \<lparr>pinning = [], affinity_calls = [], runtime = AutopinContext_new []\<rparr>
     = Some (1, d, w') \<and> wd_strategy d = Some (Compact_strategy s) \<and>
   pinner_events service_env (wd_process d) (started_events d) (Compact_pinner s, w') = Some (Compact_pinner s', w2) \<and>
   length (pinning w2) = 2 \<and> \<lparr>t_pid = 42, t_tid = 42\<rparr> \<in> set (pinning w2)"
proof -
  let ?w = "\<lparr>pinning = [], affinity_calls = [], runtime = AutopinContext_new []\<rparr>"
  obtain d w' where d: "slot_watchdogRun demo_wd_env service_config 0 ?w = Some (1, d, w')" "wd_ready d" "op_pid (wd_process d) = 42"
    using service_run by blast
  have pins: "pinning w' = [emptyTask, emptyTask]"
    using ready_strategy[OF d(1,2)] by (auto simp: demo_wd_env_def numeral_2_eq_2)
  have "distances_known (h_topology service_env) (length (pinning w'))"
    by (auto simp: pins service_env_def distances_known_def two_cpus_def getCpuDistance_def less_Suc_eq vec_at_def)
  moreover have "getConfigOption service_config ''ControlStrategy'' 0 = ''compact''"
    by (simp add: getConfigOption_def service_lookup)
  moreover have "\<exists>f<length (pinning w'). pinning w' ! f = emptyTask" by (auto simp: pins)
  ultimately obtain s s' w2 i where "wd_strategy d = Some (Compact_strategy s)"
    "pinner_events service_env (wd_process d) (started_events d) (Compact_pinner s, w') = Some (Compact_pinner s', w2)"
    "i < length (pinning w')" "pinning w2 = (pinning w')[i := \<lparr>t_pid = 42, t_tid = 42\<rparr>]"
    using process_pinned_at_start[OF d(1,2), of service_env] d(3) by (auto simp: service_env_def)
  then show ?thesis using d(1) pins by (auto simp: less_Suc_eq)
qed

end
