(* ===== verification/Spec2Isabelle.thy ===== *)
theory Spec2Isabelle
  imports Service
begin

text \<open>
  \<^bold>\<open>A verification of autopin+\<close>

  autopin+ is a daemon for Linux. For each configuration it starts or attaches to a process, keeps track of the
  threads of that process and its children, pins them to CPUs following a strategy, measures them with performance
  monitors and may forward the measurements to a program. This development models the classes under
  \<open>src/src/AutopinPlus\<close> and \<open>src/include/AutopinPlus\<close> as functions on records, and proves what makes them correct.

  \<^bold>\<open>How the program is put together\<close>

  The application (\<open>Autopin.cpp\<close>) reads the command line and the global configuration and creates a watchdog for each
  process configuration. A watchdog (\<open>Watchdog.cpp\<close>) creates the components for one process: operating system
  services, the observed process, the performance monitors, the control strategy and the data loggers, and connects
  their signals. The observed process learns of new and terminated tasks from the tracing thread, from messages of the
  process, or the strategy polls \<open>/proc\<close>; it tells the strategy, which computes a pinning; \<open>ControlStrategy\<close>
  applies it with \<open>sched_setaffinity\<close>. The pinning of all CPUs is one static vector, shared by all watchdogs.
  Errors are reported to a context, whose table decides which of them are fatal; a fatal one stops the watchdog.

  \<^bold>\<open>Theories\<close>

  \<^item> \<open>Prelude\<close>: lists, vectors with checked access, ordered association lists, the collections of simplification rules.
  \<^item> \<open>Qt_Core\<close>: the operations of \<open>QString\<close> and \<open>QStringList\<close> the code uses, and the record \<open>qt_conv\<close> of number conversions.
  \<^item> \<open>Doubles\<close>: doubles with infinities and NaN; the rounding of each operation is a parameter.
  \<^item> \<open>Error_Context\<close>: \<open>Error.cpp\<close>, \<open>AutopinContext.cpp\<close>; locale \<open>error_sink\<close>.
  \<^item> \<open>Configuration\<close>: \<open>StandardConfiguration.cpp\<close>, \<open>Configuration.cpp\<close>, \<open>Tools.cpp\<close>; locale \<open>option_table\<close>.
  \<^item> \<open>Process_Tree\<close>: \<open>ProcessTree.cpp\<close>, refining a map from processes to their tasks.
  \<^item> \<open>OS_Services\<close>, \<open>Comm_Channel\<close>: \<open>OS/OSServices.cpp\<close>, what is read from \<open>/proc\<close>, starting processes, the socket.
  \<^item> \<open>Trace_Thread\<close>: \<open>OS/TraceThread.cpp\<close>, attaching and the loop over the events of ptrace.
  \<^item> \<open>Observed_Process\<close>: \<open>ObservedProcess.cpp\<close>, in particular the walk that collects the process tree.
  \<^item> \<open>Cpu_Info\<close>: \<open>OS/CpuInfo.cpp\<close>, the NUMA topology read from sysfs.
  \<^item> \<open>Control_Strategy\<close>: \<open>ControlStrategy.cpp\<close>, the base class of the strategies; its locale is interpreted for each of them.
  \<^item> \<open>Compact\<close>, \<open>Scatter\<close>, \<open>Noop\<close>, \<open>Autopin1\<close>: the strategies under \<open>Strategy\<close>.
  \<^item> \<open>Performance_Monitor\<close>: \<open>PerformanceMonitor.cpp\<close>; the locales \<open>task_set_monitor\<close> and \<open>task_monitor\<close> are what strategies
    and loggers rely on.
  \<^item> \<open>Random_Monitor\<close>, \<open>ClustSafe\<close>, \<open>GPerf_Sensor\<close>, \<open>GPerf\<close>, \<open>Page_Migrate\<close>: the monitors under \<open>Monitor\<close>.
    Random, ClustSafe and GPerf interpret the locales.
  \<^item> \<open>External_Logger\<close>: \<open>Logger/External/Main.cpp\<close>, \<open>Logger/External/Process.cpp\<close>, \<open>DataLogger.cpp\<close>.
  \<^item> \<open>Dispatch\<close>: \<open>OS/SignalDispatcher.cpp\<close>, \<open>MQTTClient.cpp\<close>.
  \<^item> \<open>Watchdog\<close>: \<open>Watchdog.cpp\<close>, over the models of all components.
  \<^item> \<open>Host\<close>: several watchdogs with the shared pinning, their slots in any order.
  \<^item> \<open>Follow\<close>: what the strategies do with the tasks they are told about, as the locales \<open>task_follower\<close> (each slot gives or takes at
    most the CPU of its task), \<open>polled_follower\<close> and \<open>total_follower\<close>, interpreted for the strategies; the polling timer over them; the
    vector of CPUs as a map from tasks to CPUs.
  \<^item> \<open>Tracing\<close>: a traced process, its tracing thread, the queue of the event loop and the strategy, as a step relation in which
    kernel events, deliveries and the slots of other watchdogs interleave; the start of a traced program.
  \<^item> \<open>Monitors\<close>: calls through \<open>PerformanceMonitor\<close> for every kind of monitor, which share the static members of ClustSafe; the
    contract of a monitor for all kinds but page migration, and noop with all of them.
  \<^item> \<open>Slots\<close>: every slot and every timeout of every strategy, with all monitors, and machines with several such watchdogs; the
    locale \<open>pinning_slots\<close> says what the strategies with the polling timer pin, and compact, scatter and noop interpret it.
  \<^item> \<open>Autopin\<close>: \<open>Autopin.cpp\<close>, the set-up and the life of the watchdogs, with messages and terminated children as events.
  \<^item> \<open>Lifetime\<close>: \<open>main.cpp\<close>, from the termination of the processes to the end of autopin+.
  \<^item> \<open>Service\<close>: from a configuration to a process that is pinned, through the watchdog, its connections and the strategy.

  \<^bold>\<open>How the code is translated\<close>

  A class is a record with the members the code reads; a method is a function from the object and what else it
  changes to their new values. Slots that run one after the other in the event loop are composed in the order of an
  explicit list of events, over which the theorems quantify. Signals are lists in the result. A report
  changes the context; an exception that is caught is a branch, one that is not is \<open>None\<close>; so is undefined behaviour
  (an index out of bounds, a null pointer, a buffer overflow), which makes the theorems say when there is none.
  Integers are \<open>int\<close> where the code cannot overflow them, and words where it computes with bits or can wrap
  around. A \<open>std::set\<close> is a set that is iterated in its order. What the program gets from outside is a
  parameter: the files under \<open>/proc\<close> and \<open>/sys\<close>, the results of system calls, the clock, random numbers, Qt's number
  conversions, the order \<open>std::sort\<close> gives to equal elements, the results of the libraries mosquitto and spm, and the values of
  members that a constructor leaves uninitialised. Theorems that need something of them state it as a hypothesis
  and have a witness with a concrete instance.

  \<^bold>\<open>Loops\<close>

  Loops over a list are structural recursions. The walk of \<open>ObservedProcess::getProcessTree\<close> has fuel: the number of
  entries of \<open>/proc\<close> is enough, as every process is visited at most once. The loop of \<open>TraceThread::attach\<close> repeats while there
  are new tasks: one more round than there are tasks is enough when tasks only appear. \<open>Main::readSensor\<close> of GPerf calls
  itself for names starting with \<open>gate/\<close>: with any fuel it does not return for those, and it returns at once
  for all others.

  \<^bold>\<open>What is shown\<close>

  \<^item> Tasks: the process tree holds exactly the descendants of a process and their threads; the tracing thread
    announces each task once, in the right order, and its signals reconstruct the set of traced tasks. With polling and with
    tracing, in every interleaving, the strategy and its CPUs follow the tasks of the process: no task has two CPUs, none that
    has terminated keeps one once its signal is delivered, and the waiting signals can always be delivered (scatter, which may
    index out of bounds, apart). A program that is started and traced does not run before its tracer is attached.
  \<^item> Pinning: the whole effect of \<open>changePinning\<close>; compact chooses the nearest free CPU, scatter the
    least used node, with counts that are right in every reachable state; autopin1 tests every pinning once and
    keeps the first best one, and never gets stuck; watchdogs sharing a host do not disturb each other's CPUs; the
    vector refines a map from tasks to CPUs. From a configuration with compact to the pinned process: a watchdog that is ready has
    pinned its process, and nothing else, to the nearest free CPU. On any machine and in every order of the calls only threads
    of the watched processes are pinned, except that autopin1 may pin autopin+ itself when the walk over \<open>/proc\<close> fails.
  \<^item> Monitoring: the file descriptors of GPerf are exactly those of the monitored threads; the selectors
    of a sensor file can be read back from the bits; frames of ClustSafe are accepted exactly when they are
    well-formed, and each instance gets the energy of its own interval; noop's monitors, of
    whatever kind, follow the tasks; the logger sends every value.
  \<^item> Configuration and errors: the three operators, reading back what was written, which texts are errors; the error
    state is set exactly by the fatal reports; which monitors a configuration yields.
  \<^item> Life cycle: no termination of a child is lost; a watchdog either runs its process or has reported an error and
    started nothing; the application lists exactly the watchdogs with a started process, removes those whose process has
    terminated, and exits exactly when nothing is left to do; what \<open>main\<close> returns, and when.

  Several theorems state what the code does where it is not what it means to do: an overflow of the argument vector
  and of the socket address, an accepted outlet -1, autopin1 without a monitor, autopin1 pinning
  itself, intervals of a timer beyond the range of an \<open>int\<close>, and a malformed global configuration that is
  reported before there is a logger.

  \<^bold>\<open>Not modelled\<close>

  \<^item> The text of log messages and \<open>spdlog\<close>: nothing reads them back.
  \<^item> Which events Qt's event loop delivers and in which order: the theorems hold for every sequence. The tracing thread runs in
    parallel with it; each iteration of its loop is one step, as it shares only the queue of signals with the event loop. The mutexes
    are not modelled beyond their number of releases in the tracing thread.
  \<^item> Getters that return a member, and constructors that only store their arguments.
  \<^item> The vendored libraries under \<open>src/vendor\<close>, the examples and the build files.
\<close>

end
